(* ===== verification/Prelude.thy ===== *)
theory Prelude
  imports Main "HOL-Library.Word"
begin

text \<open>
  Shared vocabulary of the development: the Go types the components use, Go errors as
  values, the error monad, byte-level codecs of machine words, and the list lemmas the
  component proofs rely on.

  \<^item> \<open>uint64\<close> is \<^typ>\<open>64 word\<close>, so \<open>+\<close> wraps as in Go.
  \<^item> A fixed-size byte array \<open>[N]byte\<close> is a word of \<open>8 N\<close> bits read big-endian; its
    bytes are \<open>arr_bytes\<close>. Its zero value is \<open>0\<close> and equality is equality.
  \<^item> \<open>[]byte\<close> is a list of bytes. Where the code tells \<open>nil\<close> from an empty slice the
    model uses \<open>option\<close>, with \<open>None\<close> for \<open>nil\<close>.
  \<^item> A Go \<open>error\<close> is a value of \<open>error\<close>: the source's message or format string, with the
    formatted arguments. A function that returns \<open>(T, error)\<close> returns \<open>error + T\<close>.
\<close>

section \<open>Types\<close>

type_synonym byte = "8 word"
type_synonym bytes = "byte list"
type_synonym u64 = "64 word"
type_synonym hash = "256 word"
type_synonym address = "160 word"

text \<open>
  Go errors. \<open>Err\<close> is \<open>errors.New\<close>, \<open>Errf\<close> is \<open>fmt.Errorf\<close> with its format string and
  arguments; the typed errors of the code have their own constructors. \<open>Panic\<close> is a
  run-time panic.
\<close>

datatype error =
    Err string
  | Errf string "arg list"
  | ResourceLimit string nat nat
  | InvalidParams string
  | InvalidInput string
  | ResourceNotFound string
  | Panic string
and arg = ArgN nat | ArgS string | ArgE error

named_theorems err_simps \<open>inversion of the error monad\<close>
named_theorems codec_simps \<open>byte codecs: lengths and round trips\<close>

section \<open>The error monad\<close>

definition bindE :: "'e + 'a \<Rightarrow> ('a \<Rightarrow> 'e + 'b) \<Rightarrow> 'e + 'b" where
  "bindE m k = (case m of Inl e \<Rightarrow> Inl e | Inr a \<Rightarrow> k a)"

lemma bindE_Inl [simp]: "bindE (Inl e) k = Inl e"
  by (simp add: bindE_def)

lemma bindE_Inr [simp]: "bindE (Inr a) k = k a"
  by (simp add: bindE_def)

lemma bindE_eq_Inr [err_simps]: "(bindE m k = Inr b) \<longleftrightarrow> (\<exists>a. m = Inr a \<and> k a = Inr b)"
  by (cases m) auto

lemma bindE_eq_Inl [err_simps]:
  "(bindE m k = Inl e) \<longleftrightarrow> (m = Inl e \<or> (\<exists>a. m = Inr a \<and> k a = Inl e))"
  by (cases m) auto

lemma bindE_cong [fundef_cong]:
  "m = m' \<Longrightarrow> (\<And>a. m' = Inr a \<Longrightarrow> k a = k' a) \<Longrightarrow> bindE m k = bindE m' k'"
  by (cases m') auto

lemma if_Inl_eq_Inr [err_simps]: "((if b then Inl e else m) = Inr a) \<longleftrightarrow> (\<not> b \<and> m = Inr a)"
  by auto

text \<open>\<open>fmt.Errorf("...: %w", err)\<close>.\<close>

definition wrapE :: "string \<Rightarrow> error + 'a \<Rightarrow> error + 'a" where
  "wrapE msg m = (case m of Inl e \<Rightarrow> Inl (Errf msg [ArgE e]) | Inr a \<Rightarrow> Inr a)"

lemma wrapE_eq_Inr [simp]: "wrapE msg m = Inr a \<longleftrightarrow> m = Inr a"
  by (cases m) (auto simp: wrapE_def)

lemma wrapE_Inr [simp]: "wrapE msg (Inr a) = Inr a"
  by (simp add: wrapE_def)

text \<open>A \<open>for\<close> loop whose body may return an error.\<close>

fun foldE :: "('s \<Rightarrow> 'a \<Rightarrow> 'e + 's) \<Rightarrow> 's \<Rightarrow> 'a list \<Rightarrow> 'e + 's" where
  "foldE f s [] = Inr s"
| "foldE f s (x # xs) = bindE (f s x) (\<lambda>s'. foldE f s' xs)"

fun mapE :: "('a \<Rightarrow> 'e + 'b) \<Rightarrow> 'a list \<Rightarrow> 'e + 'b list" where
  "mapE f [] = Inr []"
| "mapE f (x # xs) = bindE (f x) (\<lambda>y. bindE (mapE f xs) (\<lambda>ys. Inr (y # ys)))"

lemma foldE_append: "foldE f s (xs @ ys) = bindE (foldE f s xs) (\<lambda>s'. foldE f s' ys)"
proof (induction xs arbitrary: s)
  case (Cons x xs)
  then show ?case by (cases "f s x") auto
qed simp

lemma foldE_inv:
  assumes "foldE f s xs = Inr t" and "P s"
    and "\<And>s x s'. x \<in> set xs \<Longrightarrow> P s \<Longrightarrow> f s x = Inr s' \<Longrightarrow> P s'"
  shows "P t"
  using assms
proof (induction xs arbitrary: s)
  case (Cons x xs)
  from Cons.prems(1) obtain s1 where s1: "f s x = Inr s1" "foldE f s1 xs = Inr t"
    by (auto simp: err_simps)
  have "P s1" using Cons.prems(2,3) s1(1) by auto
  then show ?case using Cons.IH [OF s1(2)] Cons.prems(3) by auto
qed simp

lemma foldE_ok:
  assumes "P s" and "\<And>s x. x \<in> set xs \<Longrightarrow> P s \<Longrightarrow> \<exists>s'. f s x = Inr s' \<and> P s'"
  shows "\<exists>t. foldE f s xs = Inr t \<and> P t"
  using assms
proof (induction xs arbitrary: s)
  case (Cons x xs)
  from Cons.prems obtain s1 where "f s x = Inr s1" "P s1" by auto
  then show ?case using Cons.IH [of s1] Cons.prems(2) by auto
qed simp

lemma mapE_eq_Inr: "(mapE f xs = Inr ys) \<longleftrightarrow> list_all2 (\<lambda>x y. f x = Inr y) xs ys"
proof (induction xs arbitrary: ys)
  case (Cons x xs)
  then show ?case by (cases ys) (auto simp: err_simps)
qed auto

lemma mapE_length: "mapE f xs = Inr ys \<Longrightarrow> length ys = length xs"
  by (auto simp: mapE_eq_Inr dest: list_all2_lengthD)

lemma mapE_map_Inr: "(\<And>x. x \<in> set xs \<Longrightarrow> f x = Inr (g x)) \<Longrightarrow> mapE f xs = Inr (map g xs)"
  by (induction xs) auto

lemma mapE_Inr [simp]: "mapE (\<lambda>x. Inr (f x)) xs = Inr (map f xs)"
  by (induction xs) auto

lemma mapE_append:
  "mapE f (xs @ ys) = bindE (mapE f xs) (\<lambda>as. bindE (mapE f ys) (\<lambda>bs. Inr (as @ bs)))"
proof (induction xs)
  case Nil
  then show ?case by (cases "mapE f ys") auto
next
  case (Cons x xs)
  then show ?case by (cases "f x"; cases "mapE f xs"; cases "mapE f ys") auto
qed

section \<open>Byte codecs\<close>

definition le_bytes :: "nat \<Rightarrow> 'a::len word \<Rightarrow> bytes" where
  "le_bytes n w = map (\<lambda>i. ucast (drop_bit (8 * i) w)) [0..<n]"

fun le_word :: "bytes \<Rightarrow> 'a::len word" where
  "le_word [] = 0"
| "le_word (b # bs) = or (ucast b) (push_bit 8 (le_word bs))"

definition be_bytes :: "nat \<Rightarrow> 'a::len word \<Rightarrow> bytes" where
  "be_bytes n w = rev (le_bytes n w)"

definition be_word :: "bytes \<Rightarrow> 'a::len word" where
  "be_word bs = le_word (rev bs)"

lemma length_le_bytes [simp, codec_simps]: "length (le_bytes n w) = n"
  by (simp add: le_bytes_def)

lemma length_be_bytes [simp, codec_simps]: "length (be_bytes n w) = n"
  by (simp add: be_bytes_def)

lemma bit_le_word:
  "bit (le_word bs :: 'a::len word) k \<longleftrightarrow>
     k < LENGTH('a) \<and> k div 8 < length bs \<and> bit (bs ! (k div 8)) (k mod 8)"
proof (induction bs arbitrary: k)
  case (Cons b bs)
  show ?case
  proof (cases "k < 8")
    case True
    then show ?thesis by (auto simp: bit_simps)
  next
    case False
    then have d: "k div 8 = Suc ((k - 8) div 8)" "(k - 8) mod 8 = k mod 8"
      by (auto simp: le_div_geq le_mod_geq)
    have nb: "\<not> bit b k" using False bit_imp_le_length [of b k] by auto
    show ?thesis using False Cons.IH [of "k - 8"] nb d
      by (auto simp: bit_simps)
  qed
qed simp

lemma le_word_le_bytes [codec_simps]:
  fixes w :: "'a::len word"
  assumes "LENGTH('a) \<le> 8 * n"
  shows "le_word (le_bytes n w) = w"
proof (rule bit_word_eqI)
  fix k assume k: "k < LENGTH('a)"
  then have "k div 8 < n" using assms by auto
  then show "bit (le_word (le_bytes n w) :: 'a word) k = bit w k"
    using k by (simp add: bit_le_word le_bytes_def bit_simps)
qed

lemma le_bytes_le_word [codec_simps]:
  assumes "length bs = n" and "8 * n \<le> LENGTH('a::len)"
  shows "le_bytes n (le_word bs :: 'a word) = bs"
proof (rule nth_equalityI)
  show "length (le_bytes n (le_word bs :: 'a word)) = length bs" using assms by simp
next
  fix i assume "i < length (le_bytes n (le_word bs :: 'a word))"
  then have i: "i < n" by simp
  have "ucast (drop_bit (8 * i) (le_word bs :: 'a word)) = bs ! i"
  proof (rule bit_word_eqI)
    fix k assume "k < LENGTH(8)"
    then have "k < 8" by simp
    then show "bit (ucast (drop_bit (8 * i) (le_word bs :: 'a word)) :: byte) k = bit (bs ! i) k"
      using i assms by (auto simp: bit_simps bit_le_word)
  qed
  then show "le_bytes n (le_word bs :: 'a word) ! i = bs ! i"
    using i by (simp add: le_bytes_def)
qed

lemma be_word_be_bytes [codec_simps]:
  fixes w :: "'a::len word"
  shows "LENGTH('a) \<le> 8 * n \<Longrightarrow> be_word (be_bytes n w) = w"
  by (simp add: be_word_def be_bytes_def le_word_le_bytes)

lemma be_bytes_be_word [codec_simps]:
  "length bs = n \<Longrightarrow> 8 * n \<le> LENGTH('a::len) \<Longrightarrow> be_bytes n (be_word bs :: 'a word) = bs"
  by (simp add: be_word_def be_bytes_def le_bytes_le_word)

lemma be_bytes_inject:
  fixes v w :: "'a::len word"
  assumes "LENGTH('a) \<le> 8 * n"
  shows "be_bytes n v = be_bytes n w \<longleftrightarrow> v = w"
  by (metis assms be_word_be_bytes)

lemma le_bytes_inject:
  fixes v w :: "'a::len word"
  assumes "LENGTH('a) \<le> 8 * n"
  shows "le_bytes n v = le_bytes n w \<longleftrightarrow> v = w"
  by (metis assms le_word_le_bytes)

text \<open>The bytes of a fixed-size array, and the array read back from its bytes.\<close>

definition arr_bytes :: "'a::len word \<Rightarrow> bytes" where
  "arr_bytes w = be_bytes (LENGTH('a) div 8) w"

lemma length_arr_bytes [simp, codec_simps]: "length (arr_bytes (w :: 'a::len word)) = LENGTH('a) div 8"
  by (simp add: arr_bytes_def)

text \<open>Strings of the source used as byte strings.\<close>

definition str_bytes :: "string \<Rightarrow> bytes" where
  "str_bytes s = map of_char s"

section \<open>Slices\<close>

text \<open>
  \<open>slice lo hi xs\<close> is \<open>xs[lo:hi]\<close> for \<open>lo \<le> hi \<le> len(xs)\<close>; \<open>go_copy lo hi src dst\<close> is the
  array \<open>dst\<close> after \<open>copy(dst[lo:hi], src)\<close>.
\<close>

definition slice :: "nat \<Rightarrow> nat \<Rightarrow> 'a list \<Rightarrow> 'a list" where
  "slice lo hi xs = take (hi - lo) (drop lo xs)"

definition go_copy :: "nat \<Rightarrow> nat \<Rightarrow> 'a list \<Rightarrow> 'a list \<Rightarrow> 'a list" where
  "go_copy lo hi src dst =
     (let n = min (hi - lo) (length src) in take lo dst @ take n src @ drop (lo + n) dst)"

lemma length_slice [simp]: "hi \<le> length xs \<Longrightarrow> length (slice lo hi xs) = hi - lo"
  by (simp add: slice_def)

lemma length_go_copy [simp]: "hi \<le> length dst \<Longrightarrow> length (go_copy lo hi src dst) = length dst"
  by (auto simp: go_copy_def Let_def min_def)

lemma go_copy_front:
  assumes "length pre = lo" and "lo + length src = hi" and "length src \<le> length rest"
  shows "go_copy lo hi src (pre @ rest) = (pre @ src) @ drop (length src) rest"
  using assms by (auto simp: go_copy_def Let_def)

section \<open>Chunks\<close>

text \<open>
  The loop \<open>for offset := 0; offset < len(p); offset += n\<close> over \<open>p[offset:offset+n]\<close>: the
  consecutive \<open>n\<close>-byte pieces of \<open>p\<close>.
\<close>

function chunks :: "nat \<Rightarrow> 'a list \<Rightarrow> 'a list list" where
  "chunks n xs = (if n = 0 \<or> xs = [] then [] else take n xs # chunks n (drop n xs))"
  by pat_completeness auto
termination
  by (relation "measure (\<lambda>(n, xs). length xs)") auto

declare chunks.simps [simp del]

lemma chunks_Nil [simp]: "chunks n [] = []"
  by (simp add: chunks.simps)

lemma concat_chunks: "0 < n \<Longrightarrow> concat (chunks n xs) = xs"
proof (induction n xs rule: chunks.induct)
  case (1 n xs)
  then show ?case by (cases "xs = []") (simp_all add: chunks.simps [of n xs])
qed

lemma chunks_width:
  assumes "n dvd length xs" and "c \<in> set (chunks n xs)"
  shows "length c = n"
  using assms
proof (induction n xs rule: chunks.induct)
  case (1 n xs)
  show ?case
  proof (cases "n = 0 \<or> xs = []")
    case True
    with "1.prems" show ?thesis by (auto simp: chunks.simps [of n xs])
  next
    case False
    then have le: "n \<le> length xs" using "1.prems"(1) by (auto dest: dvd_imp_le)
    have "n dvd length (drop n xs)" using "1.prems"(1) le by simp
    with False "1.IH" "1.prems"(2) le show ?thesis by (auto simp: chunks.simps [of n xs])
  qed
qed

lemma chunks_append:
  assumes "0 < n" and "length c = n"
  shows "chunks n (c @ xs) = c # chunks n xs"
  using assms by (subst chunks.simps) auto

lemma chunks_concat:
  assumes "0 < n" and "\<forall>c \<in> set cs. length c = n"
  shows "chunks n (concat cs) = cs"
  using assms(2) by (induction cs) (use assms(1) in \<open>auto simp: chunks_append\<close>)

lemma length_chunks:
  assumes "0 < n" and "n dvd length xs"
  shows "length (chunks n xs) = length xs div n"
  using assms
proof (induction n xs rule: chunks.induct)
  case (1 n xs)
  show ?case
  proof (cases "xs = []")
    case False
    then have le: "n \<le> length xs" using "1.prems" by (auto dest: dvd_imp_le)
    have "length (chunks n (drop n xs)) = (length xs - n) div n"
      using "1.IH" False "1.prems" le by simp
    with False "1.prems" le show ?thesis by (simp add: chunks.simps [of n xs] le_div_geq)
  qed simp
qed

section \<open>Lists\<close>

lemma length_concat_const: "\<forall>c \<in> set cs. length c = n \<Longrightarrow> length (concat cs) = n * length cs"
  by (induction cs) auto

lemma upt_split: "i \<le> j \<Longrightarrow> j \<le> k \<Longrightarrow> [i..<k] = [i..<j] @ [j..<k]"
  by (metis le_Suc_ex upt_add_eq_append)

lemma nil_free_map: "None \<notin> set xs \<Longrightarrow> \<exists>ys. xs = map Some ys"
  by (rule exI [of _ "map the xs"]) (induction xs, auto)

lemma sorted_wrt_less_distinct: "sorted_wrt (<) (xs :: 'a::preorder list) \<Longrightarrow> distinct xs"
  by (induction xs) auto

lemma sorted_wrt_take: "sorted_wrt P xs \<Longrightarrow> sorted_wrt P (take n xs)"
  by (metis append_take_drop_id sorted_wrt_append)

lemma sorted_wrt_drop: "sorted_wrt P xs \<Longrightarrow> sorted_wrt P (drop n xs)"
  by (metis append_take_drop_id sorted_wrt_append)

section \<open>Increments of machine words\<close>

lemma word_inc_neq_0: "n \<noteq> - 1 \<Longrightarrow> n + 1 \<noteq> (0 :: 'a::len word)"
  by (simp add: eq_neg_iff_add_eq_0)

lemma unat_inc: "n \<noteq> - 1 \<Longrightarrow> unat (n + 1) = Suc (unat (n :: 'a::len word))"
  using unatSuc [of n] word_inc_neq_0 [of n] by (simp add: add.commute)

lemma word_less_inc: "n \<noteq> - 1 \<Longrightarrow> i \<le> n \<Longrightarrow> i < n + (1 :: 'a::len word)"
  by (simp add: word_less_nat_alt word_le_nat_alt unat_inc)

end
