(* ===== verification/Request_Codec.thy ===== *)
theory Request_Codec
  imports Prelude
begin

text \<open>
  The typed execution requests of EIP-6110, EIP-7002, EIP-7251 and of the Gloas builder
  requests, and their byte codec (\<open>src/execution_requests.go\<close>, \<open>src/gloas_types.go\<close>):
  the single-entry encoders and decoders, \<open>parseExecutionRequests\<close> and
  \<open>marshalExecutionRequests\<close>. A nil pointer in a request list is \<open>None\<close>; a nil
  \<open>[][]byte\<close> or a nil \<open>*executionRequests\<close> is \<open>None\<close> too.

  The lemmas show that the entry codecs are inverse to each other, that parsing a marshalled
  request set gives it back, and that whatever the parser accepts marshals to the very same
  bytes. They go through \<open>grp\<close>, the encoded entries of one request type.
\<close>

section \<open>Data\<close>

abbreviation "executionRequestDeposit \<equiv> (0 :: byte)"
abbreviation "executionRequestWithdrawal \<equiv> (1 :: byte)"
abbreviation "executionRequestConsolidation \<equiv> (2 :: byte)"
abbreviation "executionRequestBuilderDeposit \<equiv> (3 :: byte)"
abbreviation "executionRequestBuilderExit \<equiv> (4 :: byte)"

abbreviation "maxDepositRequestsPerPayload \<equiv> (8192 :: nat)"
abbreviation "maxWithdrawalRequestsPerPayload \<equiv> (16 :: nat)"
abbreviation "maxConsolidationRequestsPerPayload \<equiv> (2 :: nat)"

abbreviation "depositRequestSize \<equiv> (192 :: nat)"
abbreviation "withdrawalRequestSize \<equiv> (76 :: nat)"
abbreviation "consolidationRequestSize \<equiv> (116 :: nat)"

type_synonym pubkey = "384 word"
type_synonym signature = "768 word"

record ExecutionDepositRequest =
  xd_Pubkey :: pubkey
  xd_WithdrawalCredentials :: hash
  xd_Amount :: u64
  xd_Signature :: signature
  xd_Index :: u64

record ExecutionWithdrawalRequest =
  xw_SourceAddress :: address
  xw_ValidatorPubkey :: pubkey
  xw_Amount :: u64

record ExecutionConsolidationRequest =
  xc_SourceAddress :: address
  xc_SourcePubkey :: pubkey
  xc_TargetPubkey :: pubkey

text \<open>The entry types of the Electra container; only the withdrawal credentials are a slice.\<close>

record electra_DepositRequest =
  ed_Pubkey :: pubkey
  ed_WithdrawalCredentials :: bytes
  ed_Amount :: u64
  ed_Signature :: signature
  ed_Index :: u64

record electra_WithdrawalRequest =
  ew_SourceAddress :: address
  ew_ValidatorPubkey :: pubkey
  ew_Amount :: u64

record electra_ConsolidationRequest =
  ec_SourceAddress :: address
  ec_SourcePubkey :: pubkey
  ec_TargetPubkey :: pubkey

record gloasBuilderDepositRequest =
  bd_Pubkey :: pubkey
  bd_WithdrawalCredentials :: hash
  bd_Amount :: u64
  bd_Signature :: signature

record gloasBuilderExitRequest =
  be_SourceAddress :: address
  be_Pubkey :: pubkey

record executionRequests =
  Deposits :: "electra_DepositRequest option list"
  Withdrawals :: "electra_WithdrawalRequest option list"
  Consolidations :: "electra_ConsolidationRequest option list"
  BuilderDeposits :: "gloasBuilderDepositRequest option list"
  BuilderExits :: "gloasBuilderExitRequest option list"

definition emptyRequests :: executionRequests where
  "emptyRequests = \<lparr>Deposits = [], Withdrawals = [], Consolidations = [],
     BuilderDeposits = [], BuilderExits = []\<rparr>"

section \<open>Single entries\<close>

definition encodeExecutionDepositRequest :: "ExecutionDepositRequest \<Rightarrow> bytes" where
  "encodeExecutionDepositRequest request =
     (let result = replicate depositRequestSize 0;
          result = go_copy 0 48 (arr_bytes (xd_Pubkey request)) result;
          result = go_copy 48 80 (arr_bytes (xd_WithdrawalCredentials request)) result;
          result = go_copy 80 88 (le_bytes 8 (xd_Amount request)) result;
          result = go_copy 88 184 (arr_bytes (xd_Signature request)) result;
          result = go_copy 184 192 (le_bytes 8 (xd_Index request)) result
      in result)"

definition encodeExecutionWithdrawalRequest :: "ExecutionWithdrawalRequest \<Rightarrow> bytes" where
  "encodeExecutionWithdrawalRequest request =
     (let result = replicate withdrawalRequestSize 0;
          result = go_copy 0 20 (arr_bytes (xw_SourceAddress request)) result;
          result = go_copy 20 68 (arr_bytes (xw_ValidatorPubkey request)) result;
          result = go_copy 68 76 (le_bytes 8 (xw_Amount request)) result
      in result)"

definition encodeExecutionConsolidationRequest :: "ExecutionConsolidationRequest \<Rightarrow> bytes" where
  "encodeExecutionConsolidationRequest request =
     (let result = replicate consolidationRequestSize 0;
          result = go_copy 0 20 (arr_bytes (xc_SourceAddress request)) result;
          result = go_copy 20 68 (arr_bytes (xc_SourcePubkey request)) result;
          result = go_copy 68 116 (arr_bytes (xc_TargetPubkey request)) result
      in result)"

definition decodeDepositRequest :: "bytes \<Rightarrow> error + electra_DepositRequest" where
  "decodeDepositRequest data =
     (if length data \<noteq> depositRequestSize
      then Inl (Errf ''deposit request has length %d, want %d''
             [ArgN (length data), ArgN depositRequestSize])
      else Inr \<lparr>ed_Pubkey = be_word (slice 0 48 data),
             ed_WithdrawalCredentials = slice 48 80 data,
             ed_Amount = le_word (slice 80 88 data),
             ed_Signature = be_word (slice 88 184 data),
             ed_Index = le_word (slice 184 192 data)\<rparr>)"

definition decodeWithdrawalRequest :: "bytes \<Rightarrow> error + electra_WithdrawalRequest" where
  "decodeWithdrawalRequest data =
     (if length data \<noteq> withdrawalRequestSize
      then Inl (Errf ''withdrawal request has length %d, want %d''
             [ArgN (length data), ArgN withdrawalRequestSize])
      else Inr \<lparr>ew_SourceAddress = be_word (slice 0 20 data),
             ew_ValidatorPubkey = be_word (slice 20 68 data),
             ew_Amount = le_word (slice 68 76 data)\<rparr>)"

definition decodeConsolidationRequest :: "bytes \<Rightarrow> error + electra_ConsolidationRequest" where
  "decodeConsolidationRequest data =
     (if length data \<noteq> consolidationRequestSize
      then Inl (Errf ''consolidation request has length %d, want %d''
             [ArgN (length data), ArgN consolidationRequestSize])
      else Inr \<lparr>ec_SourceAddress = be_word (slice 0 20 data),
             ec_SourcePubkey = be_word (slice 20 68 data),
             ec_TargetPubkey = be_word (slice 68 116 data)\<rparr>)"

text \<open>The bodies of the two builder loops of the parser.\<close>

definition decodeBuilderDeposit :: "bytes \<Rightarrow> gloasBuilderDepositRequest" where
  "decodeBuilderDeposit data =
     \<lparr>bd_Pubkey = be_word (slice 0 48 data),
      bd_WithdrawalCredentials = be_word (slice 48 80 data),
      bd_Amount = le_word (slice 80 88 data),
      bd_Signature = be_word (slice 88 184 data)\<rparr>"

definition decodeBuilderExit :: "bytes \<Rightarrow> gloasBuilderExitRequest" where
  "decodeBuilderExit data =
     \<lparr>be_SourceAddress = be_word (slice 0 20 data),
      be_Pubkey = be_word (slice 20 68 data)\<rparr>"

section \<open>The request list\<close>

definition parsePayload :: "byte \<Rightarrow> bytes \<Rightarrow> executionRequests \<Rightarrow> error + executionRequests" where
  "parsePayload requestType payload result =
     (if requestType = executionRequestDeposit then
        (if length payload mod depositRequestSize \<noteq> 0
         then Inl (Errf ''deposit request payload has length %d'' [ArgN (length payload)])
         else bindE (mapE decodeDepositRequest (chunks depositRequestSize payload))
           (\<lambda>values. Inr (result\<lparr>Deposits := Deposits result @ map Some values\<rparr>)))
      else if requestType = executionRequestWithdrawal then
        (if length payload mod withdrawalRequestSize \<noteq> 0
         then Inl (Errf ''withdrawal request payload has length %d'' [ArgN (length payload)])
         else bindE (mapE decodeWithdrawalRequest (chunks withdrawalRequestSize payload))
           (\<lambda>values. Inr (result\<lparr>Withdrawals := Withdrawals result @ map Some values\<rparr>)))
      else if requestType = executionRequestBuilderDeposit then
        (if length payload mod 184 \<noteq> 0 \<or> length payload div 184 > 64
         then Inl (Err ''invalid builder deposit request payload'')
         else Inr (result\<lparr>BuilderDeposits := BuilderDeposits result
                @ map (\<lambda>c. Some (decodeBuilderDeposit c)) (chunks 184 payload)\<rparr>))
      else if requestType = executionRequestBuilderExit then
        (if length payload mod 68 \<noteq> 0 \<or> length payload div 68 > 16
         then Inl (Err ''invalid builder exit request payload'')
         else Inr (result\<lparr>BuilderExits := BuilderExits result
                @ map (\<lambda>c. Some (decodeBuilderExit c)) (chunks 68 payload)\<rparr>))
      else if requestType = executionRequestConsolidation then
        (if length payload mod consolidationRequestSize \<noteq> 0
         then Inl (Errf ''consolidation request payload has length %d'' [ArgN (length payload)])
         else bindE (mapE decodeConsolidationRequest (chunks consolidationRequestSize payload))
           (\<lambda>values. Inr (result\<lparr>Consolidations := Consolidations result @ map Some values\<rparr>)))
      else Inr result)"

fun parseItems :: "nat \<Rightarrow> int \<Rightarrow> executionRequests \<Rightarrow> bytes list \<Rightarrow> error + executionRequests" where
  "parseItems index previousType result [] = Inr result"
| "parseItems index previousType result (request # requests) =
     (if length request \<le> 1
      then Inl (Errf ''execution request item %d has no payload'' [ArgN index])
      else let requestType = uint (hd request) in
        if requestType > uint executionRequestBuilderExit
        then Inl (Errf ''unsupported execution request type 0x%02x'' [ArgN (unat (hd request))])
        else if requestType \<le> previousType
        then Inl (Err ''execution request types are not strictly increasing'')
        else bindE (parsePayload (hd request) (tl request) result)
          (\<lambda>result'. parseItems (Suc index) requestType result' requests))"

definition parseExecutionRequests :: "bytes list option \<Rightarrow> error + executionRequests option" where
  "parseExecutionRequests requests =
     (case requests of
        None \<Rightarrow> Inr None
      | Some rs \<Rightarrow>
          bindE (parseItems 0 (-1) emptyRequests rs) (\<lambda>result.
            if length (Deposits result) > maxDepositRequestsPerPayload
            then Inl (Errf ''block has %d deposit requests, max %d''
                   [ArgN (length (Deposits result)), ArgN maxDepositRequestsPerPayload])
            else if length (Withdrawals result) > maxWithdrawalRequestsPerPayload
            then Inl (Errf ''block has %d withdrawal requests, max %d''
                   [ArgN (length (Withdrawals result)), ArgN maxWithdrawalRequestsPerPayload])
            else if length (Consolidations result) > maxConsolidationRequestsPerPayload
            then Inl (Errf ''block has %d consolidation requests, max %d''
                   [ArgN (length (Consolidations result)), ArgN maxConsolidationRequestsPerPayload])
            else Inr (Some result)))"

text \<open>
  The loop bodies of \<open>marshalExecutionRequests\<close>: one entry of each list, at its index.
\<close>

definition marshalDeposit :: "nat \<times> electra_DepositRequest option \<Rightarrow> error + bytes" where
  "marshalDeposit = (\<lambda>(index, request).
     case request of
       None \<Rightarrow> Inl (Errf ''deposit request %d is invalid'' [ArgN index])
     | Some r \<Rightarrow>
         if length (ed_WithdrawalCredentials r) \<noteq> 32
         then Inl (Errf ''deposit request %d is invalid'' [ArgN index])
         else Inr (encodeExecutionDepositRequest
           \<lparr>xd_Pubkey = ed_Pubkey r,
            xd_WithdrawalCredentials = be_word (ed_WithdrawalCredentials r),
            xd_Amount = ed_Amount r, xd_Signature = ed_Signature r, xd_Index = ed_Index r\<rparr>))"

definition marshalWithdrawal :: "nat \<times> electra_WithdrawalRequest option \<Rightarrow> error + bytes" where
  "marshalWithdrawal = (\<lambda>(index, request).
     case request of
       None \<Rightarrow> Inl (Errf ''withdrawal request %d is invalid'' [ArgN index])
     | Some r \<Rightarrow> Inr (encodeExecutionWithdrawalRequest
         \<lparr>xw_SourceAddress = ew_SourceAddress r, xw_ValidatorPubkey = ew_ValidatorPubkey r,
          xw_Amount = ew_Amount r\<rparr>))"

definition marshalConsolidation :: "nat \<times> electra_ConsolidationRequest option \<Rightarrow> error + bytes" where
  "marshalConsolidation = (\<lambda>(index, request).
     case request of
       None \<Rightarrow> Inl (Errf ''consolidation request %d is invalid'' [ArgN index])
     | Some r \<Rightarrow> Inr (encodeExecutionConsolidationRequest
         \<lparr>xc_SourceAddress = ec_SourceAddress r, xc_SourcePubkey = ec_SourcePubkey r,
          xc_TargetPubkey = ec_TargetPubkey r\<rparr>))"

definition marshalBuilderDeposit :: "nat \<times> gloasBuilderDepositRequest option \<Rightarrow> error + bytes" where
  "marshalBuilderDeposit = (\<lambda>(index, request).
     case request of
       None \<Rightarrow> Inl (Err ''nil builder deposit'')
     | Some v \<Rightarrow> Inr (arr_bytes (bd_Pubkey v) @ arr_bytes (bd_WithdrawalCredentials v)
         @ le_bytes 8 (bd_Amount v) @ arr_bytes (bd_Signature v)))"

definition marshalBuilderExit :: "nat \<times> gloasBuilderExitRequest option \<Rightarrow> error + bytes" where
  "marshalBuilderExit = (\<lambda>(index, request).
     case request of
       None \<Rightarrow> Inl (Err ''nil builder exit'')
     | Some v \<Rightarrow> Inr (arr_bytes (be_SourceAddress v) @ arr_bytes (be_Pubkey v)))"

text \<open>One block of \<open>marshalExecutionRequests\<close>: no item for an empty list.\<close>

definition marshalGroup :: "byte \<Rightarrow> (nat \<times> 'a \<Rightarrow> error + bytes) \<Rightarrow> 'a list \<Rightarrow> error + bytes list" where
  "marshalGroup requestType entry xs =
     (if xs = [] then Inr []
      else bindE (mapE entry (enumerate 0 xs)) (\<lambda>es. Inr [requestType # concat es]))"

definition marshalExecutionRequests :: "executionRequests option \<Rightarrow> error + bytes list option" where
  "marshalExecutionRequests requests =
     (case requests of
        None \<Rightarrow> Inr None
      | Some r \<Rightarrow>
          bindE (marshalGroup executionRequestDeposit marshalDeposit (Deposits r)) (\<lambda>d.
          bindE (marshalGroup executionRequestWithdrawal marshalWithdrawal (Withdrawals r)) (\<lambda>w.
          bindE (marshalGroup executionRequestConsolidation marshalConsolidation (Consolidations r)) (\<lambda>c.
          bindE (marshalGroup executionRequestBuilderDeposit marshalBuilderDeposit (BuilderDeposits r)) (\<lambda>bd.
          bindE (marshalGroup executionRequestBuilderExit marshalBuilderExit (BuilderExits r)) (\<lambda>be.
          Inr (Some (d @ w @ c @ bd @ be))))))))"

definition cloneElectraExecutionRequests :: "executionRequests option \<Rightarrow> error + executionRequests" where
  "cloneElectraExecutionRequests requests =
     (case requests of
        None \<Rightarrow> Inr emptyRequests
      | Some r \<Rightarrow>
          if None \<in> set (Deposits r) \<or> None \<in> set (Withdrawals r) \<or> None \<in> set (Consolidations r)
             \<or> None \<in> set (BuilderDeposits r) \<or> None \<in> set (BuilderExits r)
          then Inl (Panic ''nil pointer dereference'')
          else Inr \<lparr>Deposits = Deposits r, Withdrawals = Withdrawals r,
                 Consolidations = Consolidations r, BuilderDeposits = BuilderDeposits r,
                 BuilderExits = BuilderExits r\<rparr>)"

definition equalExecutionRequestBytes :: "bytes list option \<Rightarrow> bytes list option \<Rightarrow> bool" where
  "equalExecutionRequestBytes left right =
     (if (left = None) \<noteq> (right = None)
         \<or> length (case left of None \<Rightarrow> [] | Some l \<Rightarrow> l) \<noteq> length (case right of None \<Rightarrow> [] | Some r \<Rightarrow> r)
      then False
      else list_all2 (=) (case left of None \<Rightarrow> [] | Some l \<Rightarrow> l) (case right of None \<Rightarrow> [] | Some r \<Rightarrow> r))"

definition executionRequestEntries :: "bytes list \<Rightarrow> byte \<Rightarrow> error + bytes list" where
  "executionRequestEntries requests requestType =
     (let entries = (\<lambda>size.
        case find (\<lambda>request. \<not> (request = [] \<or> hd request \<noteq> requestType)) requests of
          None \<Rightarrow> Inr []
        | Some request \<Rightarrow>
            let payload = tl request in
            if length payload mod size \<noteq> 0
            then Inl (Errf ''type 0x%02x payload has length %d''
                   [ArgN (unat requestType), ArgN (length payload)])
            else Inr (chunks size payload))
      in if requestType = executionRequestDeposit then entries depositRequestSize
         else if requestType = executionRequestWithdrawal then entries withdrawalRequestSize
         else if requestType = executionRequestConsolidation then entries consolidationRequestSize
         else Inl (Errf ''unsupported execution request type 0x%02x'' [ArgN (unat requestType)]))"

section \<open>Entry codecs\<close>

lemma slice_join [codec_simps]:
  assumes "i \<le> j" and "j \<le> k"
  shows "slice i j d @ slice j k d = slice i k d"
proof -
  have "k - i = (j - i) + (k - j)" "drop j d = drop (j - i) (drop i d)" using assms by auto
  then show ?thesis unfolding slice_def by (metis take_add)
qed

lemma slice_all [codec_simps]: "length d = n \<Longrightarrow> slice 0 n d = d"
  by (simp add: slice_def)

lemma encodeExecutionDepositRequest_eq:
  "encodeExecutionDepositRequest r = arr_bytes (xd_Pubkey r) @ arr_bytes (xd_WithdrawalCredentials r)
     @ le_bytes 8 (xd_Amount r) @ arr_bytes (xd_Signature r) @ le_bytes 8 (xd_Index r)"
  by (simp add: encodeExecutionDepositRequest_def go_copy_def)

lemma encodeExecutionWithdrawalRequest_eq:
  "encodeExecutionWithdrawalRequest r = arr_bytes (xw_SourceAddress r)
     @ arr_bytes (xw_ValidatorPubkey r) @ le_bytes 8 (xw_Amount r)"
  by (simp add: encodeExecutionWithdrawalRequest_def go_copy_def)

lemma encodeExecutionConsolidationRequest_eq:
  "encodeExecutionConsolidationRequest r = arr_bytes (xc_SourceAddress r)
     @ arr_bytes (xc_SourcePubkey r) @ arr_bytes (xc_TargetPubkey r)"
  by (simp add: encodeExecutionConsolidationRequest_def go_copy_def)

lemmas encode_eqs = encodeExecutionDepositRequest_eq encodeExecutionWithdrawalRequest_eq
  encodeExecutionConsolidationRequest_eq

text \<open>The bytes of one entry of each request list.\<close>

definition dep_enc :: "electra_DepositRequest \<Rightarrow> bytes" where
  "dep_enc r = arr_bytes (ed_Pubkey r) @ ed_WithdrawalCredentials r @ le_bytes 8 (ed_Amount r)
     @ arr_bytes (ed_Signature r) @ le_bytes 8 (ed_Index r)"

definition wdr_enc :: "electra_WithdrawalRequest \<Rightarrow> bytes" where
  "wdr_enc r = arr_bytes (ew_SourceAddress r) @ arr_bytes (ew_ValidatorPubkey r)
     @ le_bytes 8 (ew_Amount r)"

definition con_enc :: "electra_ConsolidationRequest \<Rightarrow> bytes" where
  "con_enc r = arr_bytes (ec_SourceAddress r) @ arr_bytes (ec_SourcePubkey r)
     @ arr_bytes (ec_TargetPubkey r)"

definition bdep_enc :: "gloasBuilderDepositRequest \<Rightarrow> bytes" where
  "bdep_enc r = arr_bytes (bd_Pubkey r) @ arr_bytes (bd_WithdrawalCredentials r)
     @ le_bytes 8 (bd_Amount r) @ arr_bytes (bd_Signature r)"

definition bexit_enc :: "gloasBuilderExitRequest \<Rightarrow> bytes" where
  "bexit_enc r = arr_bytes (be_SourceAddress r) @ arr_bytes (be_Pubkey r)"

abbreviation dep_valid :: "electra_DepositRequest \<Rightarrow> bool" where
  "dep_valid r \<equiv> length (ed_WithdrawalCredentials r) = 32"

text \<open>
  The contract of one entry codec: entries have a fixed positive width, decoding inverts
  encoding, and every string of the right width is the encoding of a valid entry.
\<close>

locale entry_codec =
  fixes size :: nat
    and enc :: "'a \<Rightarrow> bytes"
    and dec :: "bytes \<Rightarrow> error + 'a"
    and valid :: "'a \<Rightarrow> bool"
  assumes size_pos: "0 < size"
    and enc_length: "valid x \<Longrightarrow> length (enc x) = size"
    and dec_enc: "valid x \<Longrightarrow> dec (enc x) = Inr x"
    and enc_dec: "length d = size \<Longrightarrow> \<exists>x. dec d = Inr x \<and> valid x \<and> enc x = d"
begin

lemma dec_chunks:
  assumes "size dvd length p"
  shows "\<exists>xs. mapE dec (chunks size p) = Inr xs \<and> list_all valid xs \<and> map enc xs = chunks size p"
proof -
  have "\<forall>c \<in> set (chunks size p). length c = size" using chunks_width [OF assms] by blast
  then show ?thesis
  proof (induction "chunks size p" arbitrary: p)
    case (Cons c cs)
    then obtain x where x: "dec c = Inr x" "valid x" "enc x = c" using enc_dec [of c] by (metis list.set_intros(1))
    have "\<exists>xs. mapE dec cs = Inr xs \<and> list_all valid xs \<and> map enc xs = cs"
    proof -
      have "chunks size (concat cs) = cs" using Cons.prems Cons.hyps(2) size_pos
        by (intro chunks_concat) (metis list.set_intros(2))+
      then show ?thesis using Cons.hyps(1) [of "concat cs"] Cons.prems Cons.hyps(2)
        by (metis list.set_intros(2))
    qed
    then obtain xs where "mapE dec cs = Inr xs" "list_all valid xs" "map enc xs = cs" by blast
    with x Cons.hyps(2) show ?case by (intro exI [of _ "x # xs"]) (simp flip: Cons.hyps(2))
  qed simp
qed

lemma dec_concat:
  assumes "list_all valid xs"
  shows "mapE dec (chunks size (concat (map enc xs))) = Inr xs"
proof -
  have "\<forall>c \<in> set (map enc xs). length c = size"
    using assms enc_length by (auto simp: list_all_iff)
  then have "chunks size (concat (map enc xs)) = map enc xs" by (rule chunks_concat [OF size_pos])
  moreover have "mapE dec (map enc xs) = Inr xs"
    using assms dec_enc by (induction xs) auto
  ultimately show ?thesis by simp
qed

lemma enc_inj:
  assumes "list_all valid xs" and "list_all valid ys" and "map enc xs = map enc ys"
  shows "xs = ys"
  by (metis assms dec_concat sum.inject(2))

lemma length_concat_enc: "list_all valid xs \<Longrightarrow> length (concat (map enc xs)) = size * length xs"
  using enc_length by (induction xs) auto

end

interpretation dep: entry_codec depositRequestSize dep_enc decodeDepositRequest dep_valid
proof unfold_locales
  fix d :: bytes assume "length d = depositRequestSize"
  then show "\<exists>x. decodeDepositRequest d = Inr x \<and> dep_valid x \<and> dep_enc x = d"
    by (simp add: decodeDepositRequest_def dep_enc_def arr_bytes_def codec_simps)
qed (simp_all add: decodeDepositRequest_def dep_enc_def slice_def arr_bytes_def codec_simps)

interpretation wdr: entry_codec withdrawalRequestSize wdr_enc decodeWithdrawalRequest "\<lambda>_. True"
proof unfold_locales
  fix d :: bytes assume "length d = withdrawalRequestSize"
  then show "\<exists>x. decodeWithdrawalRequest d = Inr x \<and> True \<and> wdr_enc x = d"
    by (simp add: decodeWithdrawalRequest_def wdr_enc_def arr_bytes_def codec_simps)
qed (simp_all add: decodeWithdrawalRequest_def wdr_enc_def slice_def arr_bytes_def codec_simps)

interpretation con: entry_codec consolidationRequestSize con_enc decodeConsolidationRequest "\<lambda>_. True"
proof unfold_locales
  fix d :: bytes assume "length d = consolidationRequestSize"
  then show "\<exists>x. decodeConsolidationRequest d = Inr x \<and> True \<and> con_enc x = d"
    by (simp add: decodeConsolidationRequest_def con_enc_def arr_bytes_def codec_simps)
qed (simp_all add: decodeConsolidationRequest_def con_enc_def slice_def arr_bytes_def codec_simps)

interpretation bdep: entry_codec 184 bdep_enc "\<lambda>d. Inr (decodeBuilderDeposit d)" "\<lambda>_. True"
proof unfold_locales
  fix d :: bytes assume "length d = 184"
  then show "\<exists>x. Inr (decodeBuilderDeposit d) = Inr x \<and> True \<and> bdep_enc x = d"
    by (simp add: decodeBuilderDeposit_def bdep_enc_def arr_bytes_def codec_simps)
qed (simp_all add: decodeBuilderDeposit_def bdep_enc_def slice_def arr_bytes_def codec_simps)

interpretation bexit: entry_codec 68 bexit_enc "\<lambda>d. Inr (decodeBuilderExit d)" "\<lambda>_. True"
proof unfold_locales
  fix d :: bytes assume "length d = 68"
  then show "\<exists>x. Inr (decodeBuilderExit d) = Inr x \<and> True \<and> bexit_enc x = d"
    by (simp add: decodeBuilderExit_def bexit_enc_def arr_bytes_def codec_simps)
qed (simp_all add: decodeBuilderExit_def bexit_enc_def slice_def arr_bytes_def codec_simps)

section \<open>Request sets\<close>

text \<open>A request set without nil entries whose withdrawal credentials have 32 bytes.\<close>

definition wfRequests :: "executionRequests \<Rightarrow> bool" where
  "wfRequests r \<longleftrightarrow> None \<notin> set (Deposits r) \<and> None \<notin> set (Withdrawals r) \<and> None \<notin> set (Consolidations r)
     \<and> None \<notin> set (BuilderDeposits r) \<and> None \<notin> set (BuilderExits r)
     \<and> (\<forall>d. Some d \<in> set (Deposits r) \<longrightarrow> dep_valid d)"

text \<open>The encoded entries of one request type, and the width of such an entry.\<close>

definition grp :: "nat \<Rightarrow> executionRequests \<Rightarrow> bytes list" where
  "grp t r = (if t = 0 then map (\<lambda>x. dep_enc (the x)) (Deposits r)
     else if t = 1 then map (\<lambda>x. wdr_enc (the x)) (Withdrawals r)
     else if t = 2 then map (\<lambda>x. con_enc (the x)) (Consolidations r)
     else if t = 3 then map (\<lambda>x. bdep_enc (the x)) (BuilderDeposits r)
     else if t = 4 then map (\<lambda>x. bexit_enc (the x)) (BuilderExits r) else [])"

definition entry_width :: "nat \<Rightarrow> nat" where
  "entry_width t = (if t = 0 then depositRequestSize else if t = 1 then withdrawalRequestSize
     else if t = 2 then consolidationRequestSize else if t = 3 then 184 else 68)"

definition request_item :: "nat \<Rightarrow> bytes list \<Rightarrow> bytes list" where
  "request_item t es = (if es = [] then [] else [of_nat t # concat es])"

lemma request_item_Nil [simp]: "request_item t [] = []"
  by (simp add: request_item_def)

lemma wfRequests_cases:
  assumes "wfRequests r"
  obtains ds ws cs bds bes where
    "r = \<lparr>Deposits = map Some ds, Withdrawals = map Some ws, Consolidations = map Some cs,
          BuilderDeposits = map Some bds, BuilderExits = map Some bes\<rparr>"
    "list_all dep_valid ds"
proof -
  obtain ds ws cs bds bes where "Deposits r = map Some ds" "Withdrawals r = map Some ws"
      "Consolidations r = map Some cs" "BuilderDeposits r = map Some bds" "BuilderExits r = map Some bes"
    using assms unfolding wfRequests_def by (metis nil_free_map)
  then show thesis using assms by (intro that [of ds ws cs bds bes]) (auto simp: wfRequests_def list_all_iff)
qed

lemma marshalGroup_eq:
  assumes "\<And>i x. P x \<Longrightarrow> entry (i, Some x) = Inr (f x)" and "list_all P xs"
  shows "marshalGroup t entry (map Some xs) = Inr (if xs = [] then [] else [t # concat (map f xs)])"
proof -
  have "mapE entry (enumerate n (map Some xs)) = Inr (map f xs)" for n
    using assms(2) by (induction xs arbitrary: n) (auto simp: assms(1))
  then show ?thesis by (simp add: marshalGroup_def)
qed

lemma marshal_eq:
  assumes "wfRequests r"
  shows "marshalExecutionRequests (Some r) = Inr (Some (concat (map (\<lambda>t. request_item t (grp t r)) [0..<5])))"
proof -
  from assms obtain ds ws cs bds bes where
    r: "r = \<lparr>Deposits = map Some ds, Withdrawals = map Some ws, Consolidations = map Some cs,
          BuilderDeposits = map Some bds, BuilderExits = map Some bes\<rparr>"
    and v: "list_all dep_valid ds" by (rule wfRequests_cases)
  have d: "marshalGroup t marshalDeposit (map Some ds) = Inr (if ds = [] then [] else [t # concat (map dep_enc ds)])" for t
    by (rule marshalGroup_eq [OF _ v])
      (simp add: marshalDeposit_def dep_enc_def encode_eqs arr_bytes_def codec_simps)
  have w: "marshalGroup t marshalWithdrawal (map Some ws) = Inr (if ws = [] then [] else [t # concat (map wdr_enc ws)])" for t
    by (rule marshalGroup_eq [where P = "\<lambda>_. True"])
      (simp_all add: marshalWithdrawal_def wdr_enc_def encode_eqs list_all_iff)
  have c: "marshalGroup t marshalConsolidation (map Some cs) = Inr (if cs = [] then [] else [t # concat (map con_enc cs)])" for t
    by (rule marshalGroup_eq [where P = "\<lambda>_. True"])
      (simp_all add: marshalConsolidation_def con_enc_def encode_eqs list_all_iff)
  have bd: "marshalGroup t marshalBuilderDeposit (map Some bds) = Inr (if bds = [] then [] else [t # concat (map bdep_enc bds)])" for t
    by (rule marshalGroup_eq [where P = "\<lambda>_. True"])
      (simp_all add: marshalBuilderDeposit_def bdep_enc_def list_all_iff)
  have be: "marshalGroup t marshalBuilderExit (map Some bes) = Inr (if bes = [] then [] else [t # concat (map bexit_enc bes)])" for t
    by (rule marshalGroup_eq [where P = "\<lambda>_. True"])
      (simp_all add: marshalBuilderExit_def bexit_enc_def list_all_iff)
  have "[0..<5] = [0, 1, 2, 3, 4 :: nat]" by (simp add: upt_rec)
  then show ?thesis
    by (simp add: marshalExecutionRequests_def r d w c bd be request_item_def grp_def comp_def)
qed

lemma grp_inject:
  assumes "wfRequests r" and "wfRequests r'" and "\<And>t. t < 5 \<Longrightarrow> grp t r = grp t r'"
  shows "r = r'"
proof -
  from assms(1) obtain ds ws cs bds bes where
    r: "r = \<lparr>Deposits = map Some ds, Withdrawals = map Some ws, Consolidations = map Some cs,
          BuilderDeposits = map Some bds, BuilderExits = map Some bes\<rparr>"
    and v: "list_all dep_valid ds" by (rule wfRequests_cases)
  from assms(2) obtain ds' ws' cs' bds' bes' where
    r': "r' = \<lparr>Deposits = map Some ds', Withdrawals = map Some ws', Consolidations = map Some cs',
          BuilderDeposits = map Some bds', BuilderExits = map Some bes'\<rparr>"
    and v': "list_all dep_valid ds'" by (rule wfRequests_cases)
  have "map dep_enc ds = map dep_enc ds'" using assms(3) [of 0] by (simp add: r r' grp_def comp_def)
  then have "ds = ds'" by (rule dep.enc_inj [OF v v'])
  moreover have "map wdr_enc ws = map wdr_enc ws'" using assms(3) [of 1] by (simp add: r r' grp_def comp_def)
  then have "ws = ws'" by (rule wdr.enc_inj [rotated 2]) (simp_all add: list_all_iff)
  moreover have "map con_enc cs = map con_enc cs'" using assms(3) [of 2] by (simp add: r r' grp_def comp_def)
  then have "cs = cs'" by (rule con.enc_inj [rotated 2]) (simp_all add: list_all_iff)
  moreover have "map bdep_enc bds = map bdep_enc bds'" using assms(3) [of 3] by (simp add: r r' grp_def comp_def)
  then have "bds = bds'" by (rule bdep.enc_inj [rotated 2]) (simp_all add: list_all_iff)
  moreover have "map bexit_enc bes = map bexit_enc bes'" using assms(3) [of 4] by (simp add: r r' grp_def comp_def)
  then have "bes = bes'" by (rule bexit.enc_inj [rotated 2]) (simp_all add: list_all_iff)
  ultimately show ?thesis by (simp add: r r')
qed


text \<open>The parser acts on one group at a time.\<close>

definition builder_ok :: "nat \<Rightarrow> nat \<Rightarrow> bool" where
  "builder_ok t n \<longleftrightarrow> (t = 3 \<longrightarrow> n \<le> 64) \<and> (t = 4 \<longrightarrow> n \<le> 16)"

lemma type_cases:
  assumes "t < 5"
  obtains "t = 0" | "t = 1" | "t = 2" | "t = 3" | "t = (4 :: nat)"
  using assms by linarith

lemma wf_Deposits: "wfRequests r \<Longrightarrow> list_all dep_valid xs \<Longrightarrow>
    wfRequests (r\<lparr>Deposits := Deposits r @ map Some xs\<rparr>)"
  by (auto simp: wfRequests_def list_all_iff)

lemma parsePayload_ok:
  assumes wf: "wfRequests r" and t: "t < 5" and w: "entry_width t dvd length p"
    and b: "builder_ok t (length p div entry_width t)"
  shows "\<exists>r'. parsePayload (of_nat t) p r = Inr r' \<and> wfRequests r'
     \<and> (\<forall>s. grp s r' = (if s = t then grp t r @ chunks (entry_width t) p else grp s r))"
  using t
proof (cases rule: type_cases)
  case 1
  then obtain xs where "mapE decodeDepositRequest (chunks depositRequestSize p) = Inr xs"
      "list_all dep_valid xs" "map dep_enc xs = chunks depositRequestSize p"
    using dep.dec_chunks [of p] w by (auto simp: entry_width_def)
  with 1 w wf show ?thesis
    by (auto simp: parsePayload_def entry_width_def grp_def comp_def wf_Deposits dvd_eq_mod_eq_0)
next
  case 2
  then obtain xs where "mapE decodeWithdrawalRequest (chunks withdrawalRequestSize p) = Inr xs"
      "map wdr_enc xs = chunks withdrawalRequestSize p"
    using wdr.dec_chunks [of p] w by (auto simp: entry_width_def)
  with 2 w wf show ?thesis
    by (auto simp: parsePayload_def entry_width_def grp_def comp_def wfRequests_def dvd_eq_mod_eq_0)
next
  case 3
  then obtain xs where "mapE decodeConsolidationRequest (chunks consolidationRequestSize p) = Inr xs"
      "map con_enc xs = chunks consolidationRequestSize p"
    using con.dec_chunks [of p] w by (auto simp: entry_width_def)
  with 3 w wf show ?thesis
    by (auto simp: parsePayload_def entry_width_def grp_def comp_def wfRequests_def dvd_eq_mod_eq_0)
next
  case 4
  then have "map bdep_enc (map decodeBuilderDeposit (chunks 184 p)) = chunks 184 p"
    using bdep.dec_chunks [of p] w by (auto simp: entry_width_def)
  with 4 w wf b show ?thesis
    by (auto simp: parsePayload_def entry_width_def grp_def comp_def wfRequests_def dvd_eq_mod_eq_0 builder_ok_def)
next
  case 5
  then have "map bexit_enc (map decodeBuilderExit (chunks 68 p)) = chunks 68 p"
    using bexit.dec_chunks [of p] w by (auto simp: entry_width_def)
  with 5 w wf b show ?thesis
    by (auto simp: parsePayload_def entry_width_def grp_def comp_def wfRequests_def dvd_eq_mod_eq_0 builder_ok_def)
qed

lemma parsePayload_dvd:
  assumes "t < 5" and "parsePayload (of_nat t) p r = Inr r'"
  shows "entry_width t dvd length p \<and> builder_ok t (length p div entry_width t)"
  using assms(1)
  by (cases rule: type_cases)
    (use assms(2) in \<open>auto simp: parsePayload_def entry_width_def dvd_eq_mod_eq_0 builder_ok_def err_simps\<close>)

lemma parsePayload_grp:
  assumes "wfRequests r" and "t < 5" and "parsePayload (of_nat t) p r = Inr r'"
  shows "wfRequests r' \<and> entry_width t dvd length p \<and> builder_ok t (length p div entry_width t)
     \<and> (\<forall>s. grp s r' = (if s = t then grp t r @ chunks (entry_width t) p else grp s r))"
  using parsePayload_ok [OF assms(1,2)] parsePayload_dvd [OF assms(2,3)] assms(3) by fastforce

lemma parseItems_ConsD:
  assumes "parseItems i prev r (q # rs) = Inr r'"
  shows "\<exists>t r1. hd q = of_nat t \<and> 1 < length q \<and> t < 5 \<and> prev < int t
     \<and> parsePayload (of_nat t) (tl q) r = Inr r1 \<and> parseItems (Suc i) (int t) r1 rs = Inr r'"
proof -
  from assms have "1 < length q" and le: "\<not> uint (hd q) > 4" and "prev < uint (hd q)"
    and "\<exists>r1. parsePayload (hd q) (tl q) r = Inr r1 \<and> parseItems (Suc i) (uint (hd q)) r1 rs = Inr r'"
    by (simp_all add: Let_def err_simps split: if_splits)
  moreover have "unat (hd q) < 5" using le unat_eq_nat_uint [of "hd q"] by linarith
  ultimately show ?thesis by (intro exI [of _ "unat (hd q)"]) simp
qed

lemma parseItems_inv:
  assumes "parseItems i prev r rs = Inr r'" and "wfRequests r" and "- 1 \<le> prev"
    and "\<forall>s. prev < int s \<longrightarrow> grp s r = []"
    and "\<forall>s. builder_ok s (length (grp s r))"
  shows "wfRequests r' \<and> (\<forall>s. int s \<le> prev \<longrightarrow> grp s r' = grp s r)
     \<and> (\<forall>s. builder_ok s (length (grp s r')))
     \<and> rs = concat (map (\<lambda>t. request_item t (grp t r')) [nat (prev + 1)..<5])"
  using assms
proof (induction rs arbitrary: i prev r)
  case Nil
  then show ?case by (auto simp: concat_eq_Nil_conv)
next
  case (Cons q rs)
  from parseItems_ConsD [OF Cons.prems(1)] obtain t r1 where hd: "hd q = of_nat t"
      and q: "1 < length q" and t5: "t < 5" and pt: "prev < int t"
      and r1: "parsePayload (of_nat t) (tl q) r = Inr r1"
      and rest: "parseItems (Suc i) (int t) r1 rs = Inr r'"
    by auto
  have pos: "0 < entry_width t" by (simp add: entry_width_def)
  from parsePayload_grp [OF Cons.prems(2) t5 r1]
  have wf1: "wfRequests r1" and dv: "entry_width t dvd length (tl q)"
    and bo: "builder_ok t (length (tl q) div entry_width t)"
    and g: "\<And>s. grp s r1 = (if s = t then chunks (entry_width t) (tl q) else grp s r)"
    using Cons.prems(4) pt by auto
  have bok: "\<forall>s. builder_ok s (length (grp s r1))"
    using Cons.prems(5) bo length_chunks [OF pos dv] by (simp add: g)
  have em: "\<forall>s. int t < int s \<longrightarrow> grp s r1 = []" using Cons.prems(4) pt by (simp add: g)
  have IH: "wfRequests r'" "\<And>s. s \<le> t \<Longrightarrow> grp s r' = grp s r1" "\<forall>s. builder_ok s (length (grp s r'))"
      "rs = concat (map (\<lambda>t. request_item t (grp t r')) [Suc t..<5])"
    using Cons.IH [OF rest wf1 _ em bok] by (auto simp: nat_add_distrib)
  have "tl q \<noteq> []" using q by (cases q) auto
  then have "chunks (entry_width t) (tl q) \<noteq> []" using pos by (subst chunks.simps) simp
  then have it: "request_item t (grp t r') = [q]"
    using IH(2) [of t] q hd by (cases q) (auto simp: request_item_def g concat_chunks [OF pos])
  have "[nat (prev + 1)..<5] = [nat (prev + 1)..<t] @ t # [Suc t..<5]"
    using pt t5 upt_split [of "nat (prev + 1)" t 5] upt_conv_Cons [OF t5] by simp
  moreover have "concat (map (\<lambda>t. request_item t (grp t r')) [nat (prev + 1)..<t]) = []"
    using IH(2) Cons.prems(4) by (auto simp: concat_eq_Nil_conv g)
  ultimately have "q # rs = concat (map (\<lambda>t. request_item t (grp t r')) [nat (prev + 1)..<5])"
    using IH(4) it by simp
  moreover have "grp s r' = grp s r" if "int s \<le> prev" for s
    using IH(2) [of s] that pt by (auto simp: g)
  ultimately show ?case using IH(1,3) by blast
qed

lemma parseItems_ok:
  assumes "wfRequests r" and "\<forall>t. builder_ok t (length (grp t r))"
    and "wfRequests acc" and "k \<le> 5" and "prev < int k"
    and "\<forall>s < k. grp s acc = grp s r" and "\<forall>s \<ge> k. grp s acc = []"
    and "\<forall>t. list_all (\<lambda>e. length e = entry_width t) (grp t r)"
  shows "\<exists>r'. parseItems i prev acc (concat (map (\<lambda>t. request_item t (grp t r)) [k..<5])) = Inr r'
     \<and> wfRequests r' \<and> (\<forall>s < 5. grp s r' = grp s r)"
  using assms(3-7)
proof (induction "5 - k" arbitrary: k acc prev i)
  case 0
  then show ?case by auto
next
  case (Suc d)
  then have k: "k < 5" by simp
  have up: "[k..<5] = k # [Suc k..<5]" using k by (rule upt_conv_Cons)
  let ?es = "grp k r"
  let ?rest = "concat (map (\<lambda>t. request_item t (grp t r)) [Suc k..<5])"
  have pos: "0 < entry_width k" by (simp add: entry_width_def)
  have w: "\<forall>c \<in> set ?es. length c = entry_width k" using assms(8) by (auto simp: list_all_iff)
  have ch: "chunks (entry_width k) (concat ?es) = ?es" by (rule chunks_concat [OF pos w])
  have len: "length (concat ?es) = entry_width k * length ?es"
    by (rule length_concat_const [OF w])
  show ?case
  proof (cases "?es = []")
    case True
    have "\<forall>s < Suc k. grp s acc = grp s r" using Suc.prems True by (auto simp: less_Suc_eq)
    then show ?thesis
      using Suc.hyps(1) [of "Suc k" acc prev i] Suc.hyps(2) Suc.prems k by (simp add: up True)
  next
    case False
    obtain a where a: "parsePayload (of_nat k) (concat ?es) acc = Inr a" "wfRequests a"
        "\<And>s. grp s a = (if s = k then ?es else grp s acc)"
      using parsePayload_ok [OF Suc.prems(1) k, of "concat ?es"] assms(2) Suc.prems(5) len ch pos by auto
    have u: "uint (of_nat k :: byte) = int k" using k by (simp add: unsigned_of_nat take_bit_nat_eq_self)
    have l1: "concat ?es \<noteq> []" using False len pos by (metis length_0_conv mult_is_0 not_gr0)
    have "parseItems i prev acc (((of_nat k :: byte) # concat ?es) # ?rest) = parseItems (Suc i) (int k) a ?rest"
      using l1 k Suc.prems(3) by (simp add: a u del: concat_eq_Nil_conv)
    moreover have "\<forall>s < Suc k. grp s a = grp s r" "\<forall>s \<ge> Suc k. grp s a = []"
      using Suc.prems by (auto simp: a less_Suc_eq)
    ultimately show ?thesis
      using Suc.hyps(1) [of "Suc k" a "int k" "Suc i"] Suc.hyps(2) k a(2) by (simp add: up request_item_def False)
  qed
qed

lemma grp_empty [simp]: "grp t emptyRequests = []"
  by (simp add: grp_def emptyRequests_def)

lemma wf_empty [simp]: "wfRequests emptyRequests"
  by (simp add: wfRequests_def emptyRequests_def)

lemma builder_ok_0 [simp]: "builder_ok t 0"
  by (simp add: builder_ok_def)

lemma grp_width:
  assumes "wfRequests r"
  shows "list_all (\<lambda>e. length e = entry_width t) (grp t r)"
proof -
  from assms obtain ds ws cs bds bes where
    r: "r = \<lparr>Deposits = map Some ds, Withdrawals = map Some ws, Consolidations = map Some cs,
          BuilderDeposits = map Some bds, BuilderExits = map Some bes\<rparr>"
    and v: "list_all dep_valid ds" by (rule wfRequests_cases)
  show ?thesis using v
    by (auto simp add: r grp_def entry_width_def list_all_iff dep.enc_length wdr.enc_length con.enc_length
        bdep.enc_length bexit.enc_length)
qed

text \<open>The limits the parser enforces on a request set.\<close>

definition withinLimits :: "executionRequests \<Rightarrow> bool" where
  "withinLimits r \<longleftrightarrow> length (Deposits r) \<le> maxDepositRequestsPerPayload
     \<and> length (Withdrawals r) \<le> maxWithdrawalRequestsPerPayload
     \<and> length (Consolidations r) \<le> maxConsolidationRequestsPerPayload
     \<and> length (BuilderDeposits r) \<le> 64 \<and> length (BuilderExits r) \<le> 16"

lemma parse_marshal:
  assumes wf: "wfRequests r" and lim: "withinLimits r"
  shows "\<exists>bs. marshalExecutionRequests (Some r) = Inr (Some bs) \<and> parseExecutionRequests (Some bs) = Inr (Some r)"
proof -
  let ?bs = "concat (map (\<lambda>t. request_item t (grp t r)) [0..<5])"
  have bo: "\<forall>t. builder_ok t (length (grp t r))" using lim by (simp add: builder_ok_def grp_def withinLimits_def)
  obtain r' where p: "parseItems 0 (- 1) emptyRequests ?bs = Inr r'" and "wfRequests r'" "\<forall>s < 5. grp s r' = grp s r"
    using parseItems_ok [OF wf bo wf_empty, of 0 "- 1" 0] grp_width [OF wf] by auto
  then have "r' = r" using grp_inject wf by blast
  with p lim have "parseExecutionRequests (Some ?bs) = Inr (Some r)"
    by (simp add: parseExecutionRequests_def withinLimits_def)
  with marshal_eq [OF wf] show ?thesis by blast
qed

lemma parse_ok:
  assumes "parseExecutionRequests bs = Inr (Some r)"
  shows "wfRequests r \<and> withinLimits r \<and> marshalExecutionRequests (Some r) = Inr bs"
proof -
  from assms obtain rs where bs: "bs = Some rs" and p: "parseItems 0 (- 1) emptyRequests rs = Inr r"
      and l: "length (Deposits r) \<le> maxDepositRequestsPerPayload"
         "length (Withdrawals r) \<le> maxWithdrawalRequestsPerPayload"
         "length (Consolidations r) \<le> maxConsolidationRequestsPerPayload"
    by (auto simp: parseExecutionRequests_def err_simps split: option.splits if_splits)
  from parseItems_inv [OF p] have wf: "wfRequests r" and bo: "\<forall>s. builder_ok s (length (grp s r))"
      and rs: "rs = concat (map (\<lambda>t. request_item t (grp t r)) [0..<5])"
    by auto
  have "length (BuilderDeposits r) \<le> 64 \<and> length (BuilderExits r) \<le> 16"
    using bo [rule_format, of 3] bo [rule_format, of 4] by (simp add: builder_ok_def grp_def)
  with l wf show ?thesis by (simp add: withinLimits_def marshal_eq bs rs)
qed

lemma parse_None [simp]: "parseExecutionRequests None = Inr None"
  by (simp add: parseExecutionRequests_def)

lemma parse_Some_None [simp]: "parseExecutionRequests (Some bs) \<noteq> Inr None"
  by (auto simp: parseExecutionRequests_def err_simps split: if_splits)

lemma marshal_None [simp]: "marshalExecutionRequests None = Inr None"
  by (simp add: marshalExecutionRequests_def)

lemma parse_marshal_id: "parseExecutionRequests bs = Inr r \<Longrightarrow> marshalExecutionRequests r = Inr bs"
  by (cases bs; cases r) (auto dest: parse_ok)

lemma equalExecutionRequestBytes_iff [simp]: "equalExecutionRequestBytes l r \<longleftrightarrow> l = r"
  by (auto simp: equalExecutionRequestBytes_def list.rel_eq split: option.splits)

lemma mapE_enumerate_Inl:
  assumes "\<And>i x. x \<in> set xs \<Longrightarrow> (\<exists>b. entry (i, x) = Inr b) \<longleftrightarrow> P x"
  shows "(\<exists>es. mapE entry (enumerate n xs) = Inr es) \<longleftrightarrow> (\<forall>x \<in> set xs. P x)"
  using assms
proof (induction xs arbitrary: n)
  case (Cons x xs)
  then have "(\<exists>b. entry (n, x) = Inr b) \<longleftrightarrow> P x" "(\<exists>es. mapE entry (enumerate (Suc n) xs) = Inr es) \<longleftrightarrow> (\<forall>x \<in> set xs. P x)"
    by auto
  then show ?case by (auto simp: err_simps)
qed simp

lemma marshalGroup_Inr_iff:
  assumes "\<And>i x. (\<exists>b. entry (i, x) = Inr b) \<longleftrightarrow> P x"
  shows "(\<exists>es. marshalGroup t entry xs = Inr es) \<longleftrightarrow> (\<forall>x \<in> set xs. P x)"
proof -
  have "(\<exists>es. mapE entry (enumerate 0 xs) = Inr es) \<longleftrightarrow> (\<forall>x \<in> set xs. P x)"
    by (rule mapE_enumerate_Inl) (rule assms)
  then show ?thesis by (auto simp: marshalGroup_def err_simps)
qed

lemma marshal_Inr_iff: "(\<exists>bs. marshalExecutionRequests (Some r) = Inr bs) \<longleftrightarrow> wfRequests r"
proof -
  have 1: "(\<exists>es. marshalGroup t marshalDeposit (Deposits r) = Inr es)
      \<longleftrightarrow> (\<forall>x \<in> set (Deposits r). \<exists>d. x = Some d \<and> dep_valid d)" for t
    by (rule marshalGroup_Inr_iff) (auto simp: marshalDeposit_def split: option.splits)
  have 2: "(\<exists>es. marshalGroup t marshalWithdrawal (Withdrawals r) = Inr es) \<longleftrightarrow> (\<forall>x \<in> set (Withdrawals r). x \<noteq> None)" for t
    by (rule marshalGroup_Inr_iff) (auto simp: marshalWithdrawal_def split: option.splits)
  have 3: "(\<exists>es. marshalGroup t marshalConsolidation (Consolidations r) = Inr es) \<longleftrightarrow> (\<forall>x \<in> set (Consolidations r). x \<noteq> None)" for t
    by (rule marshalGroup_Inr_iff) (auto simp: marshalConsolidation_def split: option.splits)
  have 4: "(\<exists>es. marshalGroup t marshalBuilderDeposit (BuilderDeposits r) = Inr es) \<longleftrightarrow> (\<forall>x \<in> set (BuilderDeposits r). x \<noteq> None)" for t
    by (rule marshalGroup_Inr_iff) (auto simp: marshalBuilderDeposit_def split: option.splits)
  have 5: "(\<exists>es. marshalGroup t marshalBuilderExit (BuilderExits r) = Inr es) \<longleftrightarrow> (\<forall>x \<in> set (BuilderExits r). x \<noteq> None)" for t
    by (rule marshalGroup_Inr_iff) (auto simp: marshalBuilderExit_def split: option.splits)
  have all: "(\<exists>bs. marshalExecutionRequests (Some r) = Inr bs) \<longleftrightarrow>
      (\<exists>es. marshalGroup 0 marshalDeposit (Deposits r) = Inr es) \<and>
      (\<exists>es. marshalGroup 1 marshalWithdrawal (Withdrawals r) = Inr es) \<and>
      (\<exists>es. marshalGroup 2 marshalConsolidation (Consolidations r) = Inr es) \<and>
      (\<exists>es. marshalGroup 3 marshalBuilderDeposit (BuilderDeposits r) = Inr es) \<and>
      (\<exists>es. marshalGroup 4 marshalBuilderExit (BuilderExits r) = Inr es)"
    by (simp add: marshalExecutionRequests_def err_simps) blast
  have nn: "(\<forall>x \<in> set xs. x \<noteq> None) \<longleftrightarrow> None \<notin> set xs" for xs :: "'b option list"
    by metis
  have dv: "(\<forall>x \<in> set xs. \<exists>d. x = Some d \<and> dep_valid d)
      \<longleftrightarrow> None \<notin> set xs \<and> (\<forall>d. Some d \<in> set xs \<longrightarrow> dep_valid d)" for xs
    by (metis not_None_eq option.inject)
  show ?thesis unfolding all 1 2 3 4 5 nn dv wfRequests_def by blast
qed

section \<open>Properties\<close>

text \<open>C18: decoding the bytes of a deposit, withdrawal or consolidation request gives back its
  fields; the decoders reject exactly the byte strings of another length.\<close>

theorem entry_codec_roundtrip:
  "decodeDepositRequest (encodeExecutionDepositRequest d) =
     Inr \<lparr>ed_Pubkey = xd_Pubkey d, ed_WithdrawalCredentials = arr_bytes (xd_WithdrawalCredentials d),
          ed_Amount = xd_Amount d, ed_Signature = xd_Signature d, ed_Index = xd_Index d\<rparr>
   \<and> decodeWithdrawalRequest (encodeExecutionWithdrawalRequest w) =
     Inr \<lparr>ew_SourceAddress = xw_SourceAddress w, ew_ValidatorPubkey = xw_ValidatorPubkey w, ew_Amount = xw_Amount w\<rparr>
   \<and> decodeConsolidationRequest (encodeExecutionConsolidationRequest c) =
     Inr \<lparr>ec_SourceAddress = xc_SourceAddress c, ec_SourcePubkey = xc_SourcePubkey c, ec_TargetPubkey = xc_TargetPubkey c\<rparr>
   \<and> (\<exists>e. decodeDepositRequest data = Inl e) = (length data \<noteq> depositRequestSize)
   \<and> (\<exists>e. decodeWithdrawalRequest data = Inl e) = (length data \<noteq> withdrawalRequestSize)
   \<and> (\<exists>e. decodeConsolidationRequest data = Inl e) = (length data \<noteq> consolidationRequestSize)"
proof -
  let ?d = "\<lparr>ed_Pubkey = xd_Pubkey d, ed_WithdrawalCredentials = arr_bytes (xd_WithdrawalCredentials d),
          ed_Amount = xd_Amount d, ed_Signature = xd_Signature d, ed_Index = xd_Index d\<rparr>"
  let ?w = "\<lparr>ew_SourceAddress = xw_SourceAddress w, ew_ValidatorPubkey = xw_ValidatorPubkey w, ew_Amount = xw_Amount w\<rparr>"
  let ?c = "\<lparr>ec_SourceAddress = xc_SourceAddress c, ec_SourcePubkey = xc_SourcePubkey c, ec_TargetPubkey = xc_TargetPubkey c\<rparr>"
  have "encodeExecutionDepositRequest d = dep_enc ?d" "dep_valid ?d"
    "encodeExecutionWithdrawalRequest w = wdr_enc ?w" "encodeExecutionConsolidationRequest c = con_enc ?c"
    by (simp_all add: encode_eqs dep_enc_def wdr_enc_def con_enc_def)
  then show ?thesis
    using dep.dec_enc [of ?d] wdr.dec_enc [of ?w] con.dec_enc [of ?c]
    by (simp add: decodeDepositRequest_def [of data] decodeWithdrawalRequest_def [of data]
        decodeConsolidationRequest_def [of data])
qed

text \<open>C17: parsing the marshalled bytes of a well-formed request set within the protocol limits
  succeeds and gives the same request set.\<close>

theorem parse_of_marshal:
  assumes "wfRequests r" and "withinLimits r"
  shows "\<exists>bs. marshalExecutionRequests (Some r) = Inr (Some bs) \<and> parseExecutionRequests (Some bs) = Inr (Some r)"
  using assms by (rule parse_marshal)

theorem parse_of_marshal_witness:
  "wfRequests (emptyRequests\<lparr>Withdrawals := [Some \<lparr>ew_SourceAddress = 7, ew_ValidatorPubkey = 9, ew_Amount = 5\<rparr>]\<rparr>)
   \<and> (\<exists>bs. marshalExecutionRequests (Some (emptyRequests\<lparr>Withdrawals := [Some \<lparr>ew_SourceAddress = 7, ew_ValidatorPubkey = 9, ew_Amount = 5\<rparr>]\<rparr>)) = Inr (Some bs)
        \<and> parseExecutionRequests (Some bs) = Inr (Some (emptyRequests\<lparr>Withdrawals := [Some \<lparr>ew_SourceAddress = 7, ew_ValidatorPubkey = 9, ew_Amount = 5\<rparr>]\<rparr>)))"
proof -
  let ?r = "emptyRequests\<lparr>Withdrawals := [Some \<lparr>ew_SourceAddress = 7, ew_ValidatorPubkey = 9, ew_Amount = 5\<rparr>]\<rparr>"
  have "wfRequests ?r" "withinLimits ?r" by (simp_all add: wfRequests_def withinLimits_def emptyRequests_def)
  then show ?thesis using parse_of_marshal [of ?r] by blast
qed

text \<open>C16: whatever byte list the parser accepts, marshalling the parsed requests gives exactly
  that byte list back, so the accepted encoding is unique.\<close>

theorem marshal_of_parse:
  assumes "parseExecutionRequests bs = Inr r"
  shows "marshalExecutionRequests r = Inr bs"
  using assms by (rule parse_marshal_id)

theorem marshal_of_parse_witness:
  "\<exists>r. parseExecutionRequests (Some [1 # replicate 76 3]) = Inr (Some r)
     \<and> marshalExecutionRequests (Some r) = Inr (Some [1 # replicate 76 3])"
proof -
  have "chunks 76 (replicate 76 (3 :: byte)) = [replicate 76 3]"
    by (simp add: chunks.simps)
  then obtain r where r: "parseExecutionRequests (Some [1 # replicate 76 3]) = Inr (Some r)"
    by (simp add: parseExecutionRequests_def parsePayload_def decodeWithdrawalRequest_def emptyRequests_def)
  then show ?thesis using marshal_of_parse [OF r] by blast
qed

end
