(* ===== verification/Chain_Types.thy ===== *)
theory Chain_Types
  imports Request_Codec
begin

text \<open>
  The data the components share. Execution blocks and transactions are values of go-ethereum's
  \<open>core/types\<close>; the model keeps the fields this repository reads. The hash of a block is computed
  by go-ethereum from its header, so a block carries it and \<open>WithSeal\<close> takes the header hash
  function as an argument. The key-value database is a map from byte strings.
\<close>

record BlobTxSidecar =
  sc_Version :: byte
  sc_Blobs :: "bytes list"
  sc_Commitments :: "pubkey list"
  sc_Proofs :: "pubkey list"

text \<open>The retained blobs of a transaction with both proof forms (\<open>src/blob_store.go\<close>).\<close>

record blobBundle =
  bb_Format :: byte
  bb_Blobs :: "bytes list"
  bb_Commitments :: "pubkey list"
  bb_BlobProofs :: "pubkey list"
  bb_CellProofs :: "pubkey list"

record tx =
  tx_Hash :: hash
  tx_Nonce :: u64
  tx_GasFeeCap :: nat
  tx_GasTipCap :: nat
  tx_Cost :: nat
  tx_BlobHashes :: "hash list"
  tx_Sidecar :: "BlobTxSidecar option"

record Withdrawal =
  wd_Index :: u64
  wd_Validator :: u64
  wd_Address :: address
  wd_Amount :: u64

record header =
  h_ParentHash :: hash
  h_Coinbase :: address
  h_Root :: hash
  h_ReceiptHash :: hash
  h_Bloom :: bytes
  h_Number :: u64
  h_GasLimit :: u64
  h_GasUsed :: u64
  h_Time :: u64
  h_Extra :: bytes
  h_MixDigest :: hash
  h_Difficulty :: nat
  h_BaseFee :: "nat option"
  h_BlobGasUsed :: "u64 option"
  h_ExcessBlobGas :: "u64 option"
  h_ParentBeaconRoot :: "hash option"
  h_RequestsHash :: "hash option"
  h_BlockAccessListHash :: "hash option"
  h_SlotNumber :: "u64 option"

definition zeroHeader :: header where
  "zeroHeader = \<lparr>h_ParentHash = 0, h_Coinbase = 0, h_Root = 0, h_ReceiptHash = 0, h_Bloom = replicate 256 0, h_Number = 0, h_GasLimit = 0, h_GasUsed = 0,
     h_Time = 0, h_Extra = [], h_MixDigest = 0, h_Difficulty = 0, h_BaseFee = None, h_BlobGasUsed = None,
     h_ExcessBlobGas = None, h_ParentBeaconRoot = None, h_RequestsHash = None,
     h_BlockAccessListHash = None, h_SlotNumber = None\<rparr>"

text \<open>
  An account of a block access list (go-ethereum's \<open>core/types/bal\<close>): storage reads, and the
  changes with the index of the transaction that made them.
\<close>

record accountAccess =
  aa_Address :: address
  aa_StorageReads :: "hash list"
  aa_StorageChanges :: "(hash \<times> (nat \<times> hash) list) list"
  aa_BalanceChanges :: "(nat \<times> hash) list"
  aa_NonceChanges :: "(nat \<times> u64) list"
  aa_CodeChanges :: "(nat \<times> bytes) list"

record log =
  lg_Address :: address
  lg_Topics :: "hash list"
  lg_Data :: bytes

record receipt =
  rc_TxHash :: hash
  rc_GasUsed :: u64
  rc_BlobGasUsed :: u64
  rc_Logs :: "log list"
  rc_BlockHash :: hash
  rc_BlockNumber :: u64

record block =
  b_Hash :: hash
  b_Header :: header
  b_Transactions :: "tx list"
  b_Withdrawals :: "Withdrawal list"
  b_AccessList :: "accountAccess list option"

abbreviation b_ParentHash :: "block \<Rightarrow> hash" where "b_ParentHash b \<equiv> h_ParentHash (b_Header b)"
abbreviation b_Number :: "block \<Rightarrow> u64" where "b_Number b \<equiv> h_Number (b_Header b)"
abbreviation b_Time :: "block \<Rightarrow> u64" where "b_Time b \<equiv> h_Time (b_Header b)"
abbreviation b_Root :: "block \<Rightarrow> hash" where "b_Root b \<equiv> h_Root (b_Header b)"

text \<open>\<open>block.WithSeal(header)\<close>: the same body under another header.\<close>

definition WithSeal :: "(header \<Rightarrow> hash) \<Rightarrow> block \<Rightarrow> header \<Rightarrow> block" where
  "WithSeal headerHash b h = b\<lparr>b_Header := h, b_Hash := headerHash h\<rparr>"

end
