(* ===== verification/Request_Queue.thy ===== *)
theory Request_Queue
  imports Chain_Types "HOL-Library.AList"
begin

text \<open>
  The persistent queue of synthetic execution requests (\<open>src/execution_requests.go\<close>): enqueueing,
  the split of the queue when a block is built (\<open>prepareExecutionRequestBlock\<close>), the validation of
  queues and records, and the reconciliation of the queue when the canonical chain is switched
  (\<open>reconcileExecutionRequestQueue\<close>).

  \<open>types.CalcRequestsHash\<close> and the header hash are go-ethereum's: they are arguments
  \<open>calcRequestsHash\<close> and \<open>headerHash\<close>. Reading a stored record is the argument \<open>loadRecord\<close>.
  Go maps that are iterated are association lists with distinct keys.
\<close>

section \<open>Data\<close>

record queuedExecutionRequest =
  q_ID :: u64
  q_Data :: bytes

record executionRequestControlSet =
  cs_Deposits :: "queuedExecutionRequest list"
  cs_Withdrawals :: "queuedExecutionRequest list"
  cs_Consolidations :: "queuedExecutionRequest list"

text \<open>The queue embeds a control set, as the Go struct does.\<close>

record executionRequestQueue = executionRequestControlSet +
  rq_Format :: int
  rq_NextID :: u64

record storedExecutionRequestRecord =
  er_Format :: int
  er_NativeRequests :: "bytes list option"
  er_Requests :: "bytes list option"
  er_Controls :: executionRequestControlSet

record preparedExecutionRequestBlock =
  pb_Block :: block
  pb_Requests :: "executionRequests option"
  pb_Record :: storedExecutionRequestRecord
  pb_Remaining :: executionRequestQueue
  pb_Controlled :: bool

abbreviation "executionRequestQueueFormat \<equiv> (1 :: int)"
abbreviation "executionRequestRecordFormat \<equiv> (1 :: int)"

definition ErrDepositRequestQueueFull :: error where
  "ErrDepositRequestQueueFull = Err ''deposit execution request queue already has 8192 entries''"

definition ErrWithdrawalRequestQueueFull :: error where
  "ErrWithdrawalRequestQueueFull = Err ''withdrawal execution request queue already has 16 entries''"

definition ErrConsolidationRequestQueueFull :: error where
  "ErrConsolidationRequestQueueFull = Err ''consolidation execution request queue already has 2 entries''"

definition ErrExecutionRequestIDOverflow :: error where
  "ErrExecutionRequestIDOverflow = Err ''execution request ID overflow''"

definition newExecutionRequestQueue :: executionRequestQueue where
  "newExecutionRequestQueue = \<lparr>cs_Deposits = [], cs_Withdrawals = [], cs_Consolidations = [],
     rq_Format = executionRequestQueueFormat, rq_NextID = 1\<rparr>"

definition emptyControls :: executionRequestControlSet where
  "emptyControls = \<lparr>cs_Deposits = [], cs_Withdrawals = [], cs_Consolidations = []\<rparr>"

definition cloneQueuedExecutionRequests :: "queuedExecutionRequest list \<Rightarrow> queuedExecutionRequest list" where
  "cloneQueuedExecutionRequests items = map (\<lambda>item. \<lparr>q_ID = q_ID item, q_Data = q_Data item\<rparr>) items"

definition queue_clone :: "executionRequestQueue \<Rightarrow> executionRequestQueue" where
  "queue_clone q = q\<lparr>cs_Deposits := cloneQueuedExecutionRequests (cs_Deposits q),
     cs_Withdrawals := cloneQueuedExecutionRequests (cs_Withdrawals q),
     cs_Consolidations := cloneQueuedExecutionRequests (cs_Consolidations q)\<rparr>"

definition queue_empty :: "executionRequestQueue \<Rightarrow> bool" where
  "queue_empty q \<longleftrightarrow> length (cs_Deposits q) = 0 \<and> length (cs_Withdrawals q) = 0
     \<and> length (cs_Consolidations q) = 0"

section \<open>Enqueueing\<close>

text \<open>The common tail of \<open>enqueue\<close>, on the list the request type selects.\<close>

definition enqueueTarget ::
  "executionRequestQueue \<Rightarrow> byte \<Rightarrow> bytes \<Rightarrow> queuedExecutionRequest list
   \<Rightarrow> (queuedExecutionRequest list \<Rightarrow> executionRequestQueue) \<Rightarrow> nat \<Rightarrow> nat \<Rightarrow> error
   \<Rightarrow> error + executionRequestQueue" where
  "enqueueTarget proposed requestType data target setTarget itemSize limit fullError =
     (if length data \<noteq> itemSize
      then Inl (Errf ''execution request type 0x%02x has length %d, want %d''
             [ArgN (unat requestType), ArgN (length data), ArgN itemSize])
      else if length target \<ge> limit then Inl fullError
      else if rq_NextID proposed = 0 \<or> rq_NextID proposed = - 1
      then Inl ErrExecutionRequestIDOverflow
      else Inr ((setTarget (target @ [\<lparr>q_ID = rq_NextID proposed, q_Data = data\<rparr>]))
             \<lparr>rq_NextID := rq_NextID proposed + 1\<rparr>))"

definition enqueue :: "executionRequestQueue \<Rightarrow> byte \<Rightarrow> bytes \<Rightarrow> error + executionRequestQueue" where
  "enqueue q requestType data =
     (let proposed = queue_clone q in
      if requestType = executionRequestDeposit
      then enqueueTarget proposed requestType data (cs_Deposits proposed)
             (\<lambda>xs. proposed\<lparr>cs_Deposits := xs\<rparr>)
             depositRequestSize maxDepositRequestsPerPayload ErrDepositRequestQueueFull
      else if requestType = executionRequestWithdrawal
      then enqueueTarget proposed requestType data (cs_Withdrawals proposed)
             (\<lambda>xs. proposed\<lparr>cs_Withdrawals := xs\<rparr>)
             withdrawalRequestSize maxWithdrawalRequestsPerPayload ErrWithdrawalRequestQueueFull
      else if requestType = executionRequestConsolidation
      then enqueueTarget proposed requestType data (cs_Consolidations proposed)
             (\<lambda>xs. proposed\<lparr>cs_Consolidations := xs\<rparr>)
             consolidationRequestSize maxConsolidationRequestsPerPayload ErrConsolidationRequestQueueFull
      else Inl (Errf ''unsupported execution request type 0x%02x'' [ArgN (unat requestType)]))"

section \<open>Validation\<close>

fun validateItems :: "string \<Rightarrow> nat \<Rightarrow> nat \<Rightarrow> u64 \<Rightarrow> u64 list \<Rightarrow> queuedExecutionRequest list \<Rightarrow> error + u64 list" where
  "validateItems name itemSize index previousID seen [] = Inr seen"
| "validateItems name itemSize index previousID seen (item # items) =
     (if q_ID item = 0
      then Inl (Errf ''%s control %d has zero ID'' [ArgS name, ArgN index])
      else if length (q_Data item) \<noteq> itemSize
      then Inl (Errf ''%s control %d has length %d, want %d''
             [ArgS name, ArgN index, ArgN (length (q_Data item)), ArgN itemSize])
      else if q_ID item \<in> set seen
      then Inl (Errf ''execution request control ID %d is duplicated'' [ArgN (unat (q_ID item))])
      else if q_ID item \<le> previousID
      then Inl (Errf ''%s control IDs are not strictly increasing'' [ArgS name])
      else validateItems name itemSize (Suc index) (q_ID item) (q_ID item # seen) items)"

definition validateExecutionRequestControlSet :: "'a executionRequestControlSet_scheme \<Rightarrow> error + unit" where
  "validateExecutionRequestControlSet controls =
     bindE (foldE (\<lambda>seen (name, itemSize, items). validateItems name itemSize 0 0 seen items) []
       [(''deposit'', depositRequestSize, cs_Deposits controls),
        (''withdrawal'', withdrawalRequestSize, cs_Withdrawals controls),
        (''consolidation'', consolidationRequestSize, cs_Consolidations controls)])
     (\<lambda>seen. Inr ())"

definition queue_maxID :: "'a executionRequestControlSet_scheme \<Rightarrow> u64" where
  "queue_maxID q = fold (\<lambda>items maxID. fold (\<lambda>item m. max m (q_ID item)) items maxID)
     [cs_Deposits q, cs_Withdrawals q, cs_Consolidations q] 0"

definition validateExecutionRequestQueue :: "executionRequestQueue \<Rightarrow> error + unit" where
  "validateExecutionRequestQueue q =
     (if rq_Format q \<noteq> executionRequestQueueFormat
      then Inl (Errf ''unsupported execution request queue format %d'' [ArgN (nat (rq_Format q))])
      else bindE (validateExecutionRequestControlSet q) (\<lambda>_.
        let maxID = queue_maxID q in
        if rq_NextID q = 0 \<or> rq_NextID q \<le> maxID
        then Inl (Errf ''execution request next ID %d does not exceed pending ID %d''
               [ArgN (unat (rq_NextID q)), ArgN (unat maxID)])
        else Inr ()))"

section \<open>Requests of a block\<close>

definition verifyExecutionRequestsHash ::
  "(bytes list \<Rightarrow> hash) \<Rightarrow> block \<Rightarrow> bytes list option \<Rightarrow> error + unit" where
  "verifyExecutionRequestsHash calcRequestsHash b requests =
     (if h_SlotNumber (b_Header b) = None
         \<and> (\<exists>request \<in> set (case requests of None \<Rightarrow> [] | Some rs \<Rightarrow> rs).
               request \<noteq> [] \<and> hd request \<ge> executionRequestBuilderDeposit)
      then Inl (Err ''builder requests require Amsterdam'')
      else case requests of
        None \<Rightarrow>
          (case h_RequestsHash (b_Header b) of
             Some h \<Rightarrow> Inl (Errf ''pre-Prague block %s has requests hash %s''
               [ArgN (unat (b_Hash b)), ArgN (unat h)])
           | None \<Rightarrow> Inr ())
      | Some rs \<Rightarrow>
          (let calculated = calcRequestsHash rs in
           case h_RequestsHash (b_Header b) of
             None \<Rightarrow> Inl (Errf ''prague block %s has no requests hash'' [ArgN (unat (b_Hash b))])
           | Some h \<Rightarrow>
               if h \<noteq> calculated
               then Inl (Errf ''block %s requests hash mismatch: header %s, calculated %s''
                      [ArgN (unat (b_Hash b)), ArgN (unat h), ArgN (unat calculated)])
               else Inr ()))"

definition appendExecutionRequestControls ::
  "executionRequests option \<Rightarrow> executionRequestControlSet \<Rightarrow> error + executionRequests option" where
  "appendExecutionRequestControls requests controls =
     (case requests of
        None \<Rightarrow>
          if length (cs_Deposits controls) + length (cs_Withdrawals controls)
               + length (cs_Consolidations controls) \<noteq> 0
          then Inl (Err ''pre-Prague block cannot contain execution request controls'')
          else Inr None
      | Some r \<Rightarrow>
          bindE (cloneElectraExecutionRequests (Some r)) (\<lambda>combined.
          bindE (mapE (\<lambda>item. decodeDepositRequest (q_Data item)) (cs_Deposits controls)) (\<lambda>ds.
          bindE (mapE (\<lambda>item. decodeWithdrawalRequest (q_Data item)) (cs_Withdrawals controls)) (\<lambda>ws.
          bindE (mapE (\<lambda>item. decodeConsolidationRequest (q_Data item)) (cs_Consolidations controls)) (\<lambda>cs.
          Inr (Some (combined\<lparr>Deposits := Deposits combined @ map Some ds,
            Withdrawals := Withdrawals combined @ map Some ws,
            Consolidations := Consolidations combined @ map Some cs\<rparr>)))))))"

definition validateExecutionRequestRecord :: "storedExecutionRequestRecord \<Rightarrow> error + unit" where
  "validateExecutionRequestRecord record =
     (if er_Requests record \<noteq> None \<and> er_NativeRequests record = None
      then Inl (Err ''prague execution request record has no native request list'')
      else bindE (parseExecutionRequests (er_NativeRequests record)) (\<lambda>native.
        bindE (parseExecutionRequests (er_Requests record)) (\<lambda>_.
        bindE (validateExecutionRequestControlSet (er_Controls record)) (\<lambda>_.
        bindE (appendExecutionRequestControls native (er_Controls record)) (\<lambda>combined.
        bindE (marshalExecutionRequests combined) (\<lambda>combinedBytes.
          if \<not> equalExecutionRequestBytes combinedBytes (er_Requests record)
          then Inl (Err ''native execution requests and recorded controls do not reconstruct the full request list'')
          else Inr ()))))))"

text \<open>
  The counts are differences of Go \<open>int\<close>s. The parser has already bounded the native lists, so
  they are not negative and subtraction on \<^typ>\<open>nat\<close> agrees.
\<close>

definition prepareExecutionRequestBlock ::
  "(bytes list \<Rightarrow> hash) \<Rightarrow> (header \<Rightarrow> hash) \<Rightarrow> block \<Rightarrow> bytes list option \<Rightarrow> executionRequestQueue
   \<Rightarrow> error + preparedExecutionRequestBlock" where
  "prepareExecutionRequestBlock calcRequestsHash headerHash b native queue =
     bindE (verifyExecutionRequestsHash calcRequestsHash b native) (\<lambda>_.
     bindE (parseExecutionRequests native) (\<lambda>parsed.
     bindE (marshalExecutionRequests parsed) (\<lambda>roundTrip.
     if \<not> equalExecutionRequestBytes roundTrip native
     then Inl (Err ''native execution requests changed during decoding'')
     else
       (let remaining = queue_clone queue;
            prepared = \<lparr>pb_Block = b, pb_Requests = parsed,
              pb_Record = \<lparr>er_Format = executionRequestRecordFormat, er_NativeRequests = native,
                er_Requests = native, er_Controls = emptyControls\<rparr>,
              pb_Remaining = remaining, pb_Controlled = False\<rparr>
        in if native = None then Inr prepared
        else case parsed of
          None \<Rightarrow> Inl (Panic ''nil pointer dereference'')
        | Some p \<Rightarrow>
          (let depositCount = min (maxDepositRequestsPerPayload - length (Deposits p))
                 (length (cs_Deposits remaining));
               withdrawalCount = min (maxWithdrawalRequestsPerPayload - length (Withdrawals p))
                 (length (cs_Withdrawals remaining));
               consolidationCount = min (maxConsolidationRequestsPerPayload - length (Consolidations p))
                 (length (cs_Consolidations remaining));
               controls = \<lparr>cs_Deposits = cloneQueuedExecutionRequests (take depositCount (cs_Deposits remaining)),
                 cs_Withdrawals = cloneQueuedExecutionRequests (take withdrawalCount (cs_Withdrawals remaining)),
                 cs_Consolidations =
                   cloneQueuedExecutionRequests (take consolidationCount (cs_Consolidations remaining))\<rparr>;
               remaining = remaining
                 \<lparr>cs_Deposits := cloneQueuedExecutionRequests (drop depositCount (cs_Deposits remaining)),
                  cs_Withdrawals := cloneQueuedExecutionRequests (drop withdrawalCount (cs_Withdrawals remaining)),
                  cs_Consolidations :=
                    cloneQueuedExecutionRequests (drop consolidationCount (cs_Consolidations remaining))\<rparr>
           in bindE (appendExecutionRequestControls (Some p) controls) (\<lambda>parsed.
              bindE (marshalExecutionRequests parsed) (\<lambda>combined.
              let prepared = prepared\<lparr>pb_Remaining := remaining, pb_Requests := parsed,
                    pb_Record := (pb_Record prepared)\<lparr>er_Controls := controls\<rparr>\<rparr>
              in if length (cs_Deposits controls) + length (cs_Withdrawals controls)
                      + length (cs_Consolidations controls) = 0
                 then Inr prepared
                 else Inr (prepared\<lparr>pb_Controlled := True,
                   pb_Record := (pb_Record prepared)\<lparr>er_Requests := combined\<rparr>,
                   pb_Block := WithSeal headerHash b ((b_Header b)
                     \<lparr>h_RequestsHash := Some (calcRequestsHash (case combined of None \<Rightarrow> [] | Some c \<Rightarrow> c))\<rparr>)\<rparr>))))))))"

section \<open>Reconciliation at a switch of the canonical chain\<close>

text \<open>
  The working state: \<open>known\<close> remembers the type and data of every control ID met,
  \<open>mapsByType\<close> has the available controls of the three types by ID, \<open>consumedNew\<close> the IDs the
  new path has consumed.
\<close>

record reconcileState =
  rc_known :: "(u64 \<times> (nat \<times> bytes)) list"
  rc_maps :: "(u64 \<times> queuedExecutionRequest) list list"
  rc_consumed :: "u64 list"

definition rememberControl :: "nat \<Rightarrow> queuedExecutionRequest \<Rightarrow> reconcileState \<Rightarrow> error + reconcileState" where
  "rememberControl requestType item s =
     (case map_of (rc_known s) (q_ID item) of
        Some (t, d) \<Rightarrow>
          if t \<noteq> requestType \<or> d \<noteq> q_Data item
          then Inl (Errf ''execution request control ID %d has conflicting values'' [ArgN (unat (q_ID item))])
          else Inr s
      | None \<Rightarrow> Inr (s\<lparr>rc_known := (q_ID item, (requestType, q_Data item)) # rc_known s\<rparr>))"

text \<open>A loop over the three lists of a control set, each item with its type.\<close>

definition typedControls :: "'a executionRequestControlSet_scheme \<Rightarrow> (nat \<times> queuedExecutionRequest) list" where
  "typedControls c = map (Pair 0) (cs_Deposits c) @ map (Pair 1) (cs_Withdrawals c)
     @ map (Pair 2) (cs_Consolidations c)"

definition addControl :: "reconcileState \<Rightarrow> nat \<times> queuedExecutionRequest \<Rightarrow> error + reconcileState" where
  "addControl s = (\<lambda>(requestType, item).
     bindE (rememberControl requestType item s) (\<lambda>s.
     Inr (s\<lparr>rc_maps := (rc_maps s)[requestType := AList.update (q_ID item) item (rc_maps s ! requestType)]\<rparr>)))"

definition consumeControl :: "reconcileState \<Rightarrow> nat \<times> queuedExecutionRequest \<Rightarrow> error + reconcileState" where
  "consumeControl s = (\<lambda>(requestType, item).
     bindE (rememberControl requestType item s) (\<lambda>s.
     if q_ID item \<in> set (rc_consumed s)
     then Inl (Errf ''new canonical path consumes execution request control ID %d more than once''
            [ArgN (unat (q_ID item))])
     else if map_of (rc_maps s ! requestType) (q_ID item) = None
     then Inl (Errf ''new canonical path consumes unavailable execution request control ID %d''
            [ArgN (unat (q_ID item))])
     else Inr (s\<lparr>rc_consumed := q_ID item # rc_consumed s,
       rc_maps := (rc_maps s)[requestType := AList.delete (q_ID item) (rc_maps s ! requestType)]\<rparr>)))"

text \<open>The loops over the old and the new path, from the oldest block on.\<close>

definition reconcilePath ::
  "(hash \<Rightarrow> error + storedExecutionRequestRecord option)
   \<Rightarrow> (reconcileState \<Rightarrow> nat \<times> queuedExecutionRequest \<Rightarrow> error + reconcileState)
   \<Rightarrow> block list \<Rightarrow> reconcileState \<Rightarrow> error + reconcileState" where
  "reconcilePath loadRecord step path s =
     foldE (\<lambda>s b. bindE (loadRecord (b_Hash b)) (\<lambda>found.
       case found of
         None \<Rightarrow> Inr s
       | Some record \<Rightarrow> foldE step s (typedControls (er_Controls record)))) s (rev path)"

definition toSortedSlice :: "(u64 \<times> queuedExecutionRequest) list \<Rightarrow> queuedExecutionRequest list" where
  "toSortedSlice values = sort_key q_ID (cloneQueuedExecutionRequests (map snd values))"

definition reconcileExecutionRequestQueue ::
  "(hash \<Rightarrow> error + storedExecutionRequestRecord option) \<Rightarrow> executionRequestQueue
   \<Rightarrow> block list \<Rightarrow> block list \<Rightarrow> error + executionRequestQueue" where
  "reconcileExecutionRequestQueue loadRecord queue oldPath newPath =
     (let result = queue_clone queue in
      bindE (foldE addControl \<lparr>rc_known = [], rc_maps = [[], [], []], rc_consumed = []\<rparr>
        (typedControls result)) (\<lambda>s.
      bindE (reconcilePath loadRecord addControl oldPath s) (\<lambda>s.
      bindE (reconcilePath loadRecord consumeControl newPath s) (\<lambda>s.
      let result = result\<lparr>cs_Deposits := toSortedSlice (rc_maps s ! 0),
            cs_Withdrawals := toSortedSlice (rc_maps s ! 1),
            cs_Consolidations := toSortedSlice (rc_maps s ! 2)\<rparr>
      in bindE (validateExecutionRequestControlSet result) (\<lambda>_. Inr result)))))"

section \<open>Well-formed control sets\<close>

lemma clone_id [simp]: "cloneQueuedExecutionRequests items = items"
  by (induction items) (auto simp: cloneQueuedExecutionRequests_def)

lemma queue_clone_id [simp]: "queue_clone q = q"
  by (simp add: queue_clone_def)

text \<open>The IDs of a control set, and the items of each of the three types.\<close>

definition controlIDs :: "'a executionRequestControlSet_scheme \<Rightarrow> u64 list" where
  "controlIDs c = map q_ID (cs_Deposits c) @ map q_ID (cs_Withdrawals c) @ map q_ID (cs_Consolidations c)"

definition controlsOf :: "nat \<Rightarrow> 'a executionRequestControlSet_scheme \<Rightarrow> queuedExecutionRequest list" where
  "controlsOf t c = (if t = 0 then cs_Deposits c else if t = 1 then cs_Withdrawals c
     else if t = 2 then cs_Consolidations c else [])"

definition validItems :: "nat \<Rightarrow> queuedExecutionRequest list \<Rightarrow> bool" where
  "validItems width items \<longleftrightarrow> sorted_wrt (<) (map q_ID items)
     \<and> (\<forall>x \<in> set items. q_ID x \<noteq> 0 \<and> length (q_Data x) = width)"

definition validControls :: "'a executionRequestControlSet_scheme \<Rightarrow> bool" where
  "validControls c \<longleftrightarrow> distinct (controlIDs c) \<and> validItems depositRequestSize (cs_Deposits c)
     \<and> validItems withdrawalRequestSize (cs_Withdrawals c)
     \<and> validItems consolidationRequestSize (cs_Consolidations c)"

definition validQueue :: "executionRequestQueue \<Rightarrow> bool" where
  "validQueue q \<longleftrightarrow> rq_Format q = executionRequestQueueFormat \<and> validControls q
     \<and> rq_NextID q \<noteq> 0 \<and> (\<forall>i \<in> set (controlIDs q). i < rq_NextID q)"

lemma validateItems_iff:
  "validateItems name width i prev seen items = Inr seen' \<longleftrightarrow>
     seen' = rev (map q_ID items) @ seen \<and> sorted_wrt (<) (prev # map q_ID items)
     \<and> (\<forall>x \<in> set items. q_ID x \<noteq> 0 \<and> length (q_Data x) = width \<and> q_ID x \<notin> set seen)"
proof (induction items arbitrary: i prev seen)
  case (Cons x xs)
  let ?ok = "q_ID x \<noteq> 0 \<and> length (q_Data x) = width \<and> q_ID x \<notin> set seen \<and> prev < q_ID x"
  have s: "sorted_wrt (<) (prev # map q_ID (x # xs)) \<longleftrightarrow> prev < q_ID x \<and> sorted_wrt (<) (q_ID x # map q_ID xs)"
    using sorted_wrt2 [of "(<) :: u64 \<Rightarrow> _" prev "q_ID x" "map q_ID xs"] by simp
  have n: "sorted_wrt (<) (q_ID x # map q_ID xs) \<Longrightarrow> y \<in> set xs \<Longrightarrow> q_ID y \<noteq> q_ID x" for y
    by auto
  show ?case
  proof (cases ?ok)
    case True
    then have e: "validateItems name width i prev seen (x # xs)
        = validateItems name width (Suc i) (q_ID x) (q_ID x # seen) xs" by (simp flip: not_le)
    have "(\<forall>y \<in> set xs. q_ID y \<noteq> 0 \<and> length (q_Data y) = width \<and> q_ID y \<notin> set (q_ID x # seen))
        \<longleftrightarrow> (\<forall>y \<in> set (x # xs). q_ID y \<noteq> 0 \<and> length (q_Data y) = width \<and> q_ID y \<notin> set seen)"
      if "sorted_wrt (<) (q_ID x # map q_ID xs)"
      using n [OF that] True by (simp cong: ball_cong)
    with True show ?thesis unfolding e Cons.IH s by (simp cong: conj_cong del: sorted_wrt.simps)
  next
    case False
    then have "\<nexists>s. validateItems name width i prev seen (x # xs) = Inr s" by (auto simp: not_less)
    with False show ?thesis unfolding s by auto
  qed
qed auto

lemma sorted_wrt_0_Cons:
  "(\<forall>x \<in> set items. q_ID x \<noteq> 0) \<Longrightarrow> sorted_wrt (<) (0 # map q_ID items) = sorted_wrt (<) (map q_ID items)"
  by (auto simp: word_neq_0_conv)

lemma validateItems_valid:
  "validateItems name width 0 0 seen items = Inr seen' \<longleftrightarrow>
     validItems width items \<and> set (map q_ID items) \<inter> set seen = {} \<and> seen' = rev (map q_ID items) @ seen"
  unfolding validateItems_iff validItems_def using sorted_wrt_0_Cons [of items] by auto

lemma validateExecutionRequestControlSet_iff:
  "validateExecutionRequestControlSet c = Inr () \<longleftrightarrow> validControls c"
  unfolding validateExecutionRequestControlSet_def validControls_def controlIDs_def
  by (auto simp: err_simps validateItems_valid validItems_def dest: sorted_wrt_less_distinct)

lemma fold_max_ge: "fold (\<lambda>x m. max m (f x)) xs (k :: u64) < n \<longleftrightarrow> k < n \<and> (\<forall>x \<in> set xs. f x < n)"
  by (induction xs arbitrary: k) auto

lemma queue_maxID_less: "queue_maxID q < n \<longleftrightarrow> 0 < n \<and> (\<forall>i \<in> set (controlIDs q). i < n)"
  unfolding queue_maxID_def controlIDs_def by (auto simp: fold_max_ge)

lemma validateExecutionRequestQueue_iff: "validateExecutionRequestQueue q = Inr () \<longleftrightarrow> validQueue q"
  unfolding validateExecutionRequestQueue_def validQueue_def
  using queue_maxID_less [of q "rq_NextID q"]
  by (auto simp: err_simps validateExecutionRequestControlSet_iff Let_def not_le word_neq_0_conv)

lemma validQueue_new: "validQueue newExecutionRequestQueue"
  by (simp add: validQueue_def newExecutionRequestQueue_def validControls_def controlIDs_def validItems_def)

section \<open>Enqueueing\<close>

abbreviation requestWidth :: "nat \<Rightarrow> nat" where
  "requestWidth t \<equiv> entry_width t"

definition requestLimit :: "nat \<Rightarrow> nat" where
  "requestLimit t = (if t = 0 then maxDepositRequestsPerPayload
     else if t = 1 then maxWithdrawalRequestsPerPayload else maxConsolidationRequestsPerPayload)"

lemma enqueue_Inr_iff:
  "(\<exists>q'. enqueue q t data = Inr q') \<longleftrightarrow>
     t \<le> 2 \<and> length data = entry_width (unat t) \<and> length (controlsOf (unat t) q) < requestLimit (unat t)
     \<and> rq_NextID q \<noteq> 0 \<and> rq_NextID q \<noteq> - 1"
proof -
  have "t \<le> 2 \<longleftrightarrow> t = 0 \<or> t = 1 \<or> t = 2" by (simp add: word_le_nat_alt) (auto simp: word_unat_eq_iff)
  then show ?thesis
    by (auto simp: enqueue_def enqueueTarget_def entry_width_def requestLimit_def controlsOf_def Let_def)
qed

lemma enqueue_ok:
  assumes "enqueue q t data = Inr q'"
  shows "controlsOf s q' = controlsOf s q @ (if s = unat t then [\<lparr>q_ID = rq_NextID q, q_Data = data\<rparr>] else [])
    \<and> rq_NextID q' = rq_NextID q + 1 \<and> rq_Format q' = rq_Format q
    \<and> rq_NextID q \<noteq> 0 \<and> rq_NextID q \<noteq> - 1 \<and> t \<le> 2 \<and> length data = entry_width (unat t)"
  using assms
  by (auto simp: enqueue_def enqueueTarget_def entry_width_def controlsOf_def Let_def split: if_splits)

lemma enqueue_valid:
  assumes v: "validQueue q" and e: "enqueue q t data = Inr q'"
  shows "validQueue q'"
proof -
  from enqueue_ok [OF e] have n: "rq_NextID q \<noteq> 0" "rq_NextID q \<noteq> - 1" "rq_NextID q' = rq_NextID q + 1" by auto
  have c: "rq_NextID q < rq_NextID q + 1" "rq_NextID q + 1 \<noteq> 0"
    using n word_less_inc [of "rq_NextID q"] word_inc_neq_0 by auto
  from v have lt: "\<forall>i \<in> set (controlIDs q). i < rq_NextID q" by (simp add: validQueue_def)
  then have lt': "\<forall>i \<in> set (controlIDs q). i < rq_NextID q + 1" using n word_less_inc less_imp_le by blast
  have snoc: "validItems w (xs @ [\<lparr>q_ID = rq_NextID q, q_Data = data\<rparr>])"
    if "validItems w xs" "\<forall>x \<in> set xs. q_ID x < rq_NextID q" "length data = w" for w xs
    using that n(1) by (auto simp: validItems_def sorted_wrt_append)
  have new: "rq_NextID q \<notin> set (controlIDs q)" using lt by auto
  have l: "\<forall>x \<in> set (cs_Deposits q). q_ID x < rq_NextID q" "\<forall>x \<in> set (cs_Withdrawals q). q_ID x < rq_NextID q"
    "\<forall>x \<in> set (cs_Consolidations q). q_ID x < rq_NextID q"
    using lt by (simp_all add: controlIDs_def ball_Un)
  note eqs = enqueue_ok [OF e, of 0] enqueue_ok [OF e, of 1] enqueue_ok [OF e, of 2]
  from eqs(1) consider "unat t = 0" | "unat t = 1" | "unat t = 2" by (auto simp: word_le_nat_alt) linarith
  then have "validControls q' \<and> set (controlIDs q') = insert (rq_NextID q) (set (controlIDs q))"
  proof cases
    case 1
    with v eqs new l snoc [of depositRequestSize "cs_Deposits q"] show ?thesis
      by (auto simp: validQueue_def validControls_def controlIDs_def controlsOf_def entry_width_def)
  next
    case 2
    with v eqs new l snoc [of withdrawalRequestSize "cs_Withdrawals q"] show ?thesis
      by (auto simp: validQueue_def validControls_def controlIDs_def controlsOf_def entry_width_def)
  next
    case 3
    with v eqs new l snoc [of consolidationRequestSize "cs_Consolidations q"] show ?thesis
      by (auto simp: validQueue_def validControls_def controlIDs_def controlsOf_def entry_width_def)
  qed
  with v c n lt' eqs(1) show ?thesis by (simp add: validQueue_def)
qed

section \<open>Building a block's request list\<close>

lemma length_grp:
  "length (grp 0 r) = length (Deposits r)" "length (grp (Suc 0) r) = length (Withdrawals r)"
  "length (grp 2 r) = length (Consolidations r)" "length (grp 3 r) = length (BuilderDeposits r)"
  "length (grp 4 r) = length (BuilderExits r)"
  by (simp_all add: grp_def)

lemma dec_list_ok:
  assumes "\<And>d. length d = n \<Longrightarrow> \<exists>x. dec d = Inr x \<and> valid x \<and> enc x = d"
    and "\<forall>x \<in> set items. length (q_Data x) = n"
  shows "\<exists>xs. mapE (\<lambda>x. dec (q_Data x)) items = Inr xs \<and> list_all valid xs \<and> map enc xs = map q_Data items"
  using assms(2)
proof (induction items)
  case (Cons x items)
  then obtain xs where xs: "mapE (\<lambda>x. dec (q_Data x)) items = Inr xs" "list_all valid xs" "map enc xs = map q_Data items"
    by auto
  from assms(1) [of "q_Data x"] Cons.prems obtain y where "dec (q_Data x) = Inr y" "valid y" "enc y = q_Data x" by auto
  with xs show ?case by (intro exI [of _ "y # xs"]) simp
qed simp

lemma append_ok:
  assumes wf: "wfRequests r" and c: "validControls c"
  shows "\<exists>r'. appendExecutionRequestControls (Some r) c = Inr (Some r') \<and> wfRequests r'
    \<and> (\<forall>t. grp t r' = grp t r @ map q_Data (controlsOf t c))"
proof -
  from c have w: "\<forall>x \<in> set (cs_Deposits c). length (q_Data x) = depositRequestSize"
    "\<forall>x \<in> set (cs_Withdrawals c). length (q_Data x) = withdrawalRequestSize"
    "\<forall>x \<in> set (cs_Consolidations c). length (q_Data x) = consolidationRequestSize"
    by (simp_all add: validControls_def validItems_def)
  obtain ds where ds: "mapE (\<lambda>x. decodeDepositRequest (q_Data x)) (cs_Deposits c) = Inr ds"
      "list_all dep_valid ds" "map dep_enc ds = map q_Data (cs_Deposits c)"
    using dec_list_ok [OF dep.enc_dec w(1)] by blast
  obtain ws where ws: "mapE (\<lambda>x. decodeWithdrawalRequest (q_Data x)) (cs_Withdrawals c) = Inr ws"
      "map wdr_enc ws = map q_Data (cs_Withdrawals c)"
    using dec_list_ok [OF wdr.enc_dec w(2)] by blast
  obtain cs where cs: "mapE (\<lambda>x. decodeConsolidationRequest (q_Data x)) (cs_Consolidations c) = Inr cs"
      "map con_enc cs = map q_Data (cs_Consolidations c)"
    using dec_list_ok [OF con.enc_dec w(3)] by blast
  let ?r' = "r\<lparr>Deposits := Deposits r @ map Some ds, Withdrawals := Withdrawals r @ map Some ws,
    Consolidations := Consolidations r @ map Some cs\<rparr>"
  have "appendExecutionRequestControls (Some r) c = Inr (Some ?r')"
    using wf ds(1) ws(1) cs(1)
    by (simp add: appendExecutionRequestControls_def cloneElectraExecutionRequests_def wfRequests_def)
  moreover have "wfRequests ?r'" using wf ds(2) by (auto simp: wfRequests_def list_all_iff)
  moreover have "grp t ?r' = grp t r @ map q_Data (controlsOf t c)" for t
    using ds(3) ws(2) cs(2) by (simp add: grp_def controlsOf_def comp_def)
  ultimately show ?thesis by blast
qed

lemma validControls_take_drop:
  assumes "validControls (q :: 'a executionRequestControlSet_scheme)"
    and "\<forall>t. \<exists>n. controlsOf t (c :: 'b executionRequestControlSet_scheme) = take n (controlsOf t q)
           \<or> controlsOf t c = drop n (controlsOf t q)"
  shows "validControls c"
proof -
  have v: "validItems w xs'" if "validItems w xs" "\<exists>n. xs' = take n xs \<or> xs' = drop n xs" for w xs xs'
    using that by (auto simp: validItems_def simp flip: take_map drop_map dest: in_set_takeD in_set_dropD
        intro: sorted_wrt_take sorted_wrt_drop)
  have s: "set xs' \<subseteq> set xs \<and> (distinct (map f xs) \<longrightarrow> distinct (map f xs'))"
    if "\<exists>n. xs' = take n xs \<or> xs' = drop n xs" for xs xs' :: "queuedExecutionRequest list" and f :: "_ \<Rightarrow> u64"
    using that by (auto simp: take_map [symmetric] drop_map [symmetric] dest: in_set_takeD in_set_dropD)
  have d: "\<exists>n. cs_Deposits c = take n (cs_Deposits q) \<or> cs_Deposits c = drop n (cs_Deposits q)"
     "\<exists>n. cs_Withdrawals c = take n (cs_Withdrawals q) \<or> cs_Withdrawals c = drop n (cs_Withdrawals q)"
     "\<exists>n. cs_Consolidations c = take n (cs_Consolidations q) \<or> cs_Consolidations c = drop n (cs_Consolidations q)"
    using assms(2) [rule_format, of 0] assms(2) [rule_format, of 1] assms(2) [rule_format, of 2]
    by (simp_all add: controlsOf_def)
  have a: "validItems depositRequestSize (cs_Deposits q)" "validItems withdrawalRequestSize (cs_Withdrawals q)"
      "validItems consolidationRequestSize (cs_Consolidations q)" "distinct (controlIDs q)"
    using assms(1) by (simp_all add: validControls_def)
  have "distinct (controlIDs c)"
    using a(4) s [OF d(1), of q_ID] s [OF d(2), of q_ID] s [OF d(3), of q_ID]
    unfolding controlIDs_def distinct_append set_append set_map by (simp add: disjoint_iff) blast
  with v [OF a(1) d(1)] v [OF a(2) d(2)] v [OF a(3) d(3)] show ?thesis by (simp add: validControls_def)
qed

text \<open>How many queued requests of a type the block takes.\<close>

definition takenCount :: "nat \<Rightarrow> executionRequests \<Rightarrow> 'a executionRequestControlSet_scheme \<Rightarrow> nat" where
  "takenCount t r q = min (requestLimit t - length (grp t r)) (length (controlsOf t q))"

lemma marshal_builder_item:
  assumes "wfRequests r" and "marshalExecutionRequests (Some r) = Inr (Some bs)"
  shows "(\<exists>b \<in> set bs. b \<noteq> [] \<and> hd b \<ge> executionRequestBuilderDeposit) \<longleftrightarrow> grp 3 r \<noteq> [] \<or> grp 4 r \<noteq> []"
proof -
  have "bs = concat (map (\<lambda>t. request_item t (grp t r)) [0..<5])" using marshal_eq [OF assms(1)] assms(2) by simp
  also have "[0..<5] = [0, 1, 2, 3, 4 :: nat]" by (simp add: upt_rec)
  finally show ?thesis by (auto simp: request_item_def word_le_nat_alt)
qed

text \<open>The shape of a successful preparation.\<close>

definition preparedFrom ::
  "(bytes list \<Rightarrow> hash) \<Rightarrow> bytes list option \<Rightarrow> executionRequestQueue \<Rightarrow> preparedExecutionRequestBlock \<Rightarrow> bool" where
  "preparedFrom calcRequestsHash native queue p \<longleftrightarrow>
     (\<forall>t. controlsOf t (er_Controls (pb_Record p)) @ controlsOf t (pb_Remaining p) = controlsOf t queue)
     \<and> rq_NextID (pb_Remaining p) = rq_NextID queue \<and> rq_Format (pb_Remaining p) = rq_Format queue
     \<and> er_NativeRequests (pb_Record p) = native
     \<and> parseExecutionRequests (er_Requests (pb_Record p)) = Inr (pb_Requests p)
     \<and> er_Format (pb_Record p) = executionRequestRecordFormat
     \<and> validateExecutionRequestRecord (pb_Record p) = Inr ()
     \<and> verifyExecutionRequestsHash calcRequestsHash (pb_Block p) (er_Requests (pb_Record p)) = Inr ()"

lemma prepare_None:
  assumes "verifyExecutionRequestsHash calc b None = Inr ()"
  shows "\<exists>p. prepareExecutionRequestBlock calc hh b None q = Inr p \<and> preparedFrom calc None q p
    \<and> pb_Block p = b \<and> pb_Remaining p = q \<and> er_Controls (pb_Record p) = emptyControls"
proof -
  have "validControls emptyControls"
    by (simp add: emptyControls_def validControls_def controlIDs_def validItems_def)
  then have "validateExecutionRequestControlSet emptyControls = Inr ()"
    by (simp add: validateExecutionRequestControlSet_iff)
  then show ?thesis using assms
    by (simp add: prepareExecutionRequestBlock_def preparedFrom_def Let_def controlsOf_def emptyControls_def
        validateExecutionRequestRecord_def appendExecutionRequestControls_def)
qed

lemma prepare_Some:
  assumes ver: "verifyExecutionRequestsHash calc b (Some bs) = Inr ()"
    and parsed: "parseExecutionRequests (Some bs) = Inr (Some r)" and q: "validControls q"
  shows "\<exists>p r'. prepareExecutionRequestBlock calc hh b (Some bs) q = Inr p \<and> preparedFrom calc (Some bs) q p
    \<and> (\<forall>t < 3. length (controlsOf t (er_Controls (pb_Record p))) = takenCount t r q)
    \<and> pb_Requests p = Some r' \<and> wfRequests r'
    \<and> (\<forall>t. grp t r' = grp t r @ map q_Data (controlsOf t (er_Controls (pb_Record p))))"
proof -
  from parse_ok [OF parsed] have wf: "wfRequests r" and lim: "withinLimits r"
    and m: "marshalExecutionRequests (Some r) = Inr (Some bs)" by auto
  define c where "c = \<lparr>cs_Deposits = take (takenCount 0 r q) (cs_Deposits q),
    cs_Withdrawals = take (takenCount 1 r q) (cs_Withdrawals q),
    cs_Consolidations = take (takenCount 2 r q) (cs_Consolidations q)\<rparr>"
  define rest where "rest = q\<lparr>cs_Deposits := drop (takenCount 0 r q) (cs_Deposits q),
    cs_Withdrawals := drop (takenCount 1 r q) (cs_Withdrawals q),
    cs_Consolidations := drop (takenCount 2 r q) (cs_Consolidations q)\<rparr>"
  have c: "controlsOf t c = take (takenCount t r q) (controlsOf t q)" for t by (simp add: c_def controlsOf_def)
  have rest: "controlsOf t rest = drop (takenCount t r q) (controlsOf t q)" for t by (simp add: rest_def controlsOf_def)
  have vc: "validControls c" using q c by (intro validControls_take_drop [OF q]) blast
  obtain r' where app: "appendExecutionRequestControls (Some r) c = Inr (Some r')" and wf': "wfRequests r'"
    and g: "\<And>t. grp t r' = grp t r @ map q_Data (controlsOf t c)" using append_ok [OF wf vc] by blast
  have lens: "length (grp t r') = length (grp t r) + (if t < 3 then takenCount t r q else 0)" for t
    using g c by (simp add: takenCount_def controlsOf_def)
  have "withinLimits r'" using lim lens [of 0] lens [of 1] lens [of 2] lens [of 3] lens [of 4]
    by (auto simp: withinLimits_def length_grp takenCount_def requestLimit_def min_def)
  with parse_marshal [OF wf'] obtain bs' where m': "marshalExecutionRequests (Some r') = Inr (Some bs')"
    and p': "parseExecutionRequests (Some bs') = Inr (Some r')" by blast
  have ver': "verifyExecutionRequestsHash calc (WithSeal hh b ((b_Header b)\<lparr>h_RequestsHash := Some (calc bs')\<rparr>)) (Some bs') = Inr ()"
    using ver marshal_builder_item [OF wf m] marshal_builder_item [OF wf' m'] g [of 3] g [of 4]
    by (auto simp: verifyExecutionRequestsHash_def WithSeal_def controlsOf_def split: if_splits)
  define none where "none = (length (cs_Deposits c) + length (cs_Withdrawals c) + length (cs_Consolidations c) = 0)"
  have prep: "prepareExecutionRequestBlock calc hh b (Some bs) q = Inr
    \<lparr>pb_Block = (if none then b else WithSeal hh b ((b_Header b)\<lparr>h_RequestsHash := Some (calc bs')\<rparr>)),
     pb_Requests = Some r',
     pb_Record = \<lparr>er_Format = executionRequestRecordFormat, er_NativeRequests = Some bs,
       er_Requests = Some (if none then bs else bs'), er_Controls = c\<rparr>,
     pb_Remaining = rest, pb_Controlled = (\<not> none)\<rparr>"
  proof -
    have cr: "c = \<lparr>cs_Deposits = take (min (maxDepositRequestsPerPayload - length (Deposits r)) (length (cs_Deposits q))) (cs_Deposits q),
      cs_Withdrawals = take (min (maxWithdrawalRequestsPerPayload - length (Withdrawals r)) (length (cs_Withdrawals q))) (cs_Withdrawals q),
      cs_Consolidations = take (min (maxConsolidationRequestsPerPayload - length (Consolidations r)) (length (cs_Consolidations q))) (cs_Consolidations q)\<rparr>"
      "rest = q\<lparr>cs_Deposits := drop (min (maxDepositRequestsPerPayload - length (Deposits r)) (length (cs_Deposits q))) (cs_Deposits q),
      cs_Withdrawals := drop (min (maxWithdrawalRequestsPerPayload - length (Withdrawals r)) (length (cs_Withdrawals q))) (cs_Withdrawals q),
      cs_Consolidations := drop (min (maxConsolidationRequestsPerPayload - length (Consolidations r)) (length (cs_Consolidations q))) (cs_Consolidations q)\<rparr>"
      by (simp_all add: c_def rest_def takenCount_def requestLimit_def length_grp controlsOf_def)
    show ?thesis
      unfolding prepareExecutionRequestBlock_def ver parsed bindE_Inr m option.case Let_def
        clone_id queue_clone_id cr [symmetric] app m' equalExecutionRequestBytes_iff none_def
      by simp
  qed
  have same: "bs' = bs" if none
  proof -
    have "controlsOf t c = []" for t using that by (simp add: none_def controlsOf_def)
    then have "r' = r" using g grp_inject wf wf' by auto
    then show ?thesis using m m' by simp
  qed
  have "validateExecutionRequestControlSet c = Inr ()" using vc by (simp add: validateExecutionRequestControlSet_iff)
  then have vr: "validateExecutionRequestRecord \<lparr>er_Format = executionRequestRecordFormat, er_NativeRequests = Some bs,
       er_Requests = Some bs', er_Controls = c\<rparr> = Inr ()"
    using parsed p' app m' by (simp add: validateExecutionRequestRecord_def)
  show ?thesis
    unfolding prep using same ver ver' vr p' wf' g c rest
    by (auto simp: preparedFrom_def rest_def takenCount_def)
qed

section \<open>Reconciliation\<close>

abbreviation controlKey :: "nat \<times> queuedExecutionRequest \<Rightarrow> u64" where
  "controlKey p \<equiv> q_ID (snd p)"

text \<open>The controls available in a working state, with their types.\<close>

definition pool :: "reconcileState \<Rightarrow> (nat \<times> queuedExecutionRequest) set" where
  "pool s = {(t, x). t < 3 \<and> map_of (rc_maps s ! t) (q_ID x) = Some x}"

text \<open>
  \<open>tracks s A\<close>: the state has met exactly the typed controls \<open>A\<close>, no two of which share an ID,
  and has well-formed maps over some of them.
\<close>

definition tracks :: "reconcileState \<Rightarrow> (nat \<times> queuedExecutionRequest) set \<Rightarrow> bool" where
  "tracks s A \<longleftrightarrow> inj_on controlKey A \<and> pool s \<subseteq> A \<and> length (rc_maps s) = 3
     \<and> (\<forall>k t d. map_of (rc_known s) k = Some (t, d) \<longleftrightarrow> (t, \<lparr>q_ID = k, q_Data = d\<rparr>) \<in> A)
     \<and> (\<forall>t < 3. distinct (map fst (rc_maps s ! t)) \<and> (\<forall>k x. map_of (rc_maps s ! t) k = Some x \<longrightarrow> q_ID x = k))"

lemma queued_eta [simp]: "\<lparr>q_ID = q_ID x, q_Data = q_Data x\<rparr> = x"
  by simp

lemma tracks_known:
  "tracks s A \<Longrightarrow> (t, x) \<in> A \<longleftrightarrow> map_of (rc_known s) (q_ID x) = Some (t, q_Data x)"
  unfolding tracks_def by (metis queued_eta)

lemma rememberControl_iff:
  assumes "tracks s A"
  shows "(\<exists>s'. rememberControl t x s = Inr s') \<longleftrightarrow> inj_on controlKey (insert (t, x) A)"
proof -
  from assms have inj: "inj_on controlKey A"
    and k: "\<And>k t d. map_of (rc_known s) k = Some (t, d) \<longleftrightarrow> (t, \<lparr>q_ID = k, q_Data = d\<rparr>) \<in> A"
    by (auto simp: tracks_def)
  show ?thesis
  proof (cases "map_of (rc_known s) (q_ID x)")
    case None
    have "q_ID x \<noteq> q_ID y" if "(t', y) \<in> A" for t' y
      using that k [of "q_ID y" t' "q_Data y"] None by auto
    then have "controlKey (t, x) \<notin> controlKey ` A" by force
    then have "inj_on controlKey (insert (t, x) A)" using inj unfolding inj_on_insert by blast
    then show ?thesis using None by (simp add: rememberControl_def)
  next
    case (Some v)
    obtain t' d where v: "v = (t', d)" by (cases v)
    then have m: "(t', \<lparr>q_ID = q_ID x, q_Data = d\<rparr>) \<in> A" using k Some by blast
    have "inj_on controlKey (insert (t, x) A) \<longleftrightarrow> (t, x) = (t', \<lparr>q_ID = q_ID x, q_Data = d\<rparr>)"
    proof
      assume "inj_on controlKey (insert (t, x) A)"
      then show "(t, x) = (t', \<lparr>q_ID = q_ID x, q_Data = d\<rparr>)" by (rule inj_onD) (use m in auto)
    next
      assume "(t, x) = (t', \<lparr>q_ID = q_ID x, q_Data = d\<rparr>)"
      with m have "insert (t, x) A = A" by (simp add: insert_absorb)
      with inj show "inj_on controlKey (insert (t, x) A)" by simp
    qed
    also have "\<dots> \<longleftrightarrow> t' = t \<and> d = q_Data x" by (cases x) auto
    finally show ?thesis using Some v by (auto simp: rememberControl_def)
  qed
qed

lemma rememberControl_ok:
  assumes "tracks s A" and "rememberControl t x s = Inr s'"
  shows "tracks s' (insert (t, x) A) \<and> rc_maps s' = rc_maps s \<and> rc_consumed s' = rc_consumed s"
proof -
  from assms rememberControl_iff have inj: "inj_on controlKey (insert (t, x) A)" by blast
  have maps: "rc_maps s' = rc_maps s \<and> rc_consumed s' = rc_consumed s"
    using assms(2) by (auto simp: rememberControl_def split: option.splits if_splits)
  then have p: "pool s' = pool s" by (simp add: pool_def)
  have "map_of (rc_known s') k = Some (t', d) \<longleftrightarrow> (t', \<lparr>q_ID = k, q_Data = d\<rparr>) \<in> insert (t, x) A" for k t' d
  proof (cases "map_of (rc_known s) (q_ID x)")
    case None
    then have "rc_known s' = (q_ID x, (t, q_Data x)) # rc_known s"
      using assms(2) by (auto simp: rememberControl_def)
    moreover have "(t', \<lparr>q_ID = q_ID x, q_Data = d\<rparr>) \<notin> A" using tracks_known [OF assms(1)] None by simp
    ultimately show ?thesis using assms(1) by (cases x) (auto simp: tracks_def)
  next
    case (Some v)
    then have "v = (t, q_Data x)" "s' = s"
      using assms(2) by (auto simp: rememberControl_def split: prod.splits if_splits)
    moreover from this have "(t, x) \<in> A" using tracks_known [OF assms(1)] Some by simp
    ultimately show ?thesis using assms(1) by (simp add: tracks_def insert_absorb)
  qed
  with inj maps p assms(1) show ?thesis by (auto simp: tracks_def)
qed


lemma tracks_maps:
  assumes "tracks s A" "rc_known s' = rc_known s" "length (rc_maps s') = 3" "pool s' \<subseteq> A"
    "\<And>u. u < 3 \<Longrightarrow> distinct (map fst (rc_maps s' ! u)) \<and> (\<forall>k y. map_of (rc_maps s' ! u) k = Some y \<longrightarrow> q_ID y = k)"
  shows "tracks s' A"
  using assms unfolding tracks_def by metis

lemma addControl_iff:
  assumes "tracks s A"
  shows "(\<exists>s'. addControl s p = Inr s') \<longleftrightarrow> inj_on controlKey (insert p A)"
proof -
  have "(\<exists>s'. addControl s p = Inr s') \<longleftrightarrow> (\<exists>s'. rememberControl (fst p) (snd p) s = Inr s')"
    by (auto simp: addControl_def err_simps split: prod.splits)
  then show ?thesis using rememberControl_iff [OF assms, of "fst p" "snd p"] by simp
qed

lemma addControl_ok:
  assumes t: "tracks s A" and p: "fst p < 3" and a: "addControl s p = Inr s'"
  shows "tracks s' (insert p A) \<and> pool s' = insert p (pool s) \<and> rc_consumed s' = rc_consumed s"
proof -
  obtain t x where px: "p = (t, x)" by (cases p)
  from a px obtain s1 where r: "rememberControl t x s = Inr s1"
    and s': "s' = s1\<lparr>rc_maps := (rc_maps s1)[t := AList.update (q_ID x) x (rc_maps s1 ! t)]\<rparr>"
    by (auto simp: addControl_def err_simps)
  from rememberControl_ok [OF t r] have t1: "tracks s1 (insert (t, x) A)" and e: "rc_maps s1 = rc_maps s"
    "rc_consumed s1 = rc_consumed s" by auto
  then have len: "length (rc_maps s1) = 3" by (simp add: tracks_def)
  have m: "map_of (rc_maps s' ! u) = (if u = t then (map_of (rc_maps s ! t))(q_ID x \<mapsto> x) else map_of (rc_maps s ! u))"
    if "u < 3" for u
    using that len e p px by (simp add: s' nth_list_update update_conv')
  have pool: "pool s' = insert (t, x) (pool s)"
  proof -
    have "(u, y) \<in> pool s' \<longleftrightarrow> (u, y) \<in> insert (t, x) (pool s)" for u y
    proof -
      have "y = x" if "(t, y) \<in> pool s" "q_ID y = q_ID x"
      proof -
        have "(t, y) \<in> insert (t, x) A" using that(1) t by (auto simp: tracks_def)
        moreover have "inj_on controlKey (insert (t, x) A)" using t1 by (simp add: tracks_def)
        ultimately have "(t, y) = (t, x)" using that(2) by (metis inj_onD insertI1 snd_conv)
        then show ?thesis by simp
      qed
      then have "(t, y) \<in> pool s \<longrightarrow> q_ID y = q_ID x \<longrightarrow> y = x" by blast
      moreover have "(u, y) \<in> pool s' \<longleftrightarrow> (if u = t \<and> q_ID y = q_ID x then x = y else (u, y) \<in> pool s)"
        using p px by (simp add: pool_def m cong: conj_cong)
      ultimately show ?thesis by (cases "u = t"; cases "q_ID y = q_ID x") auto
    qed
    then show ?thesis by auto
  qed
  have d: "distinct (map fst (rc_maps s' ! u)) \<and> (\<forall>k y. map_of (rc_maps s' ! u) k = Some y \<longrightarrow> q_ID y = k)"
    if "u < 3" for u
    using t1 len that p px unfolding m [OF that]
    by (auto simp: tracks_def e s' nth_list_update distinct_update)
  have ps: "pool s' \<subseteq> insert (t, x) A" using pool t by (auto simp: tracks_def)
  have "tracks s' (insert (t, x) A)" by (rule tracks_maps [OF t1 _ _ ps d]) (simp_all add: s' len)
  then show ?thesis using pool px e by (simp add: s')
qed


lemma foldE_addControl_iff:
  assumes "tracks s A" and "\<forall>p \<in> set L. fst p < 3"
  shows "(\<exists>s'. foldE addControl s L = Inr s') \<longleftrightarrow> inj_on controlKey (A \<union> set L)"
  using assms
proof (induction L arbitrary: s A)
  case Nil
  then show ?case by (simp add: tracks_def)
next
  case (Cons p L)
  show ?case
  proof (cases "addControl s p")
    case (Inl e)
    then have "\<not> inj_on controlKey (insert p A)" using addControl_iff [OF Cons.prems(1), of p] by (metis sum.distinct(1))
    then have "\<not> inj_on controlKey (A \<union> set (p # L))" using inj_on_subset [of controlKey _ "insert p A"] by auto
    with Inl show ?thesis by simp
  next
    case (Inr s1)
    with addControl_ok [OF Cons.prems(1) _ Inr] Cons.prems(2) have "tracks s1 (insert p A)" by simp
    from Cons.IH [OF this] Cons.prems(2) Inr show ?thesis by simp
  qed
qed

lemma foldE_addControl_ok:
  assumes "tracks s A" and "\<forall>p \<in> set L. fst p < 3" and "foldE addControl s L = Inr s'"
  shows "tracks s' (A \<union> set L) \<and> pool s' = pool s \<union> set L \<and> rc_consumed s' = rc_consumed s"
  using assms
proof (induction L arbitrary: s A)
  case (Cons p L)
  from Cons.prems(3) obtain s1 where s1: "addControl s p = Inr s1" "foldE addControl s1 L = Inr s'" by (auto simp: err_simps)
  from addControl_ok [OF Cons.prems(1) _ s1(1)] Cons.prems(2)
  have "tracks s1 (insert p A)" "pool s1 = insert p (pool s)" "rc_consumed s1 = rc_consumed s" by auto
  with Cons.IH [OF this(1) _ s1(2)] Cons.prems(2) show ?case by simp
qed simp

lemma consumeControl_ok:
  assumes t: "tracks s A" and p: "fst p < 3" and a: "consumeControl s p = Inr s'"
  shows "p \<in> pool s \<and> controlKey p \<notin> set (rc_consumed s) \<and> tracks s' A \<and> pool s' = pool s - {p}
    \<and> rc_consumed s' = controlKey p # rc_consumed s"
proof -
  obtain t x where px: "p = (t, x)" by (cases p)
  from a px obtain s1 y where r: "rememberControl t x s = Inr s1" and c: "q_ID x \<notin> set (rc_consumed s1)"
    and y: "map_of (rc_maps s1 ! t) (q_ID x) = Some y"
    and s': "s' = s1\<lparr>rc_consumed := q_ID x # rc_consumed s1,
      rc_maps := (rc_maps s1)[t := AList.delete (q_ID x) (rc_maps s1 ! t)]\<rparr>"
    by (auto simp: consumeControl_def err_simps split: if_splits)
  from rememberControl_ok [OF t r] have t1: "tracks s1 (insert (t, x) A)" and e: "rc_maps s1 = rc_maps s"
    "rc_consumed s1 = rc_consumed s" by auto
  then have len: "length (rc_maps s1) = 3" by (simp add: tracks_def)
  have qy: "q_ID y = q_ID x" using t1 y p px by (auto simp: tracks_def)
  have "(t, y) \<in> pool s" using y e p px qy by (simp add: pool_def)
  moreover from this have "(t, y) \<in> insert (t, x) A" using t by (auto simp: tracks_def)
  moreover have "inj_on controlKey (insert (t, x) A)" using t1 by (simp add: tracks_def)
  ultimately have "(t, y) = (t, x)" using qy by (metis inj_onD insertI1 snd_conv)
  then have yx: "y = x" by simp
  then have px': "(t, x) \<in> pool s" using \<open>(t, y) \<in> pool s\<close> by simp
  then have "insert (t, x) A = A" using t by (auto simp: tracks_def)
  with t1 have t1: "tracks s1 A" by simp
  have m: "map_of (rc_maps s' ! u) = (if u = t then (map_of (rc_maps s ! t))(q_ID x := None) else map_of (rc_maps s ! u))"
    if "u < 3" for u
    using that len e p px by (simp add: s' nth_list_update delete_conv')
  have "(u, z) \<in> pool s' \<longleftrightarrow> (u, z) \<in> pool s - {(t, x)}" for u z
  proof -
    have "(u, z) \<in> pool s' \<longleftrightarrow> \<not> (u = t \<and> q_ID z = q_ID x) \<and> (u, z) \<in> pool s"
      using p px by (simp add: pool_def m cong: conj_cong)
    moreover have "z = x" if "(t, z) \<in> pool s" "q_ID z = q_ID x"
      using that px' by (simp add: pool_def)
    ultimately show ?thesis by auto
  qed
  then have pool: "pool s' = pool s - {p}" using px by auto
  have d: "distinct (map fst (rc_maps s' ! u)) \<and> (\<forall>k y. map_of (rc_maps s' ! u) k = Some y \<longrightarrow> q_ID y = k)"
    if "u < 3" for u
    using t1 len that p px unfolding m [OF that]
    by (auto simp: tracks_def e s' nth_list_update distinct_delete split: if_splits)
  have ps: "pool s' \<subseteq> A" using pool t by (auto simp: tracks_def)
  have "tracks s' A" by (rule tracks_maps [OF t1 _ _ ps d]) (simp_all add: s' len)
  then show ?thesis using pool px px' c e by (simp add: s')
qed


lemma consumeControl_can:
  assumes t: "tracks s A" and p: "p \<in> pool s" and c: "controlKey p \<notin> set (rc_consumed s)"
  shows "\<exists>s'. consumeControl s p = Inr s'"
proof -
  obtain t x where px: "p = (t, x)" by (cases p)
  have "p \<in> A" using t p by (auto simp: tracks_def)
  then have "insert (t, x) A = A" using px by auto
  then have "inj_on controlKey (insert (t, x) A)" using t by (simp add: tracks_def)
  then obtain s1 where r: "rememberControl t x s = Inr s1" using rememberControl_iff [OF t, of t x] by blast
  from rememberControl_ok [OF t r] have "rc_maps s1 = rc_maps s" "rc_consumed s1 = rc_consumed s" by auto
  with r px p c show ?thesis by (simp add: consumeControl_def pool_def)
qed

lemma foldE_consumeControl_iff:
  assumes "tracks s A" and "\<forall>p \<in> set L. fst p < 3"
  shows "(\<exists>s'. foldE consumeControl s L = Inr s') \<longleftrightarrow>
    set L \<subseteq> pool s \<and> distinct (map controlKey L) \<and> controlKey ` set L \<inter> set (rc_consumed s) = {}"
  using assms
proof (induction L arbitrary: s)
  case (Cons p L)
  show ?case
  proof (cases "consumeControl s p")
    case (Inl e)
    then have "p \<notin> pool s \<or> controlKey p \<in> set (rc_consumed s)"
      using consumeControl_can [OF Cons.prems(1), of p] by (metis sum.distinct(1))
    with Inl show ?thesis by auto
  next
    case (Inr s1)
    from consumeControl_ok [OF Cons.prems(1) _ Inr] Cons.prems(2)
    have o: "p \<in> pool s" "controlKey p \<notin> set (rc_consumed s)" "tracks s1 A" "pool s1 = pool s - {p}"
      "rc_consumed s1 = controlKey p # rc_consumed s" by auto
    have "(\<exists>s'. foldE consumeControl s (p # L) = Inr s') \<longleftrightarrow> (\<exists>s'. foldE consumeControl s1 L = Inr s')" using Inr by simp
    also have "\<dots> \<longleftrightarrow> set L \<subseteq> pool s1 \<and> distinct (map controlKey L) \<and> controlKey ` set L \<inter> set (rc_consumed s1) = {}"
      using Cons.IH [OF o(3)] Cons.prems(2) by simp
    also have "\<dots> \<longleftrightarrow> set (p # L) \<subseteq> pool s \<and> distinct (map controlKey (p # L))
        \<and> controlKey ` set (p # L) \<inter> set (rc_consumed s) = {}"
      unfolding o(4,5) using o(1,2) by (simp add: disjoint_iff image_iff) blast
    finally show ?thesis .
  qed
qed simp

lemma foldE_consumeControl_ok:
  assumes "tracks s A" and "\<forall>p \<in> set L. fst p < 3" and "foldE consumeControl s L = Inr s'"
  shows "tracks s' A \<and> pool s' = pool s - set L"
  using assms
proof (induction L arbitrary: s)
  case (Cons p L)
  from Cons.prems(3) obtain s1 where s1: "consumeControl s p = Inr s1" "foldE consumeControl s1 L = Inr s'" by (auto simp: err_simps)
  from consumeControl_ok [OF Cons.prems(1) _ s1(1)] Cons.prems(2)
  have "tracks s1 A" "pool s1 = pool s - {p}" by auto
  with Cons.IH [OF this(1) _ s1(2)] Cons.prems(2) show ?case by auto
qed simp

text \<open>The typed controls recorded by the blocks of a path, oldest block first.\<close>

definition pathControls ::
  "(hash \<Rightarrow> error + storedExecutionRequestRecord option) \<Rightarrow> block list \<Rightarrow> error + (nat \<times> queuedExecutionRequest) list" where
  "pathControls loadRecord path =
     bindE (mapE (\<lambda>b. loadRecord (b_Hash b)) (rev path)) (\<lambda>rs.
       Inr (concat (map (\<lambda>r. case r of None \<Rightarrow> [] | Some r \<Rightarrow> typedControls (er_Controls r)) rs)))"

lemma reconcilePath_iff:
  "reconcilePath load step path s = Inr s' \<longleftrightarrow>
     (\<exists>L. pathControls load path = Inr L \<and> foldE step s L = Inr s')"
proof -
  have "foldE (\<lambda>s b. bindE (load (b_Hash b)) (\<lambda>found. case found of None \<Rightarrow> Inr s
          | Some record \<Rightarrow> foldE step s (typedControls (er_Controls record)))) s bs = Inr s' \<longleftrightarrow>
     (\<exists>rs. mapE (\<lambda>b. load (b_Hash b)) bs = Inr rs \<and> foldE step s
        (concat (map (\<lambda>r. case r of None \<Rightarrow> [] | Some r \<Rightarrow> typedControls (er_Controls r)) rs)) = Inr s')" for bs
  proof (induction bs arbitrary: s)
    case (Cons b bs)
    show ?case
    proof (cases "load (b_Hash b)")
      case (Inr f)
      then show ?thesis by (cases f) (auto simp: err_simps Cons.IH foldE_append)
    qed simp
  qed auto
  then show ?thesis by (auto simp: reconcilePath_def pathControls_def err_simps)
qed

lemma typedControls_lt: "p \<in> set (typedControls c) \<Longrightarrow> fst p < 3"
  by (auto simp: typedControls_def)

lemma pathControls_lt: "pathControls load path = Inr L \<Longrightarrow> p \<in> set L \<Longrightarrow> fst p < 3"
  by (auto simp: pathControls_def err_simps typedControls_lt split: option.splits)

lemma set_typedControls: "(t, x) \<in> set (typedControls c) \<longleftrightarrow> x \<in> set (controlsOf t c)"
  by (auto simp: typedControls_def controlsOf_def)

lemma map_typedControls: "map controlKey (typedControls c) = controlIDs c"
  by (simp add: typedControls_def controlIDs_def comp_def)


text \<open>A list of items with strictly increasing IDs is determined by its elements.\<close>

lemma sorted_ids_unique:
  assumes "sorted_wrt (<) (map q_ID xs)" and "sorted_wrt (<) (map q_ID ys)" and "set xs = set ys"
  shows "xs = ys"
proof -
  have s: "sorted zs \<and> distinct zs" if "sorted_wrt (<) zs" for zs :: "u64 list"
    using that strict_sorted_iff by blast
  have "map q_ID xs = map q_ID ys"
    using s [OF assms(1)] s [OF assms(2)] assms(3) by (intro sorted_distinct_set_unique) auto
  moreover have "inj_on q_ID (set xs)" using s [OF assms(1)] by (simp add: distinct_map)
  ultimately show ?thesis using assms(3) by (metis inj_on_map_eq_map Un_absorb)
qed

lemma validControls_unique:
  assumes "validControls c" "validControls d" "set (typedControls c) = set (typedControls d)"
  shows "controlsOf t c = controlsOf t d"
proof -
  have "x \<in> set (controlsOf t c) \<longleftrightarrow> x \<in> set (controlsOf t d)" for x
    using assms(3) by (metis set_typedControls)
  moreover have "sorted_wrt (<) (map q_ID (controlsOf t c))" "sorted_wrt (<) (map q_ID (controlsOf t d))"
    using assms(1,2) by (auto simp: validControls_def validItems_def controlsOf_def)
  ultimately show ?thesis by (intro sorted_ids_unique) auto
qed

lemma controls_eqI:
  fixes c d :: executionRequestQueue
  assumes "\<And>t. controlsOf t c = controlsOf t d" "rq_NextID c = rq_NextID d" "rq_Format c = rq_Format d"
  shows "c = d"
  using assms(1) [of 0] assms(1) [of 1] assms(1) [of 2] assms(2,3)
  by (cases c; cases d) (simp add: controlsOf_def)

lemma toSortedSlice_set:
  assumes "tracks s A" and "t < 3"
  shows "x \<in> set (toSortedSlice (rc_maps s ! t)) \<longleftrightarrow> (t, x) \<in> pool s"
proof -
  from assms have d: "distinct (map fst (rc_maps s ! t))"
    and k: "\<And>k x. map_of (rc_maps s ! t) k = Some x \<Longrightarrow> q_ID x = k" by (auto simp: tracks_def)
  have "x \<in> set (map snd (rc_maps s ! t)) \<longleftrightarrow> (\<exists>k. map_of (rc_maps s ! t) k = Some x)"
    using d by (force simp: map_of_eq_Some_iff)
  also have "\<dots> \<longleftrightarrow> map_of (rc_maps s ! t) (q_ID x) = Some x" using k by blast
  finally show ?thesis using assms(2) by (simp add: toSortedSlice_def pool_def)
qed

lemma toSortedSlice_sorted:
  assumes "tracks s A" and "t < 3"
  shows "sorted_wrt (<) (map q_ID (toSortedSlice (rc_maps s ! t)))"
proof -
  let ?m = "rc_maps s ! t"
  from assms have d: "distinct (map fst ?m)" and k: "\<And>k x. map_of ?m k = Some x \<Longrightarrow> q_ID x = k"
    by (auto simp: tracks_def)
  have "q_ID (snd p) = fst p" if "p \<in> set ?m" for p
    using that k [of "fst p" "snd p"] d by (simp add: map_of_eq_Some_iff)
  then have "map q_ID (map snd ?m) = map fst ?m" by simp
  with d have "distinct (map q_ID (map snd ?m))" by argo
  then have "distinct (map q_ID (sort_key q_ID (map snd ?m)))"
    by (metis distinct_map distinct_sort set_sort)
  then show ?thesis by (simp add: toSortedSlice_def strict_sorted_iff)
qed

text \<open>
  The queue assembled from a working state, and the successful runs of the three loops.
\<close>

definition reconcileResult :: "executionRequestQueue \<Rightarrow> reconcileState \<Rightarrow> executionRequestQueue" where
  "reconcileResult q s = q\<lparr>cs_Deposits := toSortedSlice (rc_maps s ! 0),
     cs_Withdrawals := toSortedSlice (rc_maps s ! 1), cs_Consolidations := toSortedSlice (rc_maps s ! 2)\<rparr>"

lemma controlsOf_reconcileResult:
  "controlsOf t (reconcileResult q s) = (if t < 3 then toSortedSlice (rc_maps s ! t) else [])"
proof -
  have "t = 0 \<or> t = 1 \<or> t = 2 \<or> \<not> t < 3" by auto
  then show ?thesis by (elim disjE) (simp_all add: reconcileResult_def controlsOf_def)
qed

lemma reconcileResult_set:
  assumes "tracks s A"
  shows "set (typedControls (reconcileResult q s)) = pool s"
proof -
  have "(t, x) \<in> pool s \<Longrightarrow> t < 3" for t x by (simp add: pool_def)
  then have "(t, x) \<in> set (typedControls (reconcileResult q s)) \<longleftrightarrow> (t, x) \<in> pool s" for t x
    using toSortedSlice_set [OF assms] by (auto simp: set_typedControls controlsOf_reconcileResult split: if_splits)
  then show ?thesis by auto
qed

lemma reconcileResult_eq:
  assumes "tracks s A" "validControls q'" "set (typedControls q') = pool s"
    "rq_NextID q' = rq_NextID q" "rq_Format q' = rq_Format q"
  shows "reconcileResult q s = q'"
proof (rule controls_eqI)
  fix t
  show "controlsOf t (reconcileResult q s) = controlsOf t q'"
  proof (rule sorted_ids_unique)
    show "sorted_wrt (<) (map q_ID (controlsOf t (reconcileResult q s)))"
      using toSortedSlice_sorted [OF assms(1)] by (simp add: controlsOf_reconcileResult)
    show "sorted_wrt (<) (map q_ID (controlsOf t q'))"
      using assms(2) by (simp add: validControls_def validItems_def controlsOf_def)
    show "set (controlsOf t (reconcileResult q s)) = set (controlsOf t q')"
      using reconcileResult_set [OF assms(1), of q] assms(3) set_typedControls by (metis subsetI subset_antisym)
  qed
qed (simp_all add: assms reconcileResult_def)

definition reconcileRun ::
  "executionRequestQueue \<Rightarrow> (nat \<times> queuedExecutionRequest) list \<Rightarrow> (nat \<times> queuedExecutionRequest) list
   \<Rightarrow> error + reconcileState" where
  "reconcileRun q R C =
     bindE (foldE addControl \<lparr>rc_known = [], rc_maps = [[], [], []], rc_consumed = []\<rparr> (typedControls q)) (\<lambda>s.
     bindE (foldE addControl s R) (\<lambda>s. foldE consumeControl s C))"

lemma reconcile_run:
  "reconcileExecutionRequestQueue load q old new = Inr q' \<longleftrightarrow>
     (\<exists>R C s. pathControls load old = Inr R \<and> pathControls load new = Inr C \<and> reconcileRun q R C = Inr s
        \<and> validControls q' \<and> q' = reconcileResult q s)"
  by (simp add: reconcileExecutionRequestQueue_def reconcileRun_def err_simps Let_def reconcilePath_iff
      reconcileResult_def validateExecutionRequestControlSet_iff [symmetric]) blast

lemma reconcileRun_iff:
  fixes q :: executionRequestQueue
  assumes R: "\<forall>p \<in> set R. fst p < 3" and C: "\<forall>p \<in> set C. fst p < 3"
  defines "Q \<equiv> set (typedControls q)"
  shows "(\<exists>s. reconcileRun q R C = Inr s) \<longleftrightarrow>
      inj_on controlKey (Q \<union> set R) \<and> set C \<subseteq> Q \<union> set R \<and> distinct (map controlKey C)" (is "?l \<longleftrightarrow> ?r")
    and "reconcileRun q R C = Inr s \<Longrightarrow> tracks s (Q \<union> set R) \<and> pool s = Q \<union> set R - set C"
proof -
  let ?s0 = "\<lparr>rc_known = [], rc_maps = [[], [], []], rc_consumed = []\<rparr>"
  have t0: "tracks ?s0 {}" and p0: "pool ?s0 = {}"
    by (auto simp: tracks_def pool_def nth_Cons' numeral_3_eq_3 less_Suc_eq)
  have L: "\<forall>p \<in> set (typedControls q @ R). fst p < 3" using R typedControls_lt by auto
  have run: "reconcileRun q R C = bindE (foldE addControl ?s0 (typedControls q @ R)) (\<lambda>s. foldE consumeControl s C)"
    by (cases "foldE addControl ?s0 (typedControls q)") (simp_all add: reconcileRun_def foldE_append)
  have add: "(\<exists>s. foldE addControl ?s0 (typedControls q @ R) = Inr s) \<longleftrightarrow> inj_on controlKey (Q \<union> set R)"
    using foldE_addControl_iff [OF t0 L] by (simp add: Q_def)
  have ok: "tracks s (Q \<union> set R)" "pool s = Q \<union> set R" "rc_consumed s = []"
    if "foldE addControl ?s0 (typedControls q @ R) = Inr s" for s
    using foldE_addControl_ok [OF t0 L that] p0 by (simp_all add: Q_def)
  show "?l \<longleftrightarrow> ?r"
  proof (cases "foldE addControl ?s0 (typedControls q @ R)")
    case (Inl e)
    with add show ?thesis by (auto simp: run)
  next
    case (Inr s)
    with add foldE_consumeControl_iff [OF ok(1) [OF Inr] C] ok [OF Inr] show ?thesis by (auto simp: run)
  qed
  show "tracks s (Q \<union> set R) \<and> pool s = Q \<union> set R - set C" if "reconcileRun q R C = Inr s"
    using that foldE_consumeControl_ok [OF ok(1) C] ok(2) by (auto simp: run err_simps)
qed

text \<open>
  When the reconciliation succeeds, and what it gives: the pending and the released controls
  must agree, the new path must consume each of its controls once and only available ones;
  the result has exactly the controls left.
\<close>

lemma reconcile_iff:
  "reconcileExecutionRequestQueue load q old new = Inr q' \<longleftrightarrow>
     (\<exists>R C. pathControls load old = Inr R \<and> pathControls load new = Inr C
        \<and> inj_on controlKey (set (typedControls q) \<union> set R)
        \<and> set C \<subseteq> set (typedControls q) \<union> set R \<and> distinct (map controlKey C)
        \<and> validControls q' \<and> set (typedControls q') = set (typedControls q) \<union> set R - set C
        \<and> rq_NextID q' = rq_NextID q \<and> rq_Format q' = rq_Format q)" (is "?l \<longleftrightarrow> ?r")
proof
  assume ?l
  then obtain R C s where h: "pathControls load old = Inr R" "pathControls load new = Inr C"
    "reconcileRun q R C = Inr s" "validControls q'" "q' = reconcileResult q s" unfolding reconcile_run by blast
  note lt = ballI [OF pathControls_lt [OF h(1)]] ballI [OF pathControls_lt [OF h(2)]]
  from reconcileRun_iff(1) [OF lt, where q = q] h(3) have "inj_on controlKey (set (typedControls q) \<union> set R)"
    "set C \<subseteq> set (typedControls q) \<union> set R" "distinct (map controlKey C)" by blast+
  moreover have "set (typedControls q') = set (typedControls q) \<union> set R - set C"
    using reconcileRun_iff(2) [OF lt h(3)] reconcileResult_set h(5) by metis
  moreover have "rq_NextID q' = rq_NextID q" "rq_Format q' = rq_Format q" using h(5) by (simp_all add: reconcileResult_def)
  ultimately show ?r using h(1,2,4) by blast
next
  assume ?r
  then obtain R C where h: "pathControls load old = Inr R" "pathControls load new = Inr C"
      "inj_on controlKey (set (typedControls q) \<union> set R)" "set C \<subseteq> set (typedControls q) \<union> set R"
      "distinct (map controlKey C)" "validControls q'" "set (typedControls q') = set (typedControls q) \<union> set R - set C"
      "rq_NextID q' = rq_NextID q" "rq_Format q' = rq_Format q" by blast
  note lt = ballI [OF pathControls_lt [OF h(1)]] ballI [OF pathControls_lt [OF h(2)]]
  from reconcileRun_iff(1) [OF lt] h obtain s where s: "reconcileRun q R C = Inr s" by blast
  with reconcileRun_iff(2) [OF lt s] h have "q' = reconcileResult q s"
    by (metis reconcileResult_eq)
  then show ?l using h s unfolding reconcile_run by blast
qed

lemma prepare_InrD:
  assumes "prepareExecutionRequestBlock calc hh b native q = Inr p"
  shows "verifyExecutionRequestsHash calc b native = Inr ()" "\<exists>r. parseExecutionRequests native = Inr r"
  using assms by (auto simp: prepareExecutionRequestBlock_def err_simps)

lemma prepare_spec:
  assumes "validControls q" and "prepareExecutionRequestBlock calc hh b native q = Inr p"
  shows "preparedFrom calc native q p"
proof -
  from prepare_InrD [OF assms(2)] obtain r where v: "verifyExecutionRequestsHash calc b native = Inr ()"
    and r: "parseExecutionRequests native = Inr r" by blast
  show ?thesis
  proof (cases native)
    case None
    with prepare_None [of calc b hh q] v assms(2) show ?thesis by auto
  next
    case (Some bs)
    with r obtain r' where "r = Some r'" by (cases r) auto
    with prepare_Some [of calc b bs r' q hh] Some v r assms show ?thesis by auto
  qed
qed

lemma validQueue_remaining:
  assumes "validQueue q" and "preparedFrom calc native q p"
  shows "validQueue (pb_Remaining p)" and "validControls (er_Controls (pb_Record p))"
proof -
  have e: "controlsOf t (er_Controls (pb_Record p)) @ controlsOf t (pb_Remaining p) = controlsOf t q" for t
    using assms(2) by (simp add: preparedFrom_def)
  have v: "validControls q" using assms(1) by (simp add: validQueue_def)
  have d: "controlsOf t (pb_Remaining p) = drop (length (controlsOf t (er_Controls (pb_Record p)))) (controlsOf t q)"
    "controlsOf t (er_Controls (pb_Record p)) = take (length (controlsOf t (er_Controls (pb_Record p)))) (controlsOf t q)" for t
    by (simp_all flip: e)
  have r: "validControls (pb_Remaining p)" by (rule validControls_take_drop [OF v]) (use d(1) in blast)
  have s: "set (controlsOf t (pb_Remaining p)) \<subseteq> set (controlsOf t q)" for t by (simp flip: e)
  have "set (controlIDs (pb_Remaining p)) \<subseteq> set (controlIDs q)"
    using s [of 0] s [of 1] s [of 2] by (auto simp: controlIDs_def controlsOf_def)
  then show "validQueue (pb_Remaining p)"
    using assms r by (auto simp: validQueue_def preparedFrom_def)
  show "validControls (er_Controls (pb_Record p))" by (rule validControls_take_drop [OF v]) (use d(2) in blast)
qed

section \<open>Properties\<close>

text \<open>C21: the validation of a persisted queue accepts exactly the well-formed queues: known format,
  non-zero IDs strictly increasing within each type and distinct across the types, entries of the
  protocol width, and a next ID above every pending one.\<close>

theorem queue_validation_exact: "validateExecutionRequestQueue q = Inr () \<longleftrightarrow> validQueue q"
  by (rule validateExecutionRequestQueue_iff)

text \<open>C19: enqueueing a request on a valid queue keeps it valid, appends exactly one entry with a
  fresh ID to the list of its type and leaves the other two lists unchanged.\<close>

theorem enqueue_appends:
  assumes "validQueue q" and "enqueue q requestType data = Inr q'"
  shows "validQueue q' \<and> rq_NextID q \<notin> set (controlIDs q)
    \<and> (\<forall>t. controlsOf t q' = controlsOf t q
        @ (if t = unat requestType then [\<lparr>q_ID = rq_NextID q, q_Data = data\<rparr>] else []))"
  using enqueue_valid [OF assms] enqueue_ok [OF assms(2)] assms(1) by (auto simp: validQueue_def)

theorem enqueue_appends_witness:
  "\<exists>q'. enqueue newExecutionRequestQueue 1 (replicate 76 0) = Inr q' \<and> validQueue q'
     \<and> controlsOf 1 q' = [\<lparr>q_ID = 1, q_Data = replicate 76 0\<rparr>]"
proof -
  obtain q' where e: "enqueue newExecutionRequestQueue 1 (replicate 76 0) = Inr q'"
    using enqueue_Inr_iff [of newExecutionRequestQueue 1 "replicate 76 0"]
    by (auto simp: newExecutionRequestQueue_def controlsOf_def entry_width_def requestLimit_def)
  have "validQueue q'" "controlsOf 1 q' = controlsOf 1 newExecutionRequestQueue
      @ [\<lparr>q_ID = rq_NextID newExecutionRequestQueue, q_Data = replicate 76 0\<rparr>]"
    using enqueue_appends [OF validQueue_new e] by auto
  then show ?thesis using e by (auto simp: newExecutionRequestQueue_def controlsOf_def)
qed

text \<open>C20: enqueueing succeeds exactly for a known type, an entry of its length, a list of that
  type that is not full, and a next ID that is neither zero nor the largest one.\<close>

theorem enqueue_succeeds_iff:
  "(\<exists>q'. enqueue q requestType data = Inr q') \<longleftrightarrow>
     requestType \<le> 2 \<and> length data = entry_width (unat requestType)
     \<and> length (controlsOf (unat requestType) q) < requestLimit (unat requestType)
     \<and> rq_NextID q \<noteq> 0 \<and> rq_NextID q \<noteq> - 1"
  by (rule enqueue_Inr_iff)

text \<open>C9: building a block on a valid queue splits it: for each type the controls the block records
  followed by the remaining entries are the queue in order, the remaining queue is valid, the
  recorded request list decodes to the block's requests, the record validates, and the (re)sealed
  header commits to the recorded list.\<close>

theorem prepare_splits_queue:
  assumes "validQueue q" and "prepareExecutionRequestBlock calcRequestsHash headerHash b native q = Inr p"
  shows "(\<forall>t. controlsOf t (er_Controls (pb_Record p)) @ controlsOf t (pb_Remaining p) = controlsOf t q)
    \<and> validQueue (pb_Remaining p) \<and> rq_NextID (pb_Remaining p) = rq_NextID q
    \<and> parseExecutionRequests (er_Requests (pb_Record p)) = Inr (pb_Requests p)
    \<and> validateExecutionRequestRecord (pb_Record p) = Inr ()
    \<and> verifyExecutionRequestsHash calcRequestsHash (pb_Block p) (er_Requests (pb_Record p)) = Inr ()"
proof -
  have "validControls q" using assms(1) by (simp add: validQueue_def)
  then have p: "preparedFrom calcRequestsHash native q p" using assms(2) by (rule prepare_spec)
  with validQueue_remaining(1) [OF assms(1) p] show ?thesis by (simp add: preparedFrom_def)
qed


text \<open>A Prague block without native requests, and a queue with two withdrawal requests.\<close>

definition exampleBlock :: block where
  "exampleBlock = \<lparr>b_Hash = 1, b_Header = zeroHeader\<lparr>h_Number := 1, h_Time := 12, h_RequestsHash := Some 0\<rparr>,
     b_Transactions = [], b_Withdrawals = [], b_AccessList = None\<rparr>"

definition exampleItem :: "u64 \<Rightarrow> queuedExecutionRequest" where
  "exampleItem i = \<lparr>q_ID = i, q_Data = replicate 76 0\<rparr>"

definition exampleQueue :: executionRequestQueue where
  "exampleQueue = newExecutionRequestQueue\<lparr>cs_Withdrawals := [exampleItem 1, exampleItem 2], rq_NextID := 4\<rparr>"

lemma exampleQueue_valid: "validQueue exampleQueue"
  by (simp add: exampleQueue_def exampleItem_def newExecutionRequestQueue_def validQueue_def validControls_def
      controlIDs_def validItems_def)

lemma example_verify: "verifyExecutionRequestsHash (\<lambda>_. 0) exampleBlock (Some []) = Inr ()"
  by (simp add: verifyExecutionRequestsHash_def exampleBlock_def)

lemma example_parse: "parseExecutionRequests (Some []) = Inr (Some emptyRequests)"
  by (simp add: parseExecutionRequests_def emptyRequests_def)

lemma example_prepare:
  "\<exists>p r'. prepareExecutionRequestBlock (\<lambda>_. 0) (\<lambda>_. 7) exampleBlock (Some []) exampleQueue = Inr p
     \<and> pb_Requests p = Some r' \<and> controlsOf 1 (er_Controls (pb_Record p)) = controlsOf 1 exampleQueue"
proof -
  have v: "validControls exampleQueue" using exampleQueue_valid by (simp add: validQueue_def)
  obtain p r' where p: "prepareExecutionRequestBlock (\<lambda>_. 0) (\<lambda>_. 7) exampleBlock (Some []) exampleQueue = Inr p"
    "preparedFrom (\<lambda>_. 0) (Some []) exampleQueue p" "pb_Requests p = Some r'"
    "\<forall>t < 3. length (controlsOf t (er_Controls (pb_Record p))) = takenCount t emptyRequests exampleQueue"
    using prepare_Some [OF example_verify example_parse v] by blast
  have "length (controlsOf 1 (er_Controls (pb_Record p))) = length (controlsOf 1 exampleQueue)"
    using p(4) [rule_format, of 1]
    by (simp add: takenCount_def requestLimit_def exampleQueue_def controlsOf_def length_grp emptyRequests_def)
  moreover have "controlsOf 1 (er_Controls (pb_Record p)) @ controlsOf 1 (pb_Remaining p) = controlsOf 1 exampleQueue"
    using p(2) by (simp add: preparedFrom_def)
  ultimately have "controlsOf 1 (er_Controls (pb_Record p)) = controlsOf 1 exampleQueue"
    by (metis append_eq_conv_conj length_append add_cancel_left_right length_0_conv append_Nil2)
  with p show ?thesis by blast
qed

theorem prepare_splits_queue_witness:
  "\<exists>p. prepareExecutionRequestBlock (\<lambda>_. 0) (\<lambda>_. 7) exampleBlock (Some []) exampleQueue = Inr p
     \<and> er_Controls (pb_Record p) \<noteq> emptyControls \<and> validQueue (pb_Remaining p)
     \<and> validateExecutionRequestRecord (pb_Record p) = Inr ()"
proof -
  obtain p where p: "prepareExecutionRequestBlock (\<lambda>_. 0) (\<lambda>_. 7) exampleBlock (Some []) exampleQueue = Inr p"
    "controlsOf 1 (er_Controls (pb_Record p)) = controlsOf 1 exampleQueue" using example_prepare by blast
  then have "er_Controls (pb_Record p) \<noteq> emptyControls"
    by (auto simp: exampleQueue_def controlsOf_def emptyControls_def)
  with p prepare_splits_queue [OF exampleQueue_valid p(1)] show ?thesis by blast
qed

text \<open>C10: on a valid queue, building fails only when the native requests do not match the header
  or do not parse; each block takes as many queued requests of a type as the protocol limit
  leaves room for, never more.\<close>

theorem prepare_total_and_maximal:
  assumes "validQueue q"
  shows "((\<exists>p. prepareExecutionRequestBlock calcRequestsHash headerHash b native q = Inr p) \<longleftrightarrow>
      verifyExecutionRequestsHash calcRequestsHash b native = Inr () \<and> (\<exists>r. parseExecutionRequests native = Inr r))
    \<and> (\<forall>p r. prepareExecutionRequestBlock calcRequestsHash headerHash b native q = Inr p \<longrightarrow>
         parseExecutionRequests native = Inr (Some r) \<longrightarrow>
         (\<exists>r'. pb_Requests p = Some r' \<and> withinLimits r'
            \<and> (\<forall>t < 3. length (controlsOf t (er_Controls (pb_Record p)))
                 = min (requestLimit t - length (grp t r)) (length (controlsOf t q)))
            \<and> (\<forall>t. grp t r' = grp t r @ map q_Data (controlsOf t (er_Controls (pb_Record p))))))"
    (is "(?l \<longleftrightarrow> ?v) \<and> ?max")
proof -
  have v: "validControls q" using assms by (simp add: validQueue_def)
  have "?l" if ?v
  proof (cases native)
    case None
    with prepare_None that show ?thesis by blast
  next
    case (Some bs)
    with that obtain r where "parseExecutionRequests (Some bs) = Inr (Some r)" by (metis not_None_eq parse_Some_None)
    with prepare_Some that Some v show ?thesis by blast
  qed
  moreover have ?max
  proof (intro allI impI)
    fix p r assume p: "prepareExecutionRequestBlock calcRequestsHash headerHash b native q = Inr p"
      and r: "parseExecutionRequests native = Inr (Some r)"
    then obtain bs where bs: "native = Some bs" by (cases native) auto
    from prepare_Some [OF _ r [unfolded bs] v, of calcRequestsHash b headerHash] prepare_InrD(1) [OF p] p bs
    obtain r' where "preparedFrom calcRequestsHash native q p" "pb_Requests p = Some r'"
      "\<forall>t < 3. length (controlsOf t (er_Controls (pb_Record p))) = takenCount t r q"
      "\<forall>t. grp t r' = grp t r @ map q_Data (controlsOf t (er_Controls (pb_Record p)))" by auto
    moreover from this have "withinLimits r'" using parse_ok [of "er_Requests (pb_Record p)" r'] by (simp add: preparedFrom_def)
    ultimately show "\<exists>r'. pb_Requests p = Some r' \<and> withinLimits r'
            \<and> (\<forall>t < 3. length (controlsOf t (er_Controls (pb_Record p)))
                 = min (requestLimit t - length (grp t r)) (length (controlsOf t q)))
            \<and> (\<forall>t. grp t r' = grp t r @ map q_Data (controlsOf t (er_Controls (pb_Record p))))"
      unfolding takenCount_def by blast
  qed
  ultimately show ?thesis using prepare_InrD by blast
qed

theorem prepare_total_and_maximal_witness:
  "\<exists>p. prepareExecutionRequestBlock (\<lambda>_. 0) (\<lambda>_. 7) exampleBlock (Some []) exampleQueue = Inr p
     \<and> length (controlsOf 1 (er_Controls (pb_Record p))) = 2"
proof -
  note t = prepare_total_and_maximal [OF exampleQueue_valid, of "\<lambda>_. 0" "\<lambda>_. 7" exampleBlock "Some []"]
  from t example_verify example_parse
  obtain p where p: "prepareExecutionRequestBlock (\<lambda>_. 0) (\<lambda>_. 7) exampleBlock (Some []) exampleQueue = Inr p" by blast
  with t example_parse have "\<forall>t < 3. length (controlsOf t (er_Controls (pb_Record p)))
      = min (requestLimit t - length (grp t emptyRequests)) (length (controlsOf t exampleQueue))" by blast
  from this [rule_format, of 1] have "length (controlsOf 1 (er_Controls (pb_Record p))) = 2"
    by (simp add: exampleQueue_def controlsOf_def requestLimit_def)
  with p show ?thesis by blast
qed


text \<open>C6: reconciliation at a chain switch succeeds exactly when the pending and the released
  controls agree on every ID and the new path consumes each control once and only available
  ones; the resulting queue is well-formed and has exactly the pending and released controls
  that the new path does not consume. No control is lost and none is duplicated.\<close>

theorem reconcile_exact:
  "reconcileExecutionRequestQueue loadRecord q oldPath newPath = Inr q' \<longleftrightarrow>
     (\<exists>released consumed. pathControls loadRecord oldPath = Inr released \<and> pathControls loadRecord newPath = Inr consumed
        \<and> inj_on controlKey (set (typedControls q) \<union> set released)
        \<and> set consumed \<subseteq> set (typedControls q) \<union> set released \<and> distinct (map controlKey consumed)
        \<and> validControls q' \<and> set (typedControls q') = set (typedControls q) \<union> set released - set consumed
        \<and> rq_NextID q' = rq_NextID q \<and> rq_Format q' = rq_Format q)"
  by (rule reconcile_iff)

text \<open>C7: a reorganisation is undone exactly: if no pending request is consumed on the old path and
  the old path consumes no request twice, switching to the new path and back restores the queue.\<close>

theorem reconcile_roundtrip:
  assumes "validControls q" and "pathControls loadRecord oldPath = Inr released"
    and "distinct (map controlKey released)" and "set released \<inter> set (typedControls q) = {}"
    and "reconcileExecutionRequestQueue loadRecord q oldPath newPath = Inr q'"
  shows "reconcileExecutionRequestQueue loadRecord q' newPath oldPath = Inr q"
proof -
  from assms(2,5) obtain C where h: "pathControls loadRecord newPath = Inr C"
    "inj_on controlKey (set (typedControls q) \<union> set released)" "set C \<subseteq> set (typedControls q) \<union> set released"
    "distinct (map controlKey C)" "validControls q'" "set (typedControls q') = set (typedControls q) \<union> set released - set C"
    "rq_NextID q' = rq_NextID q" "rq_Format q' = rq_Format q" unfolding reconcile_iff by auto
  have "set (typedControls q') \<union> set C = set (typedControls q) \<union> set released" using h(3,6) by blast
  moreover have "set (typedControls q) = set (typedControls q) \<union> set released - set released" using assms(4) by blast
  ultimately show ?thesis unfolding reconcile_iff using assms(1-3) h by auto
qed

text \<open>Two single-block branches: the old one consumed control 3, the new one consumes control 1.\<close>

definition exampleLoad :: "hash \<Rightarrow> error + storedExecutionRequestRecord option" where
  "exampleLoad h = Inr (if h = 5 \<or> h = 6 then Some \<lparr>er_Format = 1, er_NativeRequests = Some [],
     er_Requests = None, er_Controls = emptyControls\<lparr>cs_Withdrawals := [exampleItem (if h = 5 then 3 else 1)]\<rparr>\<rparr>
     else None)"

lemma example_reconcile:
  "reconcileExecutionRequestQueue exampleLoad exampleQueue [exampleBlock\<lparr>b_Hash := 5\<rparr>] [exampleBlock\<lparr>b_Hash := 6\<rparr>]
     = Inr (exampleQueue\<lparr>cs_Withdrawals := [exampleItem 2, exampleItem 3]\<rparr>)"
  by (simp add: reconcile_iff pathControls_def exampleLoad_def typedControls_def exampleQueue_def exampleItem_def
      newExecutionRequestQueue_def emptyControls_def validControls_def controlIDs_def validItems_def)

theorem reconcile_roundtrip_witness:
  "reconcileExecutionRequestQueue exampleLoad exampleQueue [exampleBlock\<lparr>b_Hash := 5\<rparr>] [exampleBlock\<lparr>b_Hash := 6\<rparr>]
     = Inr (exampleQueue\<lparr>cs_Withdrawals := [exampleItem 2, exampleItem 3]\<rparr>)
   \<and> reconcileExecutionRequestQueue exampleLoad (exampleQueue\<lparr>cs_Withdrawals := [exampleItem 2, exampleItem 3]\<rparr>)
       [exampleBlock\<lparr>b_Hash := 6\<rparr>] [exampleBlock\<lparr>b_Hash := 5\<rparr>] = Inr exampleQueue"
proof -
  have "validControls exampleQueue" using exampleQueue_valid by (simp add: validQueue_def)
  moreover have "pathControls exampleLoad [exampleBlock\<lparr>b_Hash := 5\<rparr>] = Inr [(1, exampleItem 3)]"
    by (simp add: pathControls_def exampleLoad_def typedControls_def emptyControls_def)
  ultimately show ?thesis
    using example_reconcile reconcile_roundtrip [of exampleQueue exampleLoad "[exampleBlock\<lparr>b_Hash := 5\<rparr>]"
      "[(1, exampleItem 3)]" "[exampleBlock\<lparr>b_Hash := 6\<rparr>]"]
    by (simp add: exampleQueue_def typedControls_def newExecutionRequestQueue_def exampleItem_def)
qed

end
