(* ===== verification/Storage.thy ===== *)
theory Storage
  imports Request_Queue "HOL-Library.List_Lexorder" "HOL-Library.Sublist" "HOL-Library.Multiset"
begin

text \<open>
  The persistent side of the node: the values the repository stores (\<open>src/state_metadata.go\<close>,
  \<open>src/metadata.go\<close>, \<open>src/events.go\<close>, \<open>src/projection.go\<close>), their keys, write batches, and the
  mutations (\<open>journalKV\<close>) of \<open>src/commit.go\<close>.

  \<^item> A stored value is a value of \<open>dbvalue\<close>: a JSON document is the structure it encodes, so
    decoding it as another structure fails; binary values are \<open>Raw\<close> bytes. The recovery journal
    is a value of its own (\<open>JournalCell\<close>), since no journalled mutation contains a journal.
  \<^item> A key is a value of \<open>dbkey\<close>; \<open>key_bytes\<close> gives its bytes, built with the code's \<open>slotKey\<close>,
    \<open>hashKey\<close>, \<open>appendKey\<close> and \<open>eventKey\<close>. The keys of go-ethereum's state database are
    \<open>KState\<close>. Distinct keys have distinct bytes, so keys can stand for their bytes.
  \<^item> The store is an association list with distinct keys; a batch is applied atomically, in order.
\<close>

section \<open>Stored structures\<close>

record Event =
  ev_Revision :: u64
  ev_Type :: string
  ev_Slot :: u64
  ev_BlockHash :: hash
  ev_BlockNumber :: u64
  ev_Removed :: bool
  ev_OldHead :: hash
  ev_NewHead :: hash
  ev_Depth :: u64

definition zeroEvent :: Event where
  "zeroEvent = \<lparr>ev_Revision = 0, ev_Type = [], ev_Slot = 0, ev_BlockHash = 0, ev_BlockNumber = 0,
     ev_Removed = False, ev_OldHead = 0, ev_NewHead = 0, ev_Depth = 0\<rparr>"

record BlockSafety =
  bs_BlockHash :: hash
  bs_Tainted :: bool
  bs_FirstUnsafeBlock :: "hash option"
  bs_Reasons :: "string list"

definition zeroBlockSafety :: BlockSafety where
  "zeroBlockSafety = \<lparr>bs_BlockHash = 0, bs_Tainted = False, bs_FirstUnsafeBlock = None, bs_Reasons = []\<rparr>"

record storedTimeline =
  tl_GenesisTime :: u64
  tl_GenesisHash :: hash
  tl_ExternalGenesis :: bool
  tl_CurrentSlot :: u64
  tl_LastProcessedSlot :: u64
  tl_Complete :: bool
  tl_FinalityPaused :: bool
  tl_FinalitySlot :: u64

record storedSessionSafety =
  ss_Tainted :: bool
  ss_FirstUnsafeBlock :: "hash option"
  ss_Reasons :: "string list"

record storedChainPoint =
  sp_Hash :: hash
  sp_Number :: u64
  sp_Slot :: u64
  sp_Tainted :: bool

record storedBranch =
  sb_Name :: string
  sb_Base :: hash
  sb_Head :: hash
  sb_Tainted :: bool

record storedProjection =
  pj_Format :: int
  pj_Fork :: string
  pj_Slot :: u64
  pj_Root :: hash
  pj_ParentRoot :: hash
  pj_EnvelopeSSZ :: bytes
  pj_SignedSSZ :: bytes

section \<open>Keys\<close>

definition slotKey :: "bytes \<Rightarrow> u64 \<Rightarrow> bytes" where
  "slotKey keyPrefix slot = keyPrefix @ be_bytes 8 slot"

definition hashKey :: "bytes \<Rightarrow> hash \<Rightarrow> bytes" where
  "hashKey keyPrefix h = keyPrefix @ arr_bytes h"

definition appendKey :: "bytes \<Rightarrow> string \<Rightarrow> bytes" where
  "appendKey keyPrefix name = keyPrefix @ str_bytes name"

definition "stateSchemaKey = str_bytes ''ethertest/meta/schema-version''"
definition "timelineKey = str_bytes ''ethertest/meta/timeline''"
definition "sessionSafetyKey = str_bytes ''ethertest/meta/session-safety''"
definition "journalKey = str_bytes ''ethertest/meta/prepared-operation''"
definition "eventNextKey = str_bytes ''ethertest/meta/event-next''"
definition "executionRequestQueueKey = str_bytes ''ethertest/execution-requests/pending''"
definition "canonicalSlotPrefix = str_bytes ''ethertest/canonical-slot/''"
definition "blockSlotPrefix = str_bytes ''ethertest/block-slot/''"
definition "blockSafetyPrefix = str_bytes ''ethertest/block-safety/''"
definition "projectionPrefix = str_bytes ''ethertest/beacon-projection/''"
definition "executionRequestBlockPrefix = str_bytes ''ethertest/execution-requests/block/''"
definition "eventNamespace = str_bytes ''ethertest/event/''"
definition "checkpointNamespace = str_bytes ''ethertest/checkpoint/''"
definition "branchNamespace = str_bytes ''ethertest/branch/''"
definition "blobNamespace = str_bytes ''ethertest/blob/''"
definition "controlNamespace = str_bytes ''ethertest/control/''"

definition eventKey :: "u64 \<Rightarrow> bytes" where
  "eventKey revision = eventNamespace @ be_bytes 8 revision"

datatype dbkey =
    KSchema | KTimeline | KSession | KJournal | KEventNext | KQueue
  | KCanonicalSlot u64 | KBlockSlot hash | KBlockSafety hash | KProjection hash
  | KRequestRecord hash | KEvent u64 | KCheckpoint string | KBranch string
  | KBlob hash | KControl hash | KState bytes

fun key_bytes :: "dbkey \<Rightarrow> bytes" where
  "key_bytes KSchema = stateSchemaKey"
| "key_bytes KTimeline = timelineKey"
| "key_bytes KSession = sessionSafetyKey"
| "key_bytes KJournal = journalKey"
| "key_bytes KEventNext = eventNextKey"
| "key_bytes KQueue = executionRequestQueueKey"
| "key_bytes (KCanonicalSlot s) = slotKey canonicalSlotPrefix s"
| "key_bytes (KBlockSlot h) = hashKey blockSlotPrefix h"
| "key_bytes (KBlockSafety h) = hashKey blockSafetyPrefix h"
| "key_bytes (KProjection h) = hashKey projectionPrefix h"
| "key_bytes (KRequestRecord h) = hashKey executionRequestBlockPrefix h"
| "key_bytes (KEvent r) = eventKey r"
| "key_bytes (KCheckpoint n) = appendKey checkpointNamespace n"
| "key_bytes (KBranch n) = appendKey branchNamespace n"
| "key_bytes (KBlob h) = hashKey blobNamespace h"
| "key_bytes (KControl h) = hashKey controlNamespace h"
| "key_bytes (KState k) = k"

section \<open>Values, mutations and the journal\<close>

datatype dbvalue =
    Raw bytes
  | VTimeline storedTimeline | VSession storedSessionSafety | VSafety BlockSafety
  | VEvent Event | VChainPoint storedChainPoint | VBranch storedBranch
  | VProjection storedProjection | VQueue executionRequestQueue
  | VRecord storedExecutionRequestRecord
  | VBlob blobBundle | VControl bytes hash

record journalKV =
  kv_Key :: dbkey
  kv_Value :: dbvalue

record preparedOperation =
  op_Version :: int
  op_Kind :: string
  op_OldHead :: hash
  op_NewHead :: hash
  op_TargetBlock :: hash
  op_TargetNumber :: u64
  op_DiscardTargetOnCancel :: bool
  op_ExecutionPuts :: "journalKV list"
  op_RollbackDeletes :: "dbkey list"
  op_Puts :: "journalKV list"
  op_Deletes :: "dbkey list"

definition zeroOperation :: preparedOperation where
  "zeroOperation = \<lparr>op_Version = 0, op_Kind = [], op_OldHead = 0, op_NewHead = 0, op_TargetBlock = 0,
     op_TargetNumber = 0, op_DiscardTargetOnCancel = False, op_ExecutionPuts = [],
     op_RollbackDeletes = [], op_Puts = [], op_Deletes = []\<rparr>"

datatype cell = Val dbvalue | JournalCell preparedOperation

type_synonym database = "(dbkey \<times> cell) list"

datatype batchOp = BPut dbkey cell | BDelete dbkey

primrec applyOp :: "batchOp \<Rightarrow> database \<Rightarrow> database" where
  "applyOp (BPut k v) db = AList.update k v db"
| "applyOp (BDelete k) db = AList.delete k db"

definition writeBatch :: "batchOp list \<Rightarrow> database \<Rightarrow> database" where
  "writeBatch ops db = fold applyOp ops db"

definition putOps :: "journalKV list \<Rightarrow> batchOp list" where
  "putOps puts = map (\<lambda>item. BPut (kv_Key item) (Val (kv_Value item))) puts"

definition timelinePut :: "storedTimeline \<Rightarrow> journalKV" where
  "timelinePut v = \<lparr>kv_Key = KTimeline, kv_Value = VTimeline v\<rparr>"

definition sessionSafetyPut :: "storedSessionSafety \<Rightarrow> journalKV" where
  "sessionSafetyPut v = \<lparr>kv_Key = KSession, kv_Value = VSession v\<rparr>"

definition blockSafetyPut :: "hash \<Rightarrow> BlockSafety \<Rightarrow> journalKV" where
  "blockSafetyPut h v = \<lparr>kv_Key = KBlockSafety h, kv_Value = VSafety v\<rparr>"

definition blockSlotPut :: "hash \<Rightarrow> u64 \<Rightarrow> journalKV" where
  "blockSlotPut h slot = \<lparr>kv_Key = KBlockSlot h, kv_Value = Raw (be_bytes 8 slot)\<rparr>"

definition canonicalSlotPut :: "u64 \<Rightarrow> hash \<Rightarrow> journalKV" where
  "canonicalSlotPut slot h = \<lparr>kv_Key = KCanonicalSlot slot, kv_Value = Raw (arr_bytes h)\<rparr>"

definition executionRequestQueuePut :: "executionRequestQueue \<Rightarrow> error + journalKV" where
  "executionRequestQueuePut queue =
     bindE (validateExecutionRequestQueue queue) (\<lambda>_. Inr \<lparr>kv_Key = KQueue, kv_Value = VQueue queue\<rparr>)"

definition executionRequestRecordPut :: "hash \<Rightarrow> storedExecutionRequestRecord \<Rightarrow> error + journalKV" where
  "executionRequestRecordPut h record =
     bindE (validateExecutionRequestRecord record) (\<lambda>_.
       Inr \<lparr>kv_Key = KRequestRecord h, kv_Value = VRecord record\<rparr>)"

text \<open>The entries of a namespace in key order, as an iterator visits them.\<close>

definition iterate :: "(dbkey \<Rightarrow> bool) \<Rightarrow> database \<Rightarrow> (dbkey \<times> cell) list" where
  "iterate namespace db = sort_key (\<lambda>(k, _). key_bytes k) (filter (\<lambda>(k, _). namespace k) db)"

section \<open>Loading request metadata\<close>

definition loadExecutionRequestQueue :: "database \<Rightarrow> error + executionRequestQueue" where
  "loadExecutionRequestQueue db =
     (case map_of db KQueue of
        None \<Rightarrow> Inr newExecutionRequestQueue
      | Some (Val (VQueue q)) \<Rightarrow> bindE (wrapE ''validate execution request queue: %w'' (validateExecutionRequestQueue q)) (\<lambda>_. Inr q)
      | Some _ \<Rightarrow> Inl (Err ''decode execution request queue''))"

definition loadExecutionRequestRecord ::
  "database \<Rightarrow> hash \<Rightarrow> error + storedExecutionRequestRecord option" where
  "loadExecutionRequestRecord db h =
     (case map_of db (KRequestRecord h) of
        None \<Rightarrow> Inr None
      | Some (Val (VRecord r)) \<Rightarrow>
          if er_Format r \<noteq> executionRequestRecordFormat
          then Inl (Errf ''unsupported execution request record format %d'' [ArgN (nat (er_Format r))])
          else bindE (wrapE ''validate execution request record %s: %w'' (validateExecutionRequestRecord r)) (\<lambda>_. Inr (Some r))
      | Some _ \<Rightarrow> Inl (Errf ''decode execution request record %s'' [ArgN (unat h)]))"

section \<open>Key encoding\<close>

lemma str_bytes_inj [simp]: "str_bytes s = str_bytes t \<longleftrightarrow> s = t"
proof -
  have "inj (of_char :: char \<Rightarrow> byte)"
  proof (rule injI)
    fix a b :: char assume e: "(of_char a :: byte) = of_char b"
    have "of_char c = (word_of_nat (of_char c) :: byte)" for c :: char by (simp add: of_nat_of_char)
    with e have "(word_of_nat (of_char a) :: byte) = word_of_nat (of_char b)" by simp
    moreover have "of_char c < (2 ^ LENGTH(8) :: nat)" for c by simp
    ultimately have "(of_char a :: nat) = of_char b" by (metis mod_less unat_of_nat)
    then show "a = b" by simp
  qed
  then show ?thesis by (simp add: str_bytes_def inj_map_eq_map)
qed

text \<open>Two byte strings whose prefixes differ within both prefixes are different.\<close>

lemma prefixes_differ:
  assumes "take n p \<noteq> take n q" and "n \<le> length p" and "n \<le> length q"
  shows "p @ x \<noteq> q @ y"
  using assms by (metis append_eq_append_conv_if take_append diff_is_0_eq take_0 append_Nil2)

fun bval :: "bytes \<Rightarrow> nat" where
  "bval [] = 0"
| "bval (b # bs) = unat b * 256 ^ length bs + bval bs"

lemma bval_less: "bval bs < 256 ^ length bs"
proof (induction bs)
  case (Cons b bs)
  have "unat b \<le> 255" using unsigned_less [of b, where ?'a = nat] by simp
  then have "unat b * 256 ^ length bs + bval bs < (unat b + 1) * 256 ^ length bs" using Cons by simp
  also have "\<dots> \<le> 256 * 256 ^ length bs" using \<open>unat b \<le> 255\<close> by (intro mult_le_mono1) simp
  finally show ?case by simp
qed simp

lemma bval_order: "length xs = length ys \<Longrightarrow> xs < ys \<longleftrightarrow> bval xs < bval ys"
proof (induction xs ys rule: list_induct2)
  case (Cons x xs y ys)
  let ?B = "256 ^ length ys :: nat"
  have l: "bval xs < ?B" "bval ys < ?B" using bval_less [of xs] bval_less [of ys] Cons.hyps by simp_all
  show ?case
  proof (cases "x = y")
    case True
    with Cons show ?thesis by simp
  next
    case False
    have "unat x * ?B + bval xs < unat y * ?B + bval ys" if "unat x < unat y"
    proof -
      have "unat x * ?B + bval xs < (unat x + 1) * ?B" using l by simp
      also have "\<dots> \<le> unat y * ?B" using that by (intro mult_le_mono1) simp
      finally show ?thesis by simp
    qed
    moreover have "unat y * ?B + bval ys < unat x * ?B + bval xs" if "unat y < unat x"
    proof -
      have "unat y * ?B + bval ys < (unat y + 1) * ?B" using l by simp
      also have "\<dots> \<le> unat x * ?B" using that by (intro mult_le_mono1) simp
      finally show ?thesis by simp
    qed
    moreover have "unat x < unat y \<or> unat y < unat x" using False by (metis linorder_neqE_nat word_unat_eq_iff)
    ultimately show ?thesis using Cons.hyps False by (auto simp: word_less_nat_alt)
  qed
qed simp

lemma bval_snoc: "bval (bs @ [b]) = bval bs * 256 + unat b"
  by (induction bs) (simp_all add: algebra_simps)

lemma be_bytes_Suc: "be_bytes (Suc n) w = be_bytes n (drop_bit 8 w) @ [ucast w]"
  unfolding be_bytes_def le_bytes_def by (simp add: upt_conv_Cons map_Suc_upt [symmetric] comp_def add.commute del: upt_Suc)

lemma bval_be_bytes: "bval (be_bytes n w) = unat w mod 256 ^ n"
proof (induction n arbitrary: w)
  case 0
  then show ?case by (simp add: be_bytes_def le_bytes_def)
next
  case (Suc n)
  have "unat (ucast w :: byte) = unat w mod 256" by (simp add: unsigned_ucast_eq take_bit_eq_mod)
  moreover have "unat (drop_bit 8 w) = unat w div 256" unfolding unat_drop_bit_eq by (simp add: drop_bit_eq_div)
  moreover have "(unat w div 256) mod 256 ^ n * 256 + unat w mod 256 = unat w mod 256 ^ Suc n"
    by (simp add: mod_mult2_eq)
  ultimately show ?case by (simp add: be_bytes_Suc bval_snoc Suc)
qed

text \<open>Big-endian keys sort like the numbers they encode.\<close>

lemma be_bytes_less: "be_bytes 8 (a :: u64) < be_bytes 8 b \<longleftrightarrow> a < b"
proof -
  have "bval (be_bytes 8 w) = unat w" for w :: u64
    using unsigned_less [of w, where ?'a = nat] by (simp add: bval_be_bytes)
  then show ?thesis by (simp add: bval_order word_less_nat_alt)
qed


text \<open>The namespaces of the repository; none is a prefix of another.\<close>

definition namespaces :: "string list" where
  "namespaces = [''ethertest/meta/schema-version'', ''ethertest/meta/timeline'', ''ethertest/meta/session-safety'',
     ''ethertest/meta/prepared-operation'', ''ethertest/meta/event-next'', ''ethertest/execution-requests/pending'',
     ''ethertest/canonical-slot/'', ''ethertest/block-slot/'', ''ethertest/block-safety/'',
     ''ethertest/beacon-projection/'', ''ethertest/execution-requests/block/'', ''ethertest/event/'',
     ''ethertest/checkpoint/'', ''ethertest/branch/'', ''ethertest/blob/'', ''ethertest/control/'']"

lemma namespaces_prefix_free:
  "p \<in> set namespaces \<Longrightarrow> q \<in> set namespaces \<Longrightarrow> prefix p q \<Longrightarrow> p = q"
proof -
  have "\<forall>p \<in> set namespaces. \<forall>q \<in> set namespaces. prefix p q \<longrightarrow> p = q"
    unfolding namespaces_def by code_simp
  then show "p \<in> set namespaces \<Longrightarrow> q \<in> set namespaces \<Longrightarrow> prefix p q \<Longrightarrow> p = q" by blast
qed

lemma namespaces_facts: "distinct namespaces" "length namespaces = 16"
  "\<forall>p \<in> set namespaces. prefix ''ethertest/'' p"
  unfolding namespaces_def by code_simp+

fun key_tag :: "dbkey \<Rightarrow> nat" where
  "key_tag KSchema = 0" | "key_tag KTimeline = 1" | "key_tag KSession = 2" | "key_tag KJournal = 3"
| "key_tag KEventNext = 4" | "key_tag KQueue = 5" | "key_tag (KCanonicalSlot _) = 6"
| "key_tag (KBlockSlot _) = 7" | "key_tag (KBlockSafety _) = 8" | "key_tag (KProjection _) = 9"
| "key_tag (KRequestRecord _) = 10" | "key_tag (KEvent _) = 11" | "key_tag (KCheckpoint _) = 12"
| "key_tag (KBranch _) = 13" | "key_tag (KBlob _) = 14" | "key_tag (KControl _) = 15" | "key_tag (KState _) = 16"

fun key_suffix :: "dbkey \<Rightarrow> bytes" where
  "key_suffix (KCanonicalSlot s) = be_bytes 8 s"
| "key_suffix (KBlockSlot h) = arr_bytes h"
| "key_suffix (KBlockSafety h) = arr_bytes h"
| "key_suffix (KProjection h) = arr_bytes h"
| "key_suffix (KRequestRecord h) = arr_bytes h"
| "key_suffix (KEvent r) = be_bytes 8 r"
| "key_suffix (KCheckpoint n) = str_bytes n"
| "key_suffix (KBranch n) = str_bytes n"
| "key_suffix (KBlob h) = arr_bytes h"
| "key_suffix (KControl h) = arr_bytes h"
| "key_suffix k = []"

lemma key_bytes_split:
  "key_tag k < 16 \<Longrightarrow> key_bytes k = str_bytes (namespaces ! key_tag k) @ key_suffix k"
  by (cases k) (simp_all add: namespaces_def slotKey_def hashKey_def appendKey_def eventKey_def
      stateSchemaKey_def timelineKey_def sessionSafetyKey_def journalKey_def eventNextKey_def
      executionRequestQueueKey_def canonicalSlotPrefix_def blockSlotPrefix_def blockSafetyPrefix_def
      projectionPrefix_def executionRequestBlockPrefix_def eventNamespace_def checkpointNamespace_def
      branchNamespace_def blobNamespace_def controlNamespace_def)

lemma key_suffix_inject: "key_tag k = key_tag l \<Longrightarrow> key_tag k < 16 \<Longrightarrow> key_suffix k = key_suffix l \<longleftrightarrow> k = l"
  by (cases k; cases l) (simp_all add: be_bytes_inject arr_bytes_def)

lemma str_bytes_prefix: "str_bytes p @ x = str_bytes q @ y \<Longrightarrow> prefix p q \<or> prefix q p"
proof -
  assume "str_bytes p @ x = str_bytes q @ y"
  then have "prefix (str_bytes p) (str_bytes q) \<or> prefix (str_bytes q) (str_bytes p)"
    by (metis prefixI prefix_same_cases)
  moreover have "prefix p q" if "prefix (str_bytes p) (str_bytes q)" for p q
  proof -
    from that obtain z where "str_bytes q = str_bytes p @ z" by (auto elim: prefixE)
    then have "take (length p) (str_bytes q) = str_bytes p" by (simp add: str_bytes_def)
    moreover have "take (length p) (str_bytes q) = str_bytes (take (length p) q)" by (simp add: str_bytes_def take_map)
    ultimately have "str_bytes p = str_bytes (take (length p) q)" by simp
    then show ?thesis by (metis str_bytes_inj take_is_prefix)
  qed
  ultimately show ?thesis by blast
qed

lemma key_bytes_inject:
  assumes "key_tag k < 16" and "key_tag l < 16" and "key_bytes k = key_bytes l"
  shows "k = l"
proof -
  let ?p = "namespaces ! key_tag k" and ?q = "namespaces ! key_tag l"
  from assms have e: "str_bytes ?p @ key_suffix k = str_bytes ?q @ key_suffix l" by (simp add: key_bytes_split)
  have "?p \<in> set namespaces" "?q \<in> set namespaces" using assms namespaces_facts(2) by auto
  then have "?p = ?q"
    using str_bytes_prefix [OF e] namespaces_prefix_free [of ?p ?q] namespaces_prefix_free [of ?q ?p] by metis
  then have "key_tag k = key_tag l" using assms namespaces_facts by (simp add: nth_eq_iff_index_eq)
  with e \<open>?p = ?q\<close> show ?thesis using key_suffix_inject assms(1) by simp
qed

section \<open>Batches\<close>

definition opKey :: "batchOp \<Rightarrow> dbkey" where
  "opKey x = (case x of BPut k v \<Rightarrow> k | BDelete k \<Rightarrow> k)"

definition effect :: "batchOp \<Rightarrow> cell option" where
  "effect x = (case x of BPut k v \<Rightarrow> Some v | BDelete k \<Rightarrow> None)"

lemma map_of_applyOp: "map_of (applyOp x db) = (map_of db)(opKey x := effect x)"
  by (cases x) (simp_all add: opKey_def effect_def update_conv' delete_conv')

lemma distinct_applyOp: "distinct (map fst db) \<Longrightarrow> distinct (map fst (applyOp x db))"
  by (cases x) (simp_all add: distinct_update distinct_delete)

lemma writeBatch_Nil [simp]: "writeBatch [] db = db"
  by (simp add: writeBatch_def)

lemma writeBatch_append: "writeBatch (xs @ ys) db = writeBatch ys (writeBatch xs db)"
  by (simp add: writeBatch_def)

lemma writeBatch_Cons: "writeBatch (x # xs) db = writeBatch xs (applyOp x db)"
  by (simp add: writeBatch_def)

lemma distinct_writeBatch: "distinct (map fst db) \<Longrightarrow> distinct (map fst (writeBatch ops db))"
  by (induction ops arbitrary: db) (simp_all add: writeBatch_Cons distinct_applyOp)

text \<open>The last operation on a key decides its value.\<close>

lemma map_of_writeBatch:
  "map_of (writeBatch ops db) k = (case map_of (rev (map (\<lambda>x. (opKey x, effect x)) ops)) k of
     None \<Rightarrow> map_of db k | Some e \<Rightarrow> e)"
proof (induction ops rule: rev_induct)
  case (snoc x ops)
  then show ?case by (simp add: writeBatch_append writeBatch_Cons map_of_applyOp)
qed simp

lemma writeBatch_other: "k \<notin> opKey ` set ops \<Longrightarrow> map_of (writeBatch ops db) k = map_of db k"
  by (induction ops arbitrary: db) (simp_all add: writeBatch_Cons map_of_applyOp)

lemma writeBatch_cong: "map_of db k = map_of db' k \<Longrightarrow> map_of (writeBatch ops db) k = map_of (writeBatch ops db') k"
  by (simp add: map_of_writeBatch split: option.split)

lemma opKey_putOps [simp]: "opKey ` set (putOps puts) = kv_Key ` set puts"
  by (force simp: putOps_def opKey_def)

lemma opKey_deletes [simp]: "opKey ` set (map BDelete ks) = set ks"
  by (force simp: opKey_def)

lemma writeBatch_delete: "k \<in> set ks \<Longrightarrow> map_of (writeBatch (map BDelete ks) db) k = None"
proof (induction ks arbitrary: db)
  case (Cons a ks)
  have "map_of (applyOp (BDelete a) db) a = None" by (simp add: delete_conv')
  with Cons show ?case
    using writeBatch_other [of k "map BDelete ks" "applyOp (BDelete a) db", unfolded opKey_deletes]
    by (cases "k \<in> set ks") (auto simp: writeBatch_Cons simp del: applyOp.simps)
qed simp

lemma writeBatch_put:
  assumes "distinct (map kv_Key puts)" and "item \<in> set puts"
  shows "map_of (writeBatch (putOps puts) db) (kv_Key item) = Some (Val (kv_Value item))"
  using assms
proof (induction puts arbitrary: db)
  case (Cons a puts)
  show ?case
  proof (cases "item = a")
    case True
    then have "kv_Key item \<notin> opKey ` set (putOps puts)" using Cons.prems(1) by simp
    then show ?thesis using True by (simp add: putOps_def writeBatch_Cons writeBatch_other [unfolded putOps_def] update_conv')
  next
    case False
    then show ?thesis using Cons by (simp add: putOps_def writeBatch_Cons)
  qed
qed simp

text \<open>An iterator returns the entries of a namespace in the order of their keys.\<close>

lemma iterate_eqI:
  assumes d: "distinct (map fst db)" and e: "distinct (map fst xs)"
    and s: "sorted (map (\<lambda>p. key_bytes (fst p)) xs)" and n: "\<forall>k. namespace k \<longrightarrow> key_tag k < 16"
    and m: "\<And>k v. (k, v) \<in> set xs \<longleftrightarrow> namespace k \<and> map_of db k = Some v"
  shows "iterate namespace db = xs"
proof -
  let ?f = "filter (\<lambda>(k, _). namespace k) db"
  have k: "(\<lambda>(k, _). key_bytes k) = (\<lambda>p. key_bytes (fst p))" by auto
  have df: "distinct (map fst ?f)" using d by (simp add: distinct_map_filter)
  have "set ?f = set xs"
  proof -
    have "(a, b) \<in> set ?f \<longleftrightarrow> (a, b) \<in> set xs" for a b using m d by (simp add: map_of_eq_Some_iff) blast
    then show ?thesis by auto
  qed
  then have ms: "mset ?f = mset xs" using df e by (metis distinct_map set_eq_iff_mset_eq_distinct)
  have "inj_on (\<lambda>p. key_bytes (fst p)) (set ?f)"
  proof (rule inj_onI)
    fix p q assume p: "p \<in> set ?f" "q \<in> set ?f" "key_bytes (fst p) = key_bytes (fst q)"
    then have "fst p = fst q" using n by (intro key_bytes_inject) auto
    then show "p = q" using p df by (metis eq_key_imp_eq_value prod.collapse)
  qed
  with ms s show ?thesis unfolding iterate_def k by (intro sort_key_inj_key_eq) auto
qed

section \<open>Properties\<close>

lemma append_less_same: "p @ x < p @ y \<longleftrightarrow> x < (y :: bytes)"
  by (induction p) auto

text \<open>C28: the keys of the repository's namespaces never collide: distinct keys have distinct bytes, and
  slot and event keys sort in the store like the slots and revisions they encode.\<close>

theorem key_encoding:
  "inj_on key_bytes {k. key_tag k < 16}
   \<and> (slotKey keyPrefix a < slotKey keyPrefix b \<longleftrightarrow> a < b) \<and> (eventKey r < eventKey s \<longleftrightarrow> r < s)"
  by (auto simp: inj_on_def slotKey_def eventKey_def append_less_same be_bytes_less intro: key_bytes_inject)

end
