(* ===== verification/Events.thy ===== *)
theory Events
  imports Storage
begin

text \<open>
  The two replay logs: the persisted event log (\<open>src/events.go\<close>) and the in-memory log of pending
  transaction hashes (\<open>src/pending_events.go\<close>). Both number their entries consecutively, keep
  the last \<open>capacity\<close> of them and answer \<open>since\<close> queries; the locale \<open>replay_log\<close> states what
  they share and is interpreted on both. The condition channel \<open>changed\<close> and the locks are not
  modelled: each operation is one critical section.
\<close>

section \<open>The event log\<close>

definition ErrEventGap :: error where
  "ErrEventGap = Err ''requested revision is no longer available''"

record eventPlan =
  pl_events :: "Event list"
  pl_puts :: "journalKV list"
  pl_deletes :: "dbkey list"
  pl_next :: u64

record eventLog =
  el_capacity :: u64
  el_next :: u64
  el_events :: "Event list"

fun isEventKey :: "dbkey \<Rightarrow> bool" where
  "isEventKey (KEvent r) = True"
| "isEventKey _ = False"

definition loadEvent :: "eventLog \<Rightarrow> dbkey \<times> cell \<Rightarrow> error + eventLog" where
  "loadEvent log = (\<lambda>(k, c). case c of
     Val (VEvent event) \<Rightarrow>
       let log = log\<lparr>el_events := el_events log @ [event]\<rparr> in
       if ev_Revision event \<ge> el_next log
       then if ev_Revision event = - 1
            then Inl (Err ''persisted event revision overflows uint64'')
            else Inr (log\<lparr>el_next := ev_Revision event + 1\<rparr>)
       else Inr log
   | _ \<Rightarrow> Inl (Err ''json: cannot unmarshal event''))"

definition newEventLog :: "u64 \<Rightarrow> database \<Rightarrow> error + eventLog" where
  "newEventLog capacity db =
     foldE loadEvent \<lparr>el_capacity = capacity, el_next = 1, el_events = []\<rparr> (iterate isEventKey db)"

definition planEvent ::
  "Event list \<times> journalKV list \<times> u64 \<Rightarrow> Event \<Rightarrow> error + Event list \<times> journalKV list \<times> u64" where
  "planEvent = (\<lambda>(planned, puts, nextRevision) event.
     if nextRevision = - 1 then Inl (Err ''event revision overflows uint64'')
     else let event = event\<lparr>ev_Revision := nextRevision\<rparr> in
       Inr (planned @ [event], puts @ [\<lparr>kv_Key = KEvent nextRevision, kv_Value = VEvent event\<rparr>], nextRevision + 1))"

definition eventLog_plan :: "eventLog \<Rightarrow> Event list \<Rightarrow> error + eventPlan" where
  "eventLog_plan l events =
     bindE (foldE planEvent ([], [], el_next l) events) (\<lambda>(planned, puts, nextRevision).
       let retained = el_events l @ planned in
       Inr \<lparr>pl_events = planned,
         pl_puts = puts @ [\<lparr>kv_Key = KEventNext, kv_Value = Raw (be_bytes 8 nextRevision)\<rparr>],
         pl_deletes = (if length retained > unat (el_capacity l)
           then map (\<lambda>event. KEvent (ev_Revision event)) (take (length retained - unat (el_capacity l)) retained)
           else []),
         pl_next = nextRevision\<rparr>)"

definition eventLog_apply :: "eventLog \<Rightarrow> eventPlan \<Rightarrow> eventLog" where
  "eventLog_apply l plan =
     (if length (pl_events plan) = 0 then l
      else let events = el_events l @ pl_events plan in
        l\<lparr>el_next := pl_next plan,
          el_events := (if length events > unat (el_capacity l)
            then drop (length events - unat (el_capacity l)) events else events)\<rparr>)"

text \<open>\<open>skipUpTo seq r es\<close> is the scan loop of both \<open>sinceLocked\<close> methods.\<close>

fun skipUpTo :: "('e \<Rightarrow> u64) \<Rightarrow> u64 \<Rightarrow> 'e list \<Rightarrow> 'e list" where
  "skipUpTo seq r [] = []"
| "skipUpTo seq r (e # es) = (if seq e \<le> r then skipUpTo seq r es else e # es)"

definition eventLog_since :: "eventLog \<Rightarrow> u64 \<Rightarrow> error + Event list" where
  "eventLog_since l revision =
     (if length (el_events l) = 0 then Inr []
      else if revision + 1 < ev_Revision (el_events l ! 0) then Inl ErrEventGap
      else Inr (skipUpTo ev_Revision revision (el_events l)))"

definition eventLog_current :: "eventLog \<Rightarrow> u64" where
  "eventLog_current l = el_next l - 1"

section \<open>The pending transaction log\<close>

record pendingHashEvent =
  pe_Sequence :: u64
  pe_Hash :: hash
  pe_Transaction :: bytes

record pendingHashLog =
  ph_capacity :: u64
  ph_next :: u64
  ph_events :: "pendingHashEvent list"

definition newPendingHashLog :: "u64 \<Rightarrow> pendingHashLog" where
  "newPendingHashLog capacity = \<lparr>ph_capacity = capacity, ph_next = 1, ph_events = []\<rparr>"

definition pendingHashLog_record :: "pendingHashLog \<Rightarrow> hash \<Rightarrow> bytes \<Rightarrow> pendingHashLog" where
  "pendingHashLog_record log h transaction =
     (let events = ph_events log @ [\<lparr>pe_Sequence = ph_next log, pe_Hash = h, pe_Transaction = transaction\<rparr>] in
      log\<lparr>ph_next := ph_next log + 1,
        ph_events := (if length events > unat (ph_capacity log)
          then drop (length events - unat (ph_capacity log)) events else events)\<rparr>)"

definition pendingHashLog_since :: "pendingHashLog \<Rightarrow> u64 \<Rightarrow> error + pendingHashEvent list" where
  "pendingHashLog_since log sequence =
     (if length (ph_events log) = 0 then Inr []
      else if sequence + 1 < pe_Sequence (ph_events log ! 0) then Inl ErrEventGap
      else Inr (skipUpTo pe_Sequence sequence (ph_events log)))"

definition pendingHashLog_current :: "pendingHashLog \<Rightarrow> u64" where
  "pendingHashLog_current log = ph_next log - 1"

section \<open>Replay logs\<close>

text \<open>
  \<open>numbered seq next es\<close>: the entries carry the consecutive numbers up to \<open>next - 1\<close>.
\<close>

definition numbered :: "('e \<Rightarrow> u64) \<Rightarrow> u64 \<Rightarrow> 'e list \<Rightarrow> bool" where
  "numbered seq nxt es \<longleftrightarrow> length es < unat nxt
     \<and> (\<forall>i < length es. unat (seq (es ! i)) + length es = unat nxt + i)"

lemma numbered_Nil [simp]: "numbered seq nxt [] \<longleftrightarrow> nxt \<noteq> 0"
  by (simp add: numbered_def unat_gt_0)

lemma numbered_nth: "numbered seq nxt es \<Longrightarrow> i < length es \<Longrightarrow> unat (seq (es ! i)) + length es = unat nxt + i"
  by (simp add: numbered_def)

lemma numbered_drop:
  assumes "numbered seq nxt es"
  shows "numbered seq nxt (drop n es)"
  unfolding numbered_def
proof (intro conjI allI impI)
  have "length es < unat nxt" using assms by (simp add: numbered_def)
  then show "length (drop n es) < unat nxt" by simp
next
  fix i assume "i < length (drop n es)"
  then have i: "n + i < length es" by simp
  from numbered_nth [OF assms i] i show "unat (seq (drop n es ! i)) + length (drop n es) = unat nxt + i" by simp
qed

lemma numbered_append:
  assumes "numbered seq nxt es" and "unat nxt + length fs < 2 ^ 64"
    and "\<forall>i < length fs. unat (seq (fs ! i)) = unat nxt + i"
  shows "numbered seq (nxt + of_nat (length fs)) (es @ fs)"
proof -
  have u: "unat (nxt + of_nat (length fs)) = unat nxt + length fs"
    using assms(2) by (simp add: unat_word_ariths unat_of_nat)
  have l: "length es < unat nxt" using assms(1) by (simp add: numbered_def)
  have "unat (seq ((es @ fs) ! i)) + length (es @ fs) = unat nxt + length fs + i" if "i < length (es @ fs)" for i
  proof (cases "i < length es")
    case True
    then show ?thesis using numbered_nth [OF assms(1) True] by (simp add: nth_append)
  next
    case False
    then have "i - length es < length fs" using that by simp
    then show ?thesis using assms(3) False by (simp add: nth_append)
  qed
  then show ?thesis using l u by (simp add: numbered_def)
qed

lemma skipUpTo_drop:
  assumes "numbered seq nxt es" and "unat r < unat nxt"
  shows "skipUpTo seq r es = drop (length es + unat r + 1 - unat nxt) es"
  using assms
proof (induction es)
  case (Cons e es)
  have e: "unat (seq e) + length es + 1 = unat nxt" using numbered_nth [OF Cons.prems(1), of 0] by simp
  have IH: "skipUpTo seq r es = drop (length es + unat r + 1 - unat nxt) es"
    using Cons.IH numbered_drop [OF Cons.prems(1), of 1] Cons.prems(2) by simp
  show ?case
  proof (cases "seq e \<le> r")
    case True
    then have "unat nxt \<le> length es + unat r + 1" using e by (simp add: word_le_nat_alt)
    then have "length (e # es) + unat r + 1 - unat nxt = Suc (length es + unat r + 1 - unat nxt)" by simp
    with True IH show ?thesis by simp
  next
    case False
    then have "length es + unat r + 1 < unat nxt" using e by (simp add: word_le_nat_alt)
    then have "length (e # es) + unat r + 1 - unat nxt = 0" by simp
    with False show ?thesis by simp
  qed
qed simp

text \<open>
  The contract of a replay log: what \<open>since\<close> computes, and that a step appends freshly numbered
  entries and keeps the last \<open>capacity\<close> ones.
\<close>

locale replay_log =
  fixes seq :: "'e \<Rightarrow> u64"
    and entries :: "'s \<Rightarrow> 'e list"
    and nxt :: "'s \<Rightarrow> u64"
    and capacity :: "'s \<Rightarrow> u64"
    and since :: "'s \<Rightarrow> u64 \<Rightarrow> error + 'e list"
    and append_step :: "'s \<Rightarrow> 'e list \<Rightarrow> 's \<Rightarrow> bool"
  assumes since_eq: "since s r = (if entries s = [] then Inr [] else if r + 1 < seq (hd (entries s))
      then Inl ErrEventGap else Inr (skipUpTo seq r (entries s)))"
    and step_fresh: "append_step s es s' \<Longrightarrow> es \<noteq> [] \<and> unat (nxt s) + length es < 2 ^ 64
      \<and> (\<forall>i < length es. unat (seq (es ! i)) = unat (nxt s) + i)"
    and step_next: "append_step s es s' \<Longrightarrow> nxt s' = nxt s + of_nat (length es) \<and> capacity s' = capacity s"
    and step_entries: "append_step s es s' \<Longrightarrow>
      entries s' = drop (length (entries s @ es) - unat (capacity s)) (entries s @ es)"
begin

definition consistent :: "'s \<Rightarrow> bool" where
  "consistent s \<longleftrightarrow> numbered seq (nxt s) (entries s) \<and> length (entries s) \<le> unat (capacity s)
     \<and> 0 < capacity s \<and> (entries s = [] \<longrightarrow> nxt s = 1)"

lemma step_unat: "append_step s es s' \<Longrightarrow> unat (nxt s') = unat (nxt s) + length es"
  using step_fresh [of s es s'] step_next [of s es s'] by (simp add: unat_word_ariths unat_of_nat)

lemma step_consistent:
  assumes "consistent s" and "append_step s es s'"
  shows "consistent s'"
proof -
  have "numbered seq (nxt s') (entries s')"
  proof -
    have "numbered seq (nxt s + of_nat (length es)) (entries s @ es)"
      using assms(1) step_fresh [OF assms(2)] by (intro numbered_append) (simp_all add: consistent_def)
    then show ?thesis unfolding step_entries [OF assms(2)] using step_next [OF assms(2)]
      by (metis numbered_drop)
  qed
  moreover have "entries s' \<noteq> []"
  proof -
    have "0 < length es" "0 < unat (capacity s)"
      using step_fresh [OF assms(2)] assms(1) by (simp_all add: consistent_def word_less_nat_alt)
    then have "0 < length (entries s')" unfolding step_entries [OF assms(2)] length_drop length_append by arith
    then show ?thesis by simp
  qed
  moreover have "length (entries s') \<le> unat (capacity s')"
    using step_entries [OF assms(2)] step_next [OF assms(2)] by simp
  ultimately show ?thesis using assms step_next [OF assms(2)] by (simp add: consistent_def)
qed

text \<open>
  A query from a revision already assigned either reports a gap, exactly when an entry it should
  return has been dropped, or returns all later entries and no other.
\<close>

lemma since_exact:
  assumes c: "consistent s" and r: "unat r < unat (nxt s)"
  shows "since s r = (if unat r + 1 + length (entries s) < unat (nxt s) then Inl ErrEventGap
      else Inr (drop (length (entries s) + unat r + 1 - unat (nxt s)) (entries s)))"
proof (cases "entries s = []")
  case True
  then have "nxt s = 1" using c by (simp add: consistent_def)
  then show ?thesis using True r by (simp add: since_eq)
next
  case False
  have n: "numbered seq (nxt s) (entries s)" using c by (simp add: consistent_def)
  have "unat (seq (hd (entries s))) + length (entries s) = unat (nxt s)"
    using numbered_nth [OF n, of 0] False by (simp add: hd_conv_nth)
  moreover have "unat (r + 1) = unat r + 1"
    using r unsigned_less [of "nxt s", where ?'a = nat] by (simp add: unat_word_ariths)
  ultimately have "r + 1 < seq (hd (entries s)) \<longleftrightarrow> unat r + 1 + length (entries s) < unat (nxt s)"
    using False by (auto simp: word_less_nat_alt)
  then show ?thesis using False skipUpTo_drop [OF n r] by (simp add: since_eq)
qed

lemma since_numbers:
  assumes "consistent s" and "unat r < unat (nxt s)" and "since s r = Inr es"
  shows "map (\<lambda>e. unat (seq e)) es = [unat r + 1..<unat (nxt s)]"
proof -
  let ?k = "length (entries s) + unat r + 1 - unat (nxt s)"
  have n: "numbered seq (nxt s) (entries s)" using assms(1) by (simp add: consistent_def)
  from assms(3) since_exact [OF assms(1,2)] have es: "es = drop ?k (entries s)"
    and ge: "unat (nxt s) \<le> unat r + 1 + length (entries s)" by (auto split: if_splits)
  show ?thesis
  proof (rule nth_equalityI)
    show "length (map (\<lambda>e. unat (seq e)) es) = length [unat r + 1..<unat (nxt s)]" using es ge assms(2) by simp
    fix i assume "i < length (map (\<lambda>e. unat (seq e)) es)"
    then have "i < length es" by simp
    then show "map (\<lambda>e. unat (seq e)) es ! i = [unat r + 1..<unat (nxt s)] ! i"
      using numbered_nth [OF n, of "?k + i"] es ge assms(2) by simp
  qed
qed

text \<open>A reader that had seen everything receives exactly the entries of the next step.\<close>

lemma since_step:
  assumes c: "consistent s" and st: "append_step s es s'" and "length es \<le> unat (capacity s)"
  shows "since s' (nxt s - 1) = Inr es"
proof -
  have "0 < unat (nxt s)" using c by (auto simp: consistent_def numbered_def)
  then have u: "unat (nxt s - 1) = unat (nxt s) - 1" by (simp add: unat_minus_one unat_gt_0)
  have "length (entries s') = min (length (entries s) + length es) (unat (capacity s))"
    using step_entries [OF st] by simp
  moreover have "drop (length (entries s') - length es) (entries s') = es"
    using step_entries [OF st] assms(3) by (auto simp: min_def)
  ultimately show ?thesis
    using since_exact [OF step_consistent [OF c st], of "nxt s - 1"] step_unat [OF st] u \<open>0 < unat (nxt s)\<close> assms(3)
    by (auto simp: min_def)
qed

end

section \<open>Planning and applying\<close>

lemma unat_max_u64: "unat (- 1 :: u64) = 2 ^ 64 - 1"
  by (simp add: unsigned_minus_1_eq_mask mask_eq_exp_minus_1)

fun numberFrom :: "u64 \<Rightarrow> Event list \<Rightarrow> Event list" where
  "numberFrom n [] = []"
| "numberFrom n (e # es) = e\<lparr>ev_Revision := n\<rparr> # numberFrom (n + 1) es"

lemma length_numberFrom [simp]: "length (numberFrom n es) = length es"
  by (induction es arbitrary: n) simp_all

lemma foldE_planEvent:
  "foldE planEvent (ps, qs, n) es =
     (if unat n + length es < 2 ^ 64
      then Inr (ps @ numberFrom n es,
        qs @ map (\<lambda>e. \<lparr>kv_Key = KEvent (ev_Revision e), kv_Value = VEvent e\<rparr>) (numberFrom n es),
        n + of_nat (length es))
      else Inl (Err ''event revision overflows uint64''))"
proof (induction es arbitrary: ps qs n)
  case Nil
  then show ?case using unsigned_less [of n, where ?'a = nat] by simp
next
  case (Cons e es)
  show ?case
  proof (cases "n = - 1")
    case True
    then have "unat n = 2 ^ 64 - 1" by (simp add: unat_max_u64)
    then show ?thesis using True by (simp add: planEvent_def)
  next
    case False
    then have "unat (n + 1) = Suc (unat n)" by (rule unat_inc)
    moreover have "planEvent (ps, qs, n) e = Inr (ps @ [e\<lparr>ev_Revision := n\<rparr>],
        qs @ [\<lparr>kv_Key = KEvent n, kv_Value = VEvent (e\<lparr>ev_Revision := n\<rparr>)\<rparr>], n + 1)"
      using False by (simp add: planEvent_def Let_def)
    ultimately show ?thesis by (simp add: Cons.IH add.assoc)
  qed
qed

lemma numberFrom_nth:
  "unat n + length es < 2 ^ 64 \<Longrightarrow> i < length es \<Longrightarrow> unat (ev_Revision (numberFrom n es ! i)) = unat n + i"
proof (induction es arbitrary: n i)
  case (Cons e es)
  then have "n \<noteq> - 1" by (auto simp: unat_max_u64)
  then have "unat (n + 1) = Suc (unat n)" by (rule unat_inc)
  with Cons show ?case by (cases i) simp_all
qed simp

lemma eventLog_plan_eq:
  "eventLog_plan l events =
     (if unat (el_next l) + length events < 2 ^ 64
      then let planned = numberFrom (el_next l) events; retained = el_events l @ planned in
        Inr \<lparr>pl_events = planned,
          pl_puts = map (\<lambda>e. \<lparr>kv_Key = KEvent (ev_Revision e), kv_Value = VEvent e\<rparr>) planned
            @ [\<lparr>kv_Key = KEventNext, kv_Value = Raw (be_bytes 8 (el_next l + of_nat (length events)))\<rparr>],
          pl_deletes = map (\<lambda>e. KEvent (ev_Revision e)) (take (length retained - unat (el_capacity l)) retained),
          pl_next = el_next l + of_nat (length events)\<rparr>
      else Inl (Err ''event revision overflows uint64''))"
  by (simp add: eventLog_plan_def foldE_planEvent Let_def)

text \<open>A successful plan is a step of the event log, a record is a step of the pending log.\<close>

definition eventStep :: "eventLog \<Rightarrow> Event list \<Rightarrow> eventLog \<Rightarrow> bool" where
  "eventStep l es l' \<longleftrightarrow> es \<noteq> [] \<and> (\<exists>events plan. eventLog_plan l events = Inr plan \<and> pl_events plan = es
     \<and> l' = eventLog_apply l plan)"

definition pendingStep :: "pendingHashLog \<Rightarrow> pendingHashEvent list \<Rightarrow> pendingHashLog \<Rightarrow> bool" where
  "pendingStep l es l' \<longleftrightarrow> ph_next l \<noteq> - 1 \<and> (\<exists>h t. es = [\<lparr>pe_Sequence = ph_next l, pe_Hash = h, pe_Transaction = t\<rparr>]
     \<and> l' = pendingHashLog_record l h t)"

interpretation elog: replay_log ev_Revision el_events el_next el_capacity eventLog_since eventStep
proof unfold_locales
  fix s r show "eventLog_since s r = (if el_events s = [] then Inr []
      else if r + 1 < ev_Revision (hd (el_events s)) then Inl ErrEventGap
      else Inr (skipUpTo ev_Revision r (el_events s)))"
    by (simp add: eventLog_since_def hd_conv_nth)
next
  fix s es s' assume "eventStep s es s'"
  then obtain events where e: "es \<noteq> []" "unat (el_next s) + length events < 2 ^ 64" "es = numberFrom (el_next s) events"
    and s': "s' = s\<lparr>el_next := el_next s + of_nat (length events),
      el_events := drop (length (el_events s @ es) - unat (el_capacity s)) (el_events s @ es)\<rparr>"
    by (auto simp: eventStep_def eventLog_plan_eq eventLog_apply_def Let_def split: if_splits)
  show "es \<noteq> [] \<and> unat (el_next s) + length es < 2 ^ 64
      \<and> (\<forall>i < length es. unat (ev_Revision (es ! i)) = unat (el_next s) + i)"
    using e numberFrom_nth by simp
  show "el_next s' = el_next s + of_nat (length es) \<and> el_capacity s' = el_capacity s" using e s' by simp
  show "el_events s' = drop (length (el_events s @ es) - unat (el_capacity s)) (el_events s @ es)" using s' by simp
qed

interpretation plog: replay_log pe_Sequence ph_events ph_next ph_capacity pendingHashLog_since pendingStep
proof unfold_locales
  fix s r show "pendingHashLog_since s r = (if ph_events s = [] then Inr []
      else if r + 1 < pe_Sequence (hd (ph_events s)) then Inl ErrEventGap
      else Inr (skipUpTo pe_Sequence r (ph_events s)))"
    by (simp add: pendingHashLog_since_def hd_conv_nth)
next
  fix s es s' assume st: "pendingStep s es s'"
  then have n: "ph_next s \<noteq> - 1" by (simp add: pendingStep_def)
  have "unat (ph_next s + 1) = Suc (unat (ph_next s))" using n by (rule unat_inc)
  then have "Suc (unat (ph_next s)) < 2 ^ 64" using unsigned_less [of "ph_next s + 1", where ?'a = nat] by simp
  with st show "es \<noteq> [] \<and> unat (ph_next s) + length es < 2 ^ 64
      \<and> (\<forall>i < length es. unat (pe_Sequence (es ! i)) = unat (ph_next s) + i)"
    by (auto simp: pendingStep_def)
  show "ph_next s' = ph_next s + of_nat (length es) \<and> ph_capacity s' = ph_capacity s"
    using st by (auto simp: pendingStep_def pendingHashLog_record_def Let_def)
  show "ph_events s' = drop (length (ph_events s @ es) - unat (ph_capacity s)) (ph_events s @ es)"
    using st by (auto simp: pendingStep_def pendingHashLog_record_def Let_def)
qed

section \<open>Persistence of the event log\<close>

text \<open>The event namespace of the store holds exactly the retained events.\<close>

definition storedLog :: "eventLog \<Rightarrow> database \<Rightarrow> bool" where
  "storedLog l db \<longleftrightarrow> distinct (map fst db)
     \<and> (\<forall>r c. map_of db (KEvent r) = Some c \<longleftrightarrow> (\<exists>e \<in> set (el_events l). ev_Revision e = r \<and> c = Val (VEvent e)))"

lemma consistent_sorted:
  assumes "numbered ev_Revision n es"
  shows "sorted_wrt (<) (map ev_Revision es)"
  unfolding sorted_wrt_iff_nth_less
proof (intro allI impI)
  fix i j assume ij: "i < j" "j < length (map ev_Revision es)"
  with numbered_nth [OF assms, of i] numbered_nth [OF assms, of j]
  have "unat (ev_Revision (es ! i)) < unat (ev_Revision (es ! j))" by simp
  with ij show "map ev_Revision es ! i < map ev_Revision es ! j" by (simp add: word_less_nat_alt)
qed

lemma sorted_map_mono:
  assumes "sorted_wrt (<) (map f xs)" and "\<And>a b. f a < f b \<Longrightarrow> g a < (g b :: 'a :: linorder)"
  shows "sorted (map g xs)"
  using assms by (induction xs) (auto intro: less_imp_le)

lemma iterate_stored:
  assumes s: "storedLog l db" and n: "numbered ev_Revision (el_next l) (el_events l)"
  shows "iterate isEventKey db = map (\<lambda>e. (KEvent (ev_Revision e), Val (VEvent e))) (el_events l)"
proof (rule iterate_eqI)
  let ?xs = "map (\<lambda>e. (KEvent (ev_Revision e), Val (VEvent e))) (el_events l)"
  note srt = consistent_sorted [OF n]
  show "distinct (map fst db)" using s by (simp add: storedLog_def)
  have "distinct (map KEvent (map ev_Revision (el_events l)))"
    using sorted_wrt_less_distinct [OF srt] by (subst distinct_map) (simp add: inj_on_def)
  then show "distinct (map fst ?xs)" by (simp add: comp_def)
  have "sorted (map (\<lambda>e. key_bytes (KEvent (ev_Revision e))) (el_events l))"
    using srt by (rule sorted_map_mono) (simp add: eventKey_def append_less_same be_bytes_less)
  then show "sorted (map (\<lambda>p. key_bytes (fst p)) ?xs)" by (simp add: comp_def)
  show "\<forall>k. isEventKey k \<longrightarrow> key_tag k < 16"
  proof (intro allI impI)
    fix k assume "isEventKey k"
    then show "key_tag k < 16" by (cases k) simp_all
  qed
  show "(k, v) \<in> set ?xs \<longleftrightarrow> isEventKey k \<and> map_of db k = Some v" for k v
    using s by (cases k) (auto simp: storedLog_def)
qed

lemma foldE_loadEvent:
  assumes "sorted_wrt (<) (map ev_Revision es)" and "\<forall>e \<in> set es. el_next l \<le> ev_Revision e \<and> ev_Revision e \<noteq> - 1"
  shows "foldE loadEvent l (map (\<lambda>e. (KEvent (ev_Revision e), Val (VEvent e))) es)
    = Inr (l\<lparr>el_events := el_events l @ es, el_next := (if es = [] then el_next l else ev_Revision (last es) + 1)\<rparr>)"
  using assms
proof (induction es arbitrary: l)
  case (Cons e es)
  let ?l = "l\<lparr>el_events := el_events l @ [e], el_next := ev_Revision e + 1\<rparr>"
  have "loadEvent l (KEvent (ev_Revision e), Val (VEvent e)) = Inr ?l"
    using Cons.prems(2) by (simp add: loadEvent_def Let_def)
  moreover have "\<forall>x \<in> set es. el_next ?l \<le> ev_Revision x \<and> ev_Revision x \<noteq> - 1"
  proof
    fix x assume x: "x \<in> set es"
    then have "ev_Revision e < ev_Revision x" using Cons.prems(1) by auto
    then have "ev_Revision e + 1 \<le> ev_Revision x"
      using unat_inc [of "ev_Revision e"] Cons.prems(2) by (simp add: word_le_nat_alt word_less_nat_alt)
    then show "el_next ?l \<le> ev_Revision x \<and> ev_Revision x \<noteq> - 1" using x Cons.prems(2) by simp
  qed
  ultimately show ?case using Cons.IH [of ?l] Cons.prems(1) by simp
qed simp

lemma newEventLog_stored:
  assumes c: "elog.consistent l" and s: "storedLog l db"
  shows "newEventLog (el_capacity l) db = Inr l"
proof -
  have n: "numbered ev_Revision (el_next l) (el_events l)" using c by (simp add: elog.consistent_def)
  have ne: "1 \<le> ev_Revision e \<and> ev_Revision e \<noteq> - 1" if "e \<in> set (el_events l)" for e
  proof -
    from that obtain i where i: "i < length (el_events l)" "e = el_events l ! i" by (metis in_set_conv_nth)
    have "unat (ev_Revision e) + length (el_events l) = unat (el_next l) + i" using numbered_nth [OF n i(1)] i(2) by simp
    moreover have "length (el_events l) < unat (el_next l)" using n by (simp add: numbered_def)
    moreover have "unat (el_next l) < 2 ^ 64" using unsigned_less [of "el_next l", where ?'a = nat] by simp
    ultimately have "0 < unat (ev_Revision e)" "unat (ev_Revision e) < 2 ^ 64 - 1" using i(1) by auto
    then show ?thesis by (auto simp: word_le_nat_alt unat_max_u64)
  qed
  have "(if el_events l = [] then 1 else ev_Revision (last (el_events l)) + 1) = el_next l"
  proof (cases "el_events l = []")
    case True
    then show ?thesis using c by (simp add: elog.consistent_def)
  next
    case False
    then obtain k where "length (el_events l) = Suc k" by (cases "el_events l") auto
    then have "unat (ev_Revision (last (el_events l))) + 1 = unat (el_next l)"
      using numbered_nth [OF n, of k] False by (simp add: last_conv_nth)
    moreover have "unat (ev_Revision (last (el_events l)) + 1) = Suc (unat (ev_Revision (last (el_events l))))"
      using ne False by (intro unat_inc) simp
    ultimately show ?thesis using False by (simp add: word_unat_eq_iff)
  qed
  then show ?thesis
    unfolding newEventLog_def iterate_stored [OF s n] using consistent_sorted [OF n] ne
    by (subst foldE_loadEvent) auto
qed


lemma putOps_append: "putOps (xs @ ys) = putOps xs @ putOps ys"
  by (simp add: putOps_def)

lemma split_revisions:
  assumes "distinct (map ev_Revision all)"
  shows "r \<notin> ev_Revision ` set (take k all) \<and> (\<exists>e \<in> set all. ev_Revision e = r \<and> P e)
    \<longleftrightarrow> (\<exists>e \<in> set (drop k all). ev_Revision e = r \<and> P e)"
proof -
  have "set all = set (take k all) \<union> set (drop k all)" by (metis append_take_drop_id set_append)
  moreover have "ev_Revision ` set (take k all) \<inter> ev_Revision ` set (drop k all) = {}"
    using assms by (metis append_take_drop_id distinct_append map_append set_map)
  ultimately show ?thesis by blast
qed

text \<open>Writing a plan, with any mutations outside the event namespace, keeps store and log in step.\<close>

lemma plan_stored:
  assumes c: "elog.consistent l" and s: "storedLog l db" and p: "eventLog_plan l events = Inr plan"
    and k: "\<And>r. KEvent r \<notin> kv_Key ` set puts" "\<And>r. KEvent r \<notin> set dels"
  shows "storedLog (eventLog_apply l plan) (writeBatch (putOps (puts @ pl_puts plan) @ map BDelete (dels @ pl_deletes plan)) db)"
proof -
  let ?new = "numberFrom (el_next l) events" and ?P = "\<lambda>e. \<lparr>kv_Key = KEvent (ev_Revision e), kv_Value = VEvent e\<rparr>"
  define all where "all = el_events l @ ?new"
  define k where "k = length all - unat (el_capacity l)"
  from p have b: "unat (el_next l) + length events < 2 ^ 64" by (auto simp: eventLog_plan_eq Let_def split: if_splits)
  have pl: "pl_events plan = ?new" "pl_deletes plan = map (\<lambda>e. KEvent (ev_Revision e)) (take k all)"
      "\<exists>x. pl_puts plan = map ?P ?new @ [\<lparr>kv_Key = KEventNext, kv_Value = x\<rparr>]"
    using p b by (auto simp: eventLog_plan_eq Let_def all_def k_def)
  have n: "numbered ev_Revision (el_next l) (el_events l)" using c by (simp add: elog.consistent_def)
  have na: "numbered ev_Revision (el_next l + of_nat (length events)) all"
    using numbered_append [OF n, of ?new] numberFrom_nth [OF b] b by (simp add: all_def)
  have d: "distinct (map ev_Revision all)" using sorted_wrt_less_distinct [OF consistent_sorted [OF na]] .
  have ev: "el_events (eventLog_apply l plan) = drop k all"
  proof (cases "events = []")
    case True
    then have "k = 0" using c by (simp add: k_def all_def elog.consistent_def)
    then show ?thesis using True pl(1) by (simp add: eventLog_apply_def all_def)
  next
    case False
    then show ?thesis using pl(1) by (simp add: eventLog_apply_def all_def k_def Let_def)
  qed
  let ?db1 = "writeBatch (putOps (puts @ pl_puts plan)) db"
  have old: "map_of db (KEvent r) = Some c \<longleftrightarrow> (\<exists>e \<in> set (el_events l). ev_Revision e = r \<and> c = Val (VEvent e))" for r c
    using s by (simp add: storedLog_def)
  have db1: "map_of ?db1 (KEvent r) = Some c \<longleftrightarrow> (\<exists>e \<in> set all. ev_Revision e = r \<and> c = Val (VEvent e))" for r c
  proof (cases "r \<in> ev_Revision ` set ?new")
    case True
    then obtain e where e: "e \<in> set ?new" "ev_Revision e = r" by auto
    obtain x where x: "pl_puts plan = map ?P ?new @ [\<lparr>kv_Key = KEventNext, kv_Value = x\<rparr>]" using pl(3) by blast
    have "distinct (map KEvent (map ev_Revision ?new))"
      using d by (subst distinct_map) (simp add: all_def inj_on_def)
    then have dk: "distinct (map kv_Key (pl_puts plan))" by (auto simp: x comp_def)
    have "?P e \<in> set (pl_puts plan)" using e x by auto
    from writeBatch_put [OF dk this, of "writeBatch (putOps puts) db"] e
    have "map_of ?db1 (KEvent r) = Some (Val (VEvent e))" by (simp add: putOps_append writeBatch_append)
    moreover have "e' = e" if "e' \<in> set all" "ev_Revision e' = r" for e'
      using that e d by (auto simp: all_def distinct_map dest: inj_onD)
    ultimately show ?thesis using e by (auto simp: all_def)
  next
    case False
    then have "KEvent r \<notin> opKey ` set (putOps (puts @ pl_puts plan))"
      unfolding opKey_putOps using k(1) pl(3) by auto
    then have "map_of ?db1 (KEvent r) = map_of db (KEvent r)" by (rule writeBatch_other)
    then show ?thesis using False old by (auto simp: all_def)
  qed
  let ?ds = "dels @ pl_deletes plan"
  have "map_of (writeBatch (map BDelete ?ds) ?db1) (KEvent r) = Some c
      \<longleftrightarrow> (\<exists>e \<in> set (drop n all). ev_Revision e = r \<and> c = Val (VEvent e))" if "n = k" for r c n
  proof -
    have in_ds: "KEvent r \<in> set ?ds \<longleftrightarrow> r \<in> ev_Revision ` set (take k all)" using k(2) pl(2) by auto
    have "map_of (writeBatch (map BDelete ?ds) ?db1) (KEvent r) = Some c
      \<longleftrightarrow> r \<notin> ev_Revision ` set (take k all) \<and> map_of ?db1 (KEvent r) = Some c"
      using writeBatch_delete [of "KEvent r" ?ds ?db1] writeBatch_other [of "KEvent r" "map BDelete ?ds" ?db1] in_ds
      unfolding opKey_deletes by (cases "KEvent r \<in> set ?ds") auto
    also have "\<dots> \<longleftrightarrow> (\<exists>e \<in> set (drop k all). ev_Revision e = r \<and> c = Val (VEvent e))"
      unfolding db1 by (rule split_revisions [OF d])
    finally show ?thesis using that by simp
  qed
  moreover have "distinct (map fst (writeBatch (map BDelete ?ds) ?db1))"
    using s by (intro distinct_writeBatch) (simp add: storedLog_def)
  ultimately show ?thesis by (simp add: storedLog_def ev writeBatch_append)
qed


section \<open>Properties\<close>

lemma skipUpTo_filter:
  "sorted_wrt (<) (map ev_Revision es) \<Longrightarrow> skipUpTo ev_Revision r es = filter (\<lambda>e. r < ev_Revision e) es"
proof (induction es)
  case (Cons e es)
  show ?case
  proof (cases "ev_Revision e \<le> r")
    case True
    then show ?thesis using Cons by (simp add: not_less)
  next
    case False
    then have "\<forall>e' \<in> set es. r < ev_Revision e'" using Cons.prems by (auto simp: not_le intro: less_trans)
    then have "filter (\<lambda>e. r < ev_Revision e) es = es" by (simp add: filter_id_conv)
    then show ?thesis using False by simp
  qed
qed simp

text \<open>C23: a query on a consistent event log from an already assigned revision reports a gap exactly when
  an event after that revision has been dropped; otherwise it succeeds and returns the retained events after
  that revision, which are all the events up to the next revision, in order and without a hole.\<close>

theorem event_replay_exact:
  assumes "elog.consistent l" and "r < el_next l"
  shows "if unat r + 1 + length (el_events l) < unat (el_next l) then eventLog_since l r = Inl ErrEventGap
    else eventLog_since l r = Inr (filter (\<lambda>e. r < ev_Revision e) (el_events l))
      \<and> map (\<lambda>e. unat (ev_Revision e)) (filter (\<lambda>e. r < ev_Revision e) (el_events l)) = [unat r + 1..<unat (el_next l)]"
proof -
  have r: "unat r < unat (el_next l)" using assms(2) by (simp add: word_less_nat_alt)
  have n: "numbered ev_Revision (el_next l) (el_events l)" using assms(1) by (simp add: elog.consistent_def)
  note filter = skipUpTo_filter [OF consistent_sorted [OF n], of r]
  show ?thesis
  proof (cases "unat r + 1 + length (el_events l) < unat (el_next l)")
    case True
    then show ?thesis using elog.since_exact [OF assms(1) r] by simp
  next
    case False
    then have "eventLog_since l r = Inr (filter (\<lambda>e. r < ev_Revision e) (el_events l))"
      using elog.since_exact [OF assms(1) r] skipUpTo_drop [OF n r] filter by simp
    then show ?thesis using False elog.since_numbers [OF assms(1) r] by simp
  qed
qed

definition exampleLog :: eventLog where
  "exampleLog = \<lparr>el_capacity = 2, el_next = 4,
     el_events = [zeroEvent\<lparr>ev_Revision := 2\<rparr>, zeroEvent\<lparr>ev_Revision := 3\<rparr>]\<rparr>"

lemma exampleLog_consistent: "elog.consistent exampleLog"
  by (simp add: elog.consistent_def exampleLog_def numbered_def zeroEvent_def nth_Cons' less_Suc_eq)

theorem event_replay_exact_witness:
  "eventLog_since exampleLog 0 = Inl ErrEventGap \<and> eventLog_since exampleLog 2 = Inr [zeroEvent\<lparr>ev_Revision := 3\<rparr>]"
  using event_replay_exact [OF exampleLog_consistent, of 0] event_replay_exact [OF exampleLog_consistent, of 2]
  by (simp add: exampleLog_def zeroEvent_def)

text \<open>C22: committing planned events keeps the log consistent and the store in step with it, so that a
  restart after the commit rebuilds exactly the log in memory; a reader at the previous revision
  receives exactly the planned events when they fit the capacity.\<close>

theorem event_commit_restart:
  assumes "elog.consistent l" and "storedLog l db" and "eventLog_plan l events = Inr plan"
    and "\<forall>r. KEvent r \<notin> kv_Key ` set puts" and "\<forall>r. KEvent r \<notin> set dels"
    and "db' = writeBatch (putOps (puts @ pl_puts plan) @ map BDelete (dels @ pl_deletes plan)) db"
  shows "elog.consistent (eventLog_apply l plan) \<and> storedLog (eventLog_apply l plan) db'
    \<and> newEventLog (el_capacity l) db' = Inr (eventLog_apply l plan)
    \<and> (events \<noteq> [] \<and> length events \<le> unat (el_capacity l)
        \<longrightarrow> eventLog_since (eventLog_apply l plan) (eventLog_current l) = Inr (pl_events plan))"
proof -
  have len: "length (pl_events plan) = length events" using assms(3)
    by (auto simp: eventLog_plan_eq Let_def split: if_splits)
  have step: "eventStep l (pl_events plan) (eventLog_apply l plan)" if "events \<noteq> []"
    using that assms(3) len by (auto simp: eventStep_def)
  have same: "eventLog_apply l plan = l" if "events = []" using that len by (simp add: eventLog_apply_def)
  have c: "elog.consistent (eventLog_apply l plan)"
    using elog.step_consistent [OF assms(1) step] same assms(1) by (cases "events = []") auto
  have s: "storedLog (eventLog_apply l plan) db'"
    unfolding assms(6) using assms(4,5) by (intro plan_stored [OF assms(1-3)]) auto
  have "el_capacity (eventLog_apply l plan) = el_capacity l" by (simp add: eventLog_apply_def Let_def)
  with newEventLog_stored [OF c s] c s elog.since_step [OF assms(1) step] len show ?thesis
    by (auto simp: eventLog_current_def)
qed

theorem event_commit_restart_witness:
  "\<exists>plan. eventLog_plan exampleLog [zeroEvent] = Inr plan
     \<and> newEventLog 2 (writeBatch (putOps (pl_puts plan) @ map BDelete (pl_deletes plan))
          [(KEvent 2, Val (VEvent (zeroEvent\<lparr>ev_Revision := 2\<rparr>))), (KEvent 3, Val (VEvent (zeroEvent\<lparr>ev_Revision := 3\<rparr>)))])
        = Inr (eventLog_apply exampleLog plan)
     \<and> eventLog_since (eventLog_apply exampleLog plan) 3 = Inr [zeroEvent\<lparr>ev_Revision := 4\<rparr>]"
proof -
  let ?db = "[(KEvent 2, Val (VEvent (zeroEvent\<lparr>ev_Revision := 2\<rparr>))), (KEvent 3, Val (VEvent (zeroEvent\<lparr>ev_Revision := 3\<rparr>)))]"
  have s: "storedLog exampleLog ?db" by (auto simp: storedLog_def exampleLog_def zeroEvent_def)
  obtain plan where p: "eventLog_plan exampleLog [zeroEvent] = Inr plan" "pl_events plan = [zeroEvent\<lparr>ev_Revision := 4\<rparr>]"
    by (simp add: eventLog_plan_eq exampleLog_def Let_def)
  from event_commit_restart [OF exampleLog_consistent s p(1), of "[]" "[]"] p show ?thesis
    by (simp add: exampleLog_def eventLog_current_def)
qed

text \<open>C24: recording a pending transaction keeps the pending log consistent, and a reader at the
  previous sequence number receives exactly the new entry.\<close>

theorem pending_record_replay:
  assumes "plog.consistent l" and "ph_next l \<noteq> - 1"
  shows "plog.consistent (pendingHashLog_record l h t)
    \<and> pendingHashLog_since (pendingHashLog_record l h t) (pendingHashLog_current l)
        = Inr [\<lparr>pe_Sequence = ph_next l, pe_Hash = h, pe_Transaction = t\<rparr>]"
proof -
  have st: "pendingStep l [\<lparr>pe_Sequence = ph_next l, pe_Hash = h, pe_Transaction = t\<rparr>] (pendingHashLog_record l h t)"
    using assms(2) by (simp add: pendingStep_def)
  have "0 < unat (ph_capacity l)" using assms(1) by (simp add: plog.consistent_def word_less_nat_alt)
  with plog.step_consistent [OF assms(1) st] plog.since_step [OF assms(1) st] show ?thesis
    by (simp add: pendingHashLog_current_def)
qed

theorem pending_record_replay_witness:
  "plog.consistent (pendingHashLog_record (newPendingHashLog 1) 5 [])
   \<and> pendingHashLog_since (pendingHashLog_record (newPendingHashLog 1) 5 []) 0
       = Inr [\<lparr>pe_Sequence = 1, pe_Hash = 5, pe_Transaction = []\<rparr>]"
proof -
  have "plog.consistent (newPendingHashLog 1)" by (simp add: plog.consistent_def newPendingHashLog_def)
  from pending_record_replay [OF this, of 5 "[]"] show ?thesis
    by (simp add: newPendingHashLog_def pendingHashLog_current_def)
qed

text \<open>C25: a query from the largest revision wraps around: on every consistent log whose first event has a
  revision above zero it reports a gap although no event lies after that revision.\<close>

theorem event_since_wraps:
  assumes "elog.consistent l" and "el_events l \<noteq> []"
  shows "eventLog_since l (- 1) = Inl ErrEventGap"
proof -
  have n: "numbered ev_Revision (el_next l) (el_events l)" using assms(1) by (simp add: elog.consistent_def)
  then have "length (el_events l) < unat (el_next l)" by (simp add: numbered_def)
  then have "0 < unat (ev_Revision (el_events l ! 0))" using numbered_nth [OF n, of 0] assms(2) by simp
  then have "(- 1 :: u64) + 1 < ev_Revision (el_events l ! 0)" by (simp add: word_less_nat_alt)
  then show ?thesis using assms(2) unfolding eventLog_since_def by simp
qed

theorem event_since_wraps_witness: "eventLog_since exampleLog (- 1) = Inl ErrEventGap"
  by (rule event_since_wraps [OF exampleLog_consistent]) (simp add: exampleLog_def)

end
