(* ===== verification/Sha256.thy ===== *)
theory Sha256
  imports Prelude
begin

text \<open>
  SHA-256 (\<open>crypto/sha256\<close> of the Go standard library), as the source uses it: \<open>Sum256\<close> of a byte
  string. The compression function is FIPS 180-4 on 32-bit words.
\<close>

unbundle bit_operations_syntax

type_synonym word32 = "32 word"

text \<open>
  The constants are the first 32 bits of the fractional parts of the cube roots (rounds) and the
  square roots (initial state) of the first primes, as the standard defines them.
\<close>

definition iroot :: "nat \<Rightarrow> nat \<Rightarrow> nat" where
  "iroot k n = fold (\<lambda>i r. if (r + 2 ^ i) ^ k \<le> n then r + 2 ^ i else r) (rev [0..<40]) 0"

definition is_prime :: "nat \<Rightarrow> bool" where
  "is_prime p \<longleftrightarrow> 2 \<le> p \<and> (\<forall>d \<in> set [2..<p]. \<not> d dvd p)"

definition primes :: "nat list" where
  "primes = filter is_prime [2..<312]"

definition sha_K :: "word32 list" where
  "sha_K = map (\<lambda>p. of_nat (iroot 3 (p * 2 ^ 96))) primes"

definition sha_H0 :: "word32 list" where
  "sha_H0 = map (\<lambda>p. of_nat (iroot 2 (p * 2 ^ 64))) (take 8 primes)"

definition rotr :: "nat \<Rightarrow> word32 \<Rightarrow> word32" where
  "rotr n x = drop_bit n x OR push_bit (32 - n) x"

definition sha_schedule_step :: "word32 list \<Rightarrow> word32 list" where
  "sha_schedule_step w =
     (let n = length w; x = w ! (n - 15); y = w ! (n - 2);
          s0 = rotr 7 x XOR rotr 18 x XOR drop_bit 3 x;
          s1 = rotr 17 y XOR rotr 19 y XOR drop_bit 10 y
      in w @ [w ! (n - 16) + s0 + w ! (n - 7) + s1])"

definition sha_round :: "word32 \<times> word32 \<Rightarrow> word32 list \<Rightarrow> word32 list" where
  "sha_round = (\<lambda>(k, w) v.
     let a = v ! 0; b = v ! 1; c = v ! 2; d = v ! 3; e = v ! 4; f = v ! 5; g = v ! 6; h = v ! 7;
         t1 = h + (rotr 6 e XOR rotr 11 e XOR rotr 25 e) + ((e AND f) XOR (NOT e AND g)) + k + w;
         t2 = (rotr 2 a XOR rotr 13 a XOR rotr 22 a) + ((a AND b) XOR (a AND c) XOR (b AND c))
     in [t1 + t2, a, b, c, d + t1, e, f, g])"

definition sha_block :: "word32 list \<Rightarrow> bytes \<Rightarrow> word32 list" where
  "sha_block H block =
     (let w = (sha_schedule_step ^^ 48) (map be_word (chunks 4 block))
      in map2 (+) H (fold sha_round (zip sha_K w) H))"

definition sha_pad :: "bytes \<Rightarrow> bytes" where
  "sha_pad m = m @ 0x80 # replicate ((119 - length m mod 64) mod 64) 0 @ be_bytes 8 (of_nat (8 * length m) :: u64)"

definition Sum256 :: "bytes \<Rightarrow> hash" where
  "Sum256 m = be_word (concat (map (be_bytes 4) (fold (\<lambda>b H. sha_block H b) (chunks 64 (sha_pad m)) sha_H0)))"

end
