(* ===== verification/Blob.thy ===== *)
theory Blob
  imports Chain_Types Sha256
begin

text \<open>
  Blob payloads and retained blob bundles (\<open>src/blob.go\<close>, \<open>src/blob_store.go\<close>). A
  \<open>kzg4844.Blob\<close> is its 131072 bytes. The KZG functions of go-ethereum are the fields of \<open>kzg\<close>.
\<close>

section \<open>Packed bytes\<close>

abbreviation "PackedBytesV1HeaderSize \<equiv> (48 :: nat)"
abbreviation "PackedBytesV1Capacity \<equiv> (126928 :: nat)"
abbreviation "blobSize \<equiv> (131072 :: nat)"

definition packedBytesMagic :: bytes where
  "packedBytesMagic = str_bytes ''ETHTBLB'' @ [1]"

function packElements :: "nat \<Rightarrow> bytes \<Rightarrow> bytes \<Rightarrow> bytes" where
  "packElements element stream blob =
     (if stream = [] then blob
      else let n = min 31 (length stream) in
        packElements (Suc element) (drop n stream)
          (go_copy (element * 32 + 1) (element * 32 + 1 + n) (take n stream) blob))"
  by pat_completeness auto
termination
  by (relation "measure (\<lambda>(e, s, b). length s)") (auto simp: Let_def min_def)

declare packElements.simps [simp del]

definition EncodePackedBytesV1 :: "bytes \<Rightarrow> error + bytes" where
  "EncodePackedBytesV1 payload =
     (if length payload > PackedBytesV1Capacity
      then Inl (Errf ''payload is %d bytes; maximum is %d'' [ArgN (length payload), ArgN PackedBytesV1Capacity])
      else let stream = packedBytesMagic @ be_bytes 8 (of_nat (length payload) :: u64)
             @ arr_bytes (Sum256 payload) @ payload
        in Inr (packElements 0 stream (replicate blobSize 0)))"

definition unpackElement :: "bytes \<Rightarrow> bytes \<Rightarrow> nat \<Rightarrow> error + bytes" where
  "unpackElement blob stream element =
     (if blob ! (element * 32) \<noteq> 0
      then Inl (Errf ''non-canonical field element %d'' [ArgN element])
      else Inr (stream @ slice (element * 32 + 1) (element * 32 + 32) blob))"

definition DecodePackedBytesV1 :: "bytes \<Rightarrow> error + bytes" where
  "DecodePackedBytesV1 blob =
     bindE (foldE (unpackElement blob) [] [0..<4096]) (\<lambda>stream.
       if length stream < PackedBytesV1HeaderSize \<or> slice 0 8 stream \<noteq> packedBytesMagic
       then Inl (Err ''invalid packed-bytes-v1 header'')
       else let len = unat (be_word (slice 8 16 stream) :: u64) in
         if len > PackedBytesV1Capacity
         then Inl (Err ''packed-bytes-v1 length exceeds capacity'')
         else let payload = slice 48 (48 + len) stream in
           if arr_bytes (Sum256 payload) \<noteq> slice 16 48 stream
           then Inl (Err ''packed-bytes-v1 checksum mismatch'')
           else Inr payload)"

section \<open>Blob bundles\<close>

record kzg =
  kz_ComputeCellProofs :: "bytes \<Rightarrow> error + pubkey list"
  kz_ComputeBlobProof :: "bytes \<Rightarrow> pubkey \<Rightarrow> error + pubkey"
  kz_VerifyBlobProof :: "bytes \<Rightarrow> pubkey \<Rightarrow> pubkey \<Rightarrow> error + unit"
  kz_VerifyCellProofs :: "bytes list \<Rightarrow> pubkey list \<Rightarrow> pubkey list \<Rightarrow> error + unit"

abbreviation "CellProofsPerBlob \<equiv> (128 :: nat)"
abbreviation "blobBundleFormat \<equiv> (1 :: byte)"

definition blobBundle_validate :: "kzg \<Rightarrow> blobBundle \<Rightarrow> error + unit" where
  "blobBundle_validate K bundle =
     (if bb_Format bundle \<noteq> blobBundleFormat \<or> length (bb_Blobs bundle) = 0
         \<or> length (bb_Blobs bundle) \<noteq> length (bb_Commitments bundle)
         \<or> length (bb_BlobProofs bundle) \<noteq> length (bb_Blobs bundle)
         \<or> length (bb_CellProofs bundle) \<noteq> length (bb_Blobs bundle) * CellProofsPerBlob
      then Inl (Err ''invalid blob bundle'')
      else bindE (foldE (\<lambda>_ index. kz_VerifyBlobProof K (bb_Blobs bundle ! index)
             (bb_Commitments bundle ! index) (bb_BlobProofs bundle ! index)) () [0..<length (bb_Blobs bundle)])
        (\<lambda>_. kz_VerifyCellProofs K (bb_Blobs bundle) (bb_Commitments bundle) (bb_CellProofs bundle)))"

definition newBlobBundle :: "kzg \<Rightarrow> BlobTxSidecar option \<Rightarrow> error + blobBundle" where
  "newBlobBundle K sidecar =
     (case sidecar of
        None \<Rightarrow> Inl (Err ''malformed blob sidecar'')
      | Some sc \<Rightarrow>
        if length (sc_Blobs sc) = 0 \<or> length (sc_Blobs sc) \<noteq> length (sc_Commitments sc)
        then Inl (Err ''malformed blob sidecar'')
        else
          (let bundle = \<lparr>bb_Format = blobBundleFormat, bb_Blobs = sc_Blobs sc,
                 bb_Commitments = sc_Commitments sc, bb_BlobProofs = [], bb_CellProofs = []\<rparr> in
           bindE
             (if sc_Version sc = 0 then
                if length (sc_Proofs sc) \<noteq> length (sc_Blobs sc)
                then Inl (Err ''malformed version 0 sidecar'')
                else bindE (mapE (kz_ComputeCellProofs K) (bb_Blobs bundle)) (\<lambda>proofs.
                  Inr (bundle\<lparr>bb_BlobProofs := sc_Proofs sc, bb_CellProofs := concat proofs\<rparr>))
              else if sc_Version sc = 1 then
                if length (sc_Proofs sc) \<noteq> length (sc_Blobs sc) * CellProofsPerBlob
                then Inl (Err ''malformed version 1 sidecar'')
                else bindE (mapE (\<lambda>index. kz_ComputeBlobProof K (bb_Blobs bundle ! index) (bb_Commitments bundle ! index))
                    [0..<length (bb_Blobs bundle)]) (\<lambda>proofs.
                  Inr (bundle\<lparr>bb_CellProofs := sc_Proofs sc, bb_BlobProofs := proofs\<rparr>))
              else Inl (Errf ''unsupported sidecar version %d'' [ArgN (unat (sc_Version sc))]))
             (\<lambda>bundle. bindE (blobBundle_validate K bundle) (\<lambda>_. Inr bundle))))"

definition blobBundle_copy :: "blobBundle option \<Rightarrow> blobBundle option" where
  "blobBundle_copy bundle =
     (case bundle of
        None \<Rightarrow> None
      | Some b \<Rightarrow> Some \<lparr>bb_Format = bb_Format b, bb_Blobs = bb_Blobs b, bb_Commitments = bb_Commitments b,
          bb_BlobProofs = bb_BlobProofs b, bb_CellProofs = bb_CellProofs b\<rparr>)"

definition blobBundle_sidecar :: "kzg \<Rightarrow> blobBundle option \<Rightarrow> byte \<Rightarrow> BlobTxSidecar option" where
  "blobBundle_sidecar K bundle version =
     (case bundle of
        None \<Rightarrow> None
      | Some b \<Rightarrow>
          if blobBundle_validate K b \<noteq> Inr () then None
          else if version = 1 then
            Some \<lparr>sc_Version = version, sc_Blobs = bb_Blobs b, sc_Commitments = bb_Commitments b, sc_Proofs = bb_CellProofs b\<rparr>
          else if version \<noteq> 0 then None
          else Some \<lparr>sc_Version = version, sc_Blobs = bb_Blobs b, sc_Commitments = bb_Commitments b, sc_Proofs = bb_BlobProofs b\<rparr>)"

section \<open>Packing and unpacking\<close>

text \<open>One field element: a zero byte and up to 31 payload bytes, padded with zeros.\<close>

definition fieldElement :: "bytes \<Rightarrow> bytes" where
  "fieldElement c = 0 # c @ replicate (31 - length c) 0"

lemma chunks_Cons: "0 < n \<Longrightarrow> xs \<noteq> [] \<Longrightarrow> chunks n xs = take n xs # chunks n (drop n xs)"
  by (subst chunks.simps) simp

lemma packElements_eq:
  assumes "length pre = 32 * e" and "length s \<le> 31 * k"
  shows "packElements e s (pre @ replicate (32 * k) 0)
    = pre @ concat (map fieldElement (chunks 31 s)) @ replicate (32 * (k - length (chunks 31 s))) 0"
  using assms
proof (induction "length s" arbitrary: pre e s k rule: less_induct)
  case less
  show ?case
  proof (cases "s = []")
    case True
    then show ?thesis by (simp add: packElements.simps)
  next
    case False
    let ?n = "min 31 (length s)"
    have k: "0 < k" using False less.prems(2) by (cases k) auto
    then obtain k' where k': "k = Suc k'" by (cases k) auto
    have zs: "replicate (32 * k) (0 :: byte) = 0 # replicate 31 0 @ replicate (32 * k') 0"
    proof -
      have "32 * k = Suc (31 + 32 * k')" by (simp add: k')
      then show ?thesis by (simp only: replicate_Suc replicate_add)
    qed
    have "go_copy (e * 32 + 1) (e * 32 + 1 + ?n) (take ?n s) (pre @ replicate (32 * k) 0)
      = (pre @ fieldElement (take ?n s)) @ replicate (32 * k') 0"
    proof -
      have "pre @ replicate (32 * k) (0 :: byte) = (pre @ [0]) @ (replicate 31 0 @ replicate (32 * k') 0)"
        by (simp add: zs)
      then show ?thesis
        using go_copy_front [of "pre @ [0]" "e * 32 + 1" "take ?n s" "e * 32 + 1 + ?n" "replicate 31 0 @ replicate (32 * k') 0"]
          less.prems(1) by (simp add: fieldElement_def)
    qed
    moreover have "packElements (Suc e) (drop ?n s) ((pre @ fieldElement (take ?n s)) @ replicate (32 * k') 0)
      = (pre @ fieldElement (take ?n s)) @ concat (map fieldElement (chunks 31 (drop ?n s)))
          @ replicate (32 * (k' - length (chunks 31 (drop ?n s)))) 0"
    proof (rule less.hyps)
      show "length (drop ?n s) < length s" using False by simp
      show "length (pre @ fieldElement (take ?n s)) = 32 * Suc e" using less.prems(1) by (simp add: fieldElement_def)
      show "length (drop ?n s) \<le> 31 * k'" using less.prems(2) k' by simp
    qed
    moreover have "chunks 31 s = take ?n s # chunks 31 (drop ?n s)"
      using chunks_Cons [of 31 s] False by (cases "length s \<le> 31") (simp_all add: min_def)
    ultimately show ?thesis using False k' by (simp add: packElements.simps [of e s] Let_def)
  qed
qed


lemma concat_padded_chunks:
  "\<exists>m. concat (map (\<lambda>c. c @ replicate (31 - length c) 0) (chunks 31 s)) = s @ replicate m (0 :: byte)
     \<and> length s + m = 31 * length (chunks 31 s) \<and> m < 31"
proof (induction "length s" arbitrary: s rule: less_induct)
  case less
  show ?case
  proof (cases "length s \<le> 31")
    case True
    show ?thesis
    proof (cases "s = []")
      case False
      then have "chunks 31 s = [s]" using True chunks_Cons [of 31 s] by simp
      moreover have "0 < length s" using False by simp
      ultimately show ?thesis using True by (intro exI [of _ "31 - length s"]) simp
    qed simp
  next
    case False
    then have c: "chunks 31 s = take 31 s # chunks 31 (drop 31 s)" by (intro chunks_Cons) auto
    have "length (drop 31 s) < length s" using False by simp
    from less.hyps [OF this] obtain m where
      "concat (map (\<lambda>c. c @ replicate (31 - length c) 0) (chunks 31 (drop 31 s))) = drop 31 s @ replicate m 0"
      "length (drop 31 s) + m = 31 * length (chunks 31 (drop 31 s))" "m < 31" by blast
    with c False show ?thesis by (intro exI [of _ m]) simp
  qed
qed

lemma concat_replicate_const: "concat (replicate k (replicate n x)) = replicate (n * k) x"
  by (induction k) (simp_all add: replicate_add [symmetric])

lemma chunks_le: "0 < n \<Longrightarrow> c \<in> set (chunks n s) \<Longrightarrow> length c \<le> n"
proof (induction n s rule: chunks.induct)
  case (1 n s)
  then show ?case by (cases "s = []") (auto simp: chunks.simps [of n s])
qed

lemma drop_concat_const: "\<forall>x \<in> set xs. length x = n \<Longrightarrow> drop (n * k) (concat xs) = concat (drop k xs)"
proof (induction k arbitrary: xs)
  case (Suc k)
  show ?case
  proof (cases xs)
    case (Cons x xs')
    with Suc.prems have "drop (n + n * k) (x @ concat xs') = drop (n * k) (concat xs')" by simp
    with Cons Suc show ?thesis by simp
  qed simp
qed simp

lemma unpackElement_ok:
  assumes cs: "\<forall>c \<in> set cs. length c = 31" and blob: "blob = concat (map ((#) 0) cs)" and k: "k < length cs"
  shows "unpackElement blob acc k = Inr (acc @ cs ! k)"
proof -
  have "drop (32 * k) blob = concat (drop k (map ((#) 0) cs))"
    unfolding blob using cs by (intro drop_concat_const) auto
  also have "drop k (map ((#) 0) cs) = (0 # cs ! k) # map ((#) 0) (drop (Suc k) cs)"
    using k by (simp add: drop_map Cons_nth_drop_Suc [symmetric])
  finally have d: "drop (32 * k) blob = 0 # cs ! k @ concat (map ((#) 0) (drop (Suc k) cs))" by simp
  have l: "32 * k < length blob"
    using d by (metis drop_all leI list.distinct(1))
  have "blob ! (k * 32) = hd (drop (32 * k) blob)" using l by (simp add: hd_drop_conv_nth mult.commute)
  then have "blob ! (k * 32) = 0" using d by simp
  moreover have "drop (k * 32 + 1) blob = tl (drop (32 * k) blob)" by (simp add: tl_drop mult.commute drop_Suc)
  then have "slice (k * 32 + 1) (k * 32 + 32) blob = cs ! k"
    using d cs k by (simp add: slice_def)
  ultimately show ?thesis by (simp add: unpackElement_def)
qed

lemma unpack_ok:
  assumes "\<forall>c \<in> set cs. length c = 31" and "blob = concat (map ((#) 0) cs)"
  shows "foldE (unpackElement blob) acc [0..<length cs] = Inr (acc @ concat cs)"
proof -
  have "foldE (unpackElement blob) acc [0..<k] = Inr (acc @ concat (take k cs))" if "k \<le> length cs" for k
    using that
  proof (induction k)
    case (Suc k)
    then show ?case using unpackElement_ok [OF assms, of k]
      by (simp add: foldE_append take_Suc_conv_app_nth)
  qed simp
  from this [of "length cs"] show ?thesis by simp
qed

lemma unpack_pack:
  assumes "length s \<le> 31 * 4096"
  shows "\<exists>m. foldE (unpackElement (packElements 0 s (replicate blobSize 0))) [] [0..<4096] = Inr (s @ replicate m 0)
    \<and> length (packElements 0 s (replicate blobSize 0)) = blobSize"
proof -
  let ?n = "length (chunks 31 s)"
  let ?cs = "map (\<lambda>c. c @ replicate (31 - length c) 0) (chunks 31 s) @ replicate (4096 - ?n) (replicate 31 0)"
  obtain m where m: "concat (map (\<lambda>c. c @ replicate (31 - length c) 0) (chunks 31 s)) = s @ replicate m (0 :: byte)"
    "length s + m = 31 * ?n" "m < 31" using concat_padded_chunks by blast
  have n: "?n \<le> 4096" using m(2,3) assms by linarith
  have "packElements 0 s (replicate blobSize 0) = concat (map fieldElement (chunks 31 s)) @ replicate (32 * (4096 - ?n)) 0"
    using packElements_eq [of "[]" 0 s 4096] assms by simp
  also have "\<dots> = concat (map ((#) 0) ?cs)"
  proof -
    have "fieldElement = (\<lambda>c. 0 # c @ replicate (31 - length c) 0)" by (simp add: fieldElement_def fun_eq_iff)
    then show ?thesis
      by (simp add: comp_def concat_replicate_const [symmetric] replicate_Suc [symmetric] del: replicate_Suc)
  qed
  finally have b: "packElements 0 s (replicate blobSize 0) = concat (map ((#) 0) ?cs)" .
  have w: "\<forall>c \<in> set ?cs. length c = 31" using chunks_le [of 31 _ s] by auto
  have "concat ?cs = s @ replicate (m + 31 * (4096 - ?n)) 0"
    by (simp add: m(1) concat_replicate_const replicate_add)
  moreover have "length (concat (map ((#) 0) cs)) = 32 * length cs" if "\<forall>c \<in> set cs. length c = 31" for cs :: "bytes list"
    using that length_concat_const [of "map ((#) 0) cs" 32] by simp
  note this [OF w]
  ultimately show ?thesis using unpack_ok [OF w b, of "[]"] n b by (intro exI [of _ "m + 31 * (4096 - ?n)"]) simp
qed


lemma magic_length [simp]: "length packedBytesMagic = 8"
  by (simp add: packedBytesMagic_def str_bytes_def)

lemma decode_encode:
  assumes "length payload \<le> PackedBytesV1Capacity"
  shows "\<exists>blob. EncodePackedBytesV1 payload = Inr blob \<and> length blob = blobSize \<and> DecodePackedBytesV1 blob = Inr payload"
proof -
  define n :: u64 where "n = of_nat (length payload)"
  have n: "unat n = length payload" using assms by (simp add: n_def unat_of_nat)
  define s where "s = packedBytesMagic @ be_bytes 8 n @ arr_bytes (Sum256 payload) @ payload"
  have l: "length s = 48 + length payload" by (simp add: s_def)
  then have ls: "length s \<le> 31 * 4096" using assms by simp
  let ?blob = "packElements 0 s (replicate blobSize 0)"
  obtain m where m: "foldE (unpackElement ?blob) [] [0..<4096] = Inr (s @ replicate m 0)"
    and lb: "length ?blob = blobSize" using unpack_pack [OF ls] by blast
  let ?t = "s @ replicate m 0"
  have parts: "slice 0 8 ?t = packedBytesMagic" "slice 8 16 ?t = be_bytes 8 n"
    "slice 16 48 ?t = arr_bytes (Sum256 payload)" "slice 48 (48 + length payload) ?t = payload"
    by (simp_all add: s_def slice_def)
  have "EncodePackedBytesV1 payload = Inr ?blob"
    using assms by (simp add: EncodePackedBytesV1_def s_def n_def Let_def)
  moreover have "DecodePackedBytesV1 ?blob = Inr payload"
    unfolding DecodePackedBytesV1_def m bindE_Inr
    using assms parts l n by (simp add: be_word_be_bytes Let_def)
  ultimately show ?thesis using lb by blast
qed

section \<open>Properties\<close>

text \<open>C26: every payload up to the capacity is encoded into a blob, and decoding the blob gives the
  payload back.\<close>

theorem packed_bytes_roundtrip:
  assumes "length payload \<le> PackedBytesV1Capacity"
  shows "\<exists>blob. EncodePackedBytesV1 payload = Inr blob \<and> length blob = blobSize \<and> DecodePackedBytesV1 blob = Inr payload"
  using assms by (rule decode_encode)

theorem packed_bytes_roundtrip_witness:
  "\<exists>blob. EncodePackedBytesV1 [1, 2, 3] = Inr blob \<and> length blob = blobSize \<and> DecodePackedBytesV1 blob = Inr [1, 2, 3]"
  by (rule packed_bytes_roundtrip) simp

text \<open>C27: a bundle that is retained passes its own validation, keeps the sidecar's blobs and commitments,
  and gives the accepted sidecar back in the version it came in.\<close>

theorem blob_bundle_sidecar:
  assumes "newBlobBundle K (Some sc) = Inr bundle"
  shows "blobBundle_validate K bundle = Inr () \<and> bb_Blobs bundle = sc_Blobs sc
    \<and> blobBundle_sidecar K (Some bundle) (sc_Version sc) = Some sc"
proof -
  from assms have v: "blobBundle_validate K bundle = Inr ()"
    by (auto simp: newBlobBundle_def Let_def err_simps split: if_splits)
  show ?thesis using assms v
    by (cases sc) (auto simp: newBlobBundle_def Let_def err_simps blobBundle_sidecar_def split: if_splits)
qed

definition exampleKzg :: kzg where
  "exampleKzg = \<lparr>kz_ComputeCellProofs = (\<lambda>_. Inr (replicate 128 7)), kz_ComputeBlobProof = (\<lambda>_ _. Inr 7),
     kz_VerifyBlobProof = (\<lambda>_ _ _. Inr ()), kz_VerifyCellProofs = (\<lambda>_ _ _. Inr ())\<rparr>"

theorem blob_bundle_sidecar_witness:
  "\<exists>bundle. newBlobBundle exampleKzg (Some \<lparr>sc_Version = 0, sc_Blobs = [replicate 2 0], sc_Commitments = [3], sc_Proofs = [7]\<rparr>) = Inr bundle
     \<and> blobBundle_sidecar exampleKzg (Some bundle) 0
       = Some \<lparr>sc_Version = 0, sc_Blobs = [replicate 2 0], sc_Commitments = [3], sc_Proofs = [7]\<rparr>"
proof -
  obtain bd where b: "newBlobBundle exampleKzg
      (Some \<lparr>sc_Version = 0, sc_Blobs = [replicate 2 0], sc_Commitments = [3], sc_Proofs = [7]\<rparr>) = Inr bd"
    by (simp add: newBlobBundle_def exampleKzg_def blobBundle_validate_def Let_def)
  from blob_bundle_sidecar [OF b] b show ?thesis by simp
qed

end
