(* ===== verification/Config.thy ===== *)
theory Config
  imports Prelude "HOL-Library.Char_ord"
begin

text \<open>
  The configuration of a node (\<open>src/config.go\<close>), the execution genesis that may replace a part of
  it (\<open>src/genesis.go\<close>), the fork schedule derived from it (\<open>executionChainConfig\<close> of
  \<open>src/chain.go\<close>) and the resource limits (\<open>src/resource_limits.go\<close>).

  \<^item> \<open>int64\<close> and \<open>time.Duration\<close> (nanoseconds) are \<open>int\<close>; \<open>uint64(x)\<close> is \<open>word_of_int\<close>, which wraps
    as the conversion does. \<open>*big.Int\<close> is \<open>int\<close>, a nil pointer \<open>None\<close>.
  \<^item> \<open>host\<close> is the code outside the repository that validation consults: BIP-39, go-ethereum's
    address syntax, parsed IP addresses, the TLS key pair on disk, go-ethereum's fork order check
    and its system contracts.
\<close>

abbreviation "MaxUint64 \<equiv> (- 1 :: u64)"
abbreviation "MaxInt64 \<equiv> (2 ^ 63 - 1 :: int)"
abbreviation "second \<equiv> (1000000000 :: int)"

section \<open>Configuration\<close>

record ForkConfig =
  fk_AmsterdamEpoch :: int
  fk_CancunEpoch :: u64
  fk_PragueEpoch :: u64
  fk_OsakaEpoch :: u64

record ChainConfig =
  cg_ChainID :: u64
  cg_NetworkID :: u64
  cg_GenesisFile :: string
  cg_GenesisTime :: int
  cg_SlotDuration :: int
  cg_SlotsPerEpoch :: u64
  cg_Validators :: u64
  cg_GasLimit :: u64
  cg_Forks :: ForkConfig

record AccountsConfig =
  ac_Mnemonic :: string
  ac_Count :: int
  ac_Balance :: string

record MiningConfig =
  mn_Mode :: string
  mn_Interval :: int
  mn_Order :: string
  mn_AutoMineEmpty :: bool
  mn_FeeRecipient :: string

record TLSConfig =
  tl_CertFile :: string
  tl_KeyFile :: string

record ListenerConfig =
  hl_Enabled :: bool
  hl_Address :: string
  hl_CORS :: "string list"
  hl_AllowUnsafeExternal :: bool
  hl_TLS :: TLSConfig

record BeaconConfig =
  bc_Enabled :: bool

record IPCConfig =
  ip_Enabled :: bool
  ip_Path :: string

record StorageConfig =
  sg_Engine :: string
  sg_Path :: string
  sg_Archive :: bool

record EventsConfig =
  ec_Capacity :: u64

record ResourceLimits =
  lm_MaxRequestBytes :: int
  lm_MaxBatchItems :: int
  lm_MaxResponseBytes :: int
  lm_MaxControlOperations :: u64
  lm_MaxLogBlocks :: u64
  lm_MaxLogResults :: int
  lm_RPCGasCap :: u64
  lm_TraceTimeout :: int
  lm_MaxFilters :: int
  lm_MaxSubscriptions :: int
  lm_FilterTimeout :: int

record LogConfig =
  lc_Level :: string
  lc_JSON :: bool
  lc_ProgressInterval :: int

record Config =
  cf_Chain :: ChainConfig
  cf_Accounts :: AccountsConfig
  cf_Mining :: MiningConfig
  cf_HTTP :: ListenerConfig
  cf_IPC :: IPCConfig
  cf_Beacon :: BeaconConfig
  cf_Storage :: StorageConfig
  cf_Events :: EventsConfig
  cf_Limits :: ResourceLimits
  cf_Log :: LogConfig
  cf_DumpState :: string

definition DefaultConfig :: Config where
  "DefaultConfig = \<lparr>
     cf_Chain = \<lparr>cg_ChainID = 1337, cg_NetworkID = 0, cg_GenesisFile = [], cg_GenesisTime = 0,
       cg_SlotDuration = 6 * second, cg_SlotsPerEpoch = 8, cg_Validators = 64, cg_GasLimit = 30000000,
       cg_Forks = \<lparr>fk_AmsterdamEpoch = 0, fk_CancunEpoch = 0, fk_PragueEpoch = 0, fk_OsakaEpoch = 0\<rparr>\<rparr>,
     cf_Accounts = \<lparr>ac_Mnemonic = ''test test test test test test test test test test test junk'',
       ac_Count = 10, ac_Balance = ''10000ether''\<rparr>,
     cf_Mining = \<lparr>mn_Mode = ''transaction'', mn_Interval = 0, mn_Order = ''fees'', mn_AutoMineEmpty = False,
       mn_FeeRecipient = []\<rparr>,
     cf_HTTP = \<lparr>hl_Enabled = True, hl_Address = ''127.0.0.1:8545'', hl_CORS = [''*''],
       hl_AllowUnsafeExternal = False, hl_TLS = \<lparr>tl_CertFile = [], tl_KeyFile = []\<rparr>\<rparr>,
     cf_IPC = \<lparr>ip_Enabled = False, ip_Path = ''ethertest.ipc''\<rparr>,
     cf_Beacon = \<lparr>bc_Enabled = True\<rparr>,
     cf_Storage = \<lparr>sg_Engine = ''memory'', sg_Path = [], sg_Archive = True\<rparr>,
     cf_Events = \<lparr>ec_Capacity = 4096\<rparr>,
     cf_Limits = \<lparr>lm_MaxRequestBytes = 16 * 2 ^ 20, lm_MaxBatchItems = 1000, lm_MaxResponseBytes = 64 * 2 ^ 20,
       lm_MaxControlOperations = 256, lm_MaxLogBlocks = 10000, lm_MaxLogResults = 10000,
       lm_RPCGasCap = 50000000, lm_TraceTimeout = 5 * second, lm_MaxFilters = 1024,
       lm_MaxSubscriptions = 1024, lm_FilterTimeout = 5 * 60 * second\<rparr>,
     cf_Log = \<lparr>lc_Level = ''info'', lc_JSON = False, lc_ProgressInterval = 10 * second\<rparr>,
     cf_DumpState = []\<rparr>"

section \<open>The execution genesis\<close>

record blobConfig =
  bl_Target :: nat
  bl_Max :: nat
  bl_UpdateFraction :: nat

record blobSchedule =
  bq_Cancun :: "blobConfig option"
  bq_Prague :: "blobConfig option"
  bq_BPO1 :: "blobConfig option"
  bq_BPO2 :: "blobConfig option"
  bq_BPO3 :: "blobConfig option"
  bq_BPO4 :: "blobConfig option"
  bq_BPO5 :: "blobConfig option"

text \<open>go-ethereum's \<open>params.ChainConfig\<close>.\<close>

record paramsConfig =
  cc_ChainID :: "int option"
  cc_HomesteadBlock :: "int option"
  cc_DAOForkBlock :: "int option"
  cc_EIP150Block :: "int option"
  cc_EIP155Block :: "int option"
  cc_EIP158Block :: "int option"
  cc_ByzantiumBlock :: "int option"
  cc_ConstantinopleBlock :: "int option"
  cc_PetersburgBlock :: "int option"
  cc_IstanbulBlock :: "int option"
  cc_MuirGlacierBlock :: "int option"
  cc_BerlinBlock :: "int option"
  cc_LondonBlock :: "int option"
  cc_ArrowGlacierBlock :: "int option"
  cc_GrayGlacierBlock :: "int option"
  cc_MergeNetsplitBlock :: "int option"
  cc_ShanghaiTime :: "u64 option"
  cc_CancunTime :: "u64 option"
  cc_PragueTime :: "u64 option"
  cc_OsakaTime :: "u64 option"
  cc_AmsterdamTime :: "u64 option"
  cc_LaterTimes :: "u64 option list"
  cc_EnableUBTAtGenesis :: bool
  cc_TerminalTotalDifficulty :: "int option"
  cc_Ethash :: bool
  cc_Clique :: bool
  cc_BlobSchedule :: "blobSchedule option"

record genesisAccount =
  ga_Nonce :: u64
  ga_Balance :: "int option"
  ga_Code :: bytes
  ga_Storage :: "(hash \<times> hash) list"

record genesis =
  gn_Config :: "paramsConfig option"
  gn_Timestamp :: u64
  gn_Number :: u64
  gn_GasLimit :: u64
  gn_Difficulty :: "int option"
  gn_SlotNumber :: "u64 option"
  gn_Alloc :: "(address \<times> genesisAccount) list"

record host =
  ho_IsMnemonicValid :: "string \<Rightarrow> bool"
  ho_IsHexAddress :: "string \<Rightarrow> bool"
  ho_IsLoopbackIP :: "string \<Rightarrow> bool"
  ho_LoadX509KeyPair :: "string \<Rightarrow> string \<Rightarrow> error + unit"
  ho_CheckConfigForkOrder :: "paramsConfig \<Rightarrow> error + unit"
  ho_IsLondon :: "paramsConfig \<Rightarrow> int \<Rightarrow> bool"
  ho_SystemContract :: "string \<Rightarrow> address \<times> bytes"

section \<open>Validation\<close>

text \<open>\<open>new(big.Int).SetString(value, 10)\<close>: an optional sign and at least one digit.\<close>

definition digitValue :: "char \<Rightarrow> int" where
  "digitValue ch = int (of_char ch) - 48"

definition parseDigits :: "string \<Rightarrow> int option" where
  "parseDigits s =
     (if s \<noteq> [] \<and> list_all (\<lambda>ch. CHR ''0'' \<le> ch \<and> ch \<le> CHR ''9'') s
      then Some (fold (\<lambda>ch n. 10 * n + digitValue ch) s 0) else None)"

definition SetString10 :: "string \<Rightarrow> int option" where
  "SetString10 s =
     (case s of
        [] \<Rightarrow> None
      | ch # rest \<Rightarrow>
          if ch = CHR ''-'' then map_option uminus (parseDigits rest)
          else if ch = CHR ''+'' then parseDigits rest
          else parseDigits s)"

definition parseBalance :: "string \<Rightarrow> error + int" where
  "parseBalance value =
     (if length value \<le> 5 \<or> drop (length value - 5) value \<noteq> ''ether''
      then Inl (Err ''balance must use the ether suffix'')
      else
        (case SetString10 (take (length value - 5) value) of
           None \<Rightarrow> Inl (Errf ''invalid account balance %q'' [ArgS value])
         | Some n \<Rightarrow> if n < 0 then Inl (Errf ''invalid account balance %q'' [ArgS value]) else Inr (n * 10 ^ 18)))"

text \<open>\<open>net.SplitHostPort\<close>: the port starts after the last colon; a host in brackets may have colons.\<close>

definition indexOf :: "char \<Rightarrow> string \<Rightarrow> nat option" where
  "indexOf ch s = (if ch \<in> set s then Some (length (takeWhile (\<lambda>c. c \<noteq> ch) s)) else None)"

definition lastIndexOf :: "char \<Rightarrow> string \<Rightarrow> nat option" where
  "lastIndexOf ch s =
     (if ch \<in> set s then Some (length s - 1 - length (takeWhile (\<lambda>c. c \<noteq> ch) (rev s))) else None)"

definition SplitHostPort :: "string \<Rightarrow> error + string \<times> string" where
  "SplitHostPort hostport =
     (case lastIndexOf (CHR '':'') hostport of
        None \<Rightarrow> Inl (Err ''missing port in address'')
      | Some i \<Rightarrow>
          bindE
            (if hd hostport = CHR ''['' then
               (case indexOf (CHR '']'') hostport of
                  None \<Rightarrow> Inl (Err ''missing ']' in address'')
                | Some close \<Rightarrow>
                    if close + 1 = length hostport then Inl (Err ''missing port in address'')
                    else if close + 1 = i then Inr (take (close - 1) (drop 1 hostport), 1, close + 1)
                    else if hostport ! (close + 1) = CHR '':'' then Inl (Err ''too many colons in address'')
                    else Inl (Err ''missing port in address''))
             else if CHR '':'' \<in> set (take i hostport) then Inl (Err ''too many colons in address'')
             else Inr (take i hostport, 0, 0))
            (\<lambda>(host, j, k).
               if CHR ''['' \<in> set (drop j hostport) then Inl (Err ''unexpected '[' in address'')
               else if CHR '']'' \<in> set (drop k hostport) then Inl (Err ''unexpected ']' in address'')
               else Inr (host, drop (i + 1) hostport)))"

definition isLoopbackHost :: "host \<Rightarrow> string \<Rightarrow> bool" where
  "isLoopbackHost H host \<longleftrightarrow> host = ''localhost'' \<or> ho_IsLoopbackIP H host"

definition asciiLower :: "char \<Rightarrow> char" where
  "asciiLower ch = (if CHR ''A'' \<le> ch \<and> ch \<le> CHR ''Z'' then char_of (of_char ch + 32 :: nat) else ch)"

definition slotSeconds :: "Config \<Rightarrow> u64" where
  "slotSeconds c = word_of_int (cg_SlotDuration (cf_Chain c) div second)"

definition epochSeconds :: "Config \<Rightarrow> u64" where
  "epochSeconds c = slotSeconds c * cg_SlotsPerEpoch (cf_Chain c)"

text \<open>The checks of \<open>validateResolved\<close> on the chain section, in the order of the code.\<close>

definition validateChain :: "Config \<Rightarrow> error + unit" where
  "validateChain c =
     (let ch = cf_Chain c; fk = cg_Forks ch;
          slotSec = slotSeconds c; epochSec = epochSeconds c;
          genesisTime = word_of_int (cg_GenesisTime ch) :: u64 in
      if cg_ChainID ch = 0 then Inl (Err ''chain ID must be non-zero'')
      else if cg_GenesisTime ch < 0 then Inl (Err ''genesis time must be non-negative'')
      else if cg_SlotDuration ch \<le> 0 \<or> cg_SlotsPerEpoch ch = 0
        then Inl (Err ''slot duration and slots per epoch must be positive'')
      else if cg_GasLimit ch = 0 then Inl (Err ''gas limit must be positive'')
      else if cg_SlotDuration ch mod second \<noteq> 0 then Inl (Err ''slot duration must be a whole number of seconds'')
      else if cg_SlotsPerEpoch ch > MaxUint64 div slotSec
        then Inl (Err ''slot duration and slots per epoch overflow'')
      else if fk_AmsterdamEpoch fk < -1 then Inl (Err ''amsterdam_epoch must be -1 or non-negative'')
      else if fk_AmsterdamEpoch fk \<ge> 0 \<and> word_of_int (fk_AmsterdamEpoch fk) < fk_OsakaEpoch fk
        then Inl (Err ''fork epochs must satisfy Osaka <= Amsterdam'')
      else if fk_AmsterdamEpoch fk \<ge> 0 \<and> word_of_int (fk_AmsterdamEpoch fk) > (MaxUint64 - genesisTime) div epochSec
        then Inl (Err ''amsterdam activation time overflows uint64'')
      else if fk_OsakaEpoch fk > MaxUint64 div epochSec then Inl (Err ''fork activation time overflows uint64'')
      else if genesisTime > MaxUint64 - fk_OsakaEpoch fk * epochSec
        then Inl (Err ''osaka activation time overflows uint64'')
      else if cg_SlotsPerEpoch ch > MaxUint64 div 2 then Inl (Err ''slots per epoch overflows finality lag'')
      else if cg_Validators ch \<noteq> 64
        then Inl (Err ''v0.1 supports exactly the minimal preset's 64 validators'')
      else if fk_CancunEpoch fk > fk_PragueEpoch fk \<or> fk_PragueEpoch fk > fk_OsakaEpoch fk
        then Inl (Err ''fork epochs must satisfy Cancun <= Prague <= Osaka'')
      else if fk_CancunEpoch fk \<noteq> 0
        then Inl (Err ''v0.1 chains must start at Cancun/Deneb (cancun_epoch = 0)'')
      else Inr ())"

definition limitsInvalid :: "Config \<Rightarrow> bool" where
  "limitsInvalid c =
     (let lm = cf_Limits c in
      lm_MaxRequestBytes lm \<le> 0 \<or> lm_MaxResponseBytes lm \<le> 0
      \<or> lm_MaxRequestBytes lm \<ge> MaxInt64 \<or> lm_MaxResponseBytes lm > MaxInt64
      \<or> lm_MaxBatchItems lm \<le> 0 \<or> lm_MaxControlOperations lm = 0
      \<or> lm_MaxControlOperations lm > word_of_int MaxInt64
      \<or> lm_MaxLogBlocks lm = 0 \<or> lm_MaxLogResults lm \<le> 0 \<or> lm_RPCGasCap lm < 21000
      \<or> lm_TraceTimeout lm \<le> 0 \<or> lm_MaxFilters lm \<le> 0 \<or> lm_MaxSubscriptions lm \<le> 0
      \<or> lm_FilterTimeout lm \<le> 0 \<or> ec_Capacity (cf_Events c) = 0
      \<or> ec_Capacity (cf_Events c) > word_of_int MaxInt64)"

definition validateHTTP :: "host \<Rightarrow> Config \<Rightarrow> error + unit" where
  "validateHTTP H c =
     (let http = cf_HTTP c; tls = hl_TLS http in
      if \<not> hl_Enabled http then Inr ()
      else bindE (wrapE ''http.address: %w'' (SplitHostPort (hl_Address http))) (\<lambda>(host, _).
        if \<not> isLoopbackHost H host \<and> \<not> hl_AllowUnsafeExternal http
        then Inl (Err ''http.address is non-loopback; set allow_unsafe_external explicitly'')
        else if (tl_CertFile tls = []) \<noteq> (tl_KeyFile tls = [])
        then Inl (Err ''http TLS requires both cert_file and key_file'')
        else if tl_CertFile tls \<noteq> []
        then wrapE ''http TLS certificate/key: %w'' (ho_LoadX509KeyPair H (tl_CertFile tls) (tl_KeyFile tls))
        else Inr ()))"

definition validateResolved :: "host \<Rightarrow> Config \<Rightarrow> error + unit" where
  "validateResolved H c =
     bindE (validateChain c) (\<lambda>_.
     if ac_Count (cf_Accounts c) < 1 \<or> ac_Count (cf_Accounts c) > 1024
     then Inl (Err ''accounts.count must be between 1 and 1024'')
     else if \<not> ho_IsMnemonicValid H (ac_Mnemonic (cf_Accounts c)) then Inl (Err ''invalid BIP-39 mnemonic'')
     else bindE (parseBalance (ac_Balance (cf_Accounts c))) (\<lambda>balance.
     if balance \<ge> 2 ^ 256 then Inl (Err ''account balance exceeds uint256'')
     else if mn_Mode (cf_Mining c) \<notin> {''transaction'', ''interval'', ''manual''}
     then Inl (Errf ''invalid mining.mode %q'' [ArgS (mn_Mode (cf_Mining c))])
     else if mn_Order (cf_Mining c) \<notin> {''fees'', ''fifo''}
     then Inl (Errf ''invalid mining.order %q'' [ArgS (mn_Order (cf_Mining c))])
     else if mn_Mode (cf_Mining c) = ''interval'' \<and> mn_Interval (cf_Mining c) \<le> 0
     then Inl (Err ''mining.interval must be positive in interval mode'')
     else if mn_FeeRecipient (cf_Mining c) \<noteq> [] \<and> \<not> ho_IsHexAddress H (mn_FeeRecipient (cf_Mining c))
     then Inl (Err ''invalid mining.fee_recipient'')
     else if sg_Engine (cf_Storage c) \<notin> {''memory'', ''pebble''}
     then Inl (Errf ''unsupported storage.engine %q'' [ArgS (sg_Engine (cf_Storage c))])
     else if sg_Engine (cf_Storage c) = ''pebble'' \<and> sg_Path (cf_Storage c) = []
     then Inl (Err ''storage.path is required for Pebble'')
     else if limitsInvalid c then Inl (Err ''resource and event limits must be positive'')
     else if map asciiLower (lc_Level (cf_Log c)) \<notin> {''debug'', ''info'', ''warn'', ''error'', ''off''}
     then Inl (Errf ''invalid log.level %q'' [ArgS (lc_Level (cf_Log c))])
     else if lc_ProgressInterval (cf_Log c) < second
     then Inl (Err ''log.progress_interval must be at least 1s'')
     else if ip_Enabled (cf_IPC c) \<and> ip_Path (cf_IPC c) = []
     then Inl (Err ''ipc.path is required when IPC is enabled'')
     else if bc_Enabled (cf_Beacon c) \<and> \<not> hl_Enabled (cf_HTTP c)
     then Inl (Err ''beacon.enabled requires http.enabled'')
     else validateHTTP H c))"

definition EffectiveNetworkID :: "Config \<Rightarrow> u64" where
  "EffectiveNetworkID c = (if cg_NetworkID (cf_Chain c) = 0 then cg_ChainID (cf_Chain c) else cg_NetworkID (cf_Chain c))"

section \<open>The fork schedule\<close>

definition repositoryBlobSchedule :: blobSchedule where
  "repositoryBlobSchedule = \<lparr>bq_Cancun = Some \<lparr>bl_Target = 3, bl_Max = 6, bl_UpdateFraction = 3338477\<rparr>,
     bq_Prague = Some \<lparr>bl_Target = 6, bl_Max = 9, bl_UpdateFraction = 5007716\<rparr>,
     bq_BPO1 = None, bq_BPO2 = None, bq_BPO3 = None, bq_BPO4 = None, bq_BPO5 = None\<rparr>"

definition activationTime :: "Config \<Rightarrow> u64 \<Rightarrow> u64" where
  "activationTime c epoch = word_of_int (cg_GenesisTime (cf_Chain c))
     + epoch * cg_SlotsPerEpoch (cf_Chain c) * slotSeconds c"

definition executionChainConfig :: "Config \<Rightarrow> paramsConfig" where
  "executionChainConfig c =
     (let fk = cg_Forks (cf_Chain c) in
      \<lparr>cc_ChainID = Some (uint (cg_ChainID (cf_Chain c))), cc_HomesteadBlock = Some 0, cc_DAOForkBlock = None,
       cc_EIP150Block = Some 0, cc_EIP155Block = Some 0, cc_EIP158Block = Some 0, cc_ByzantiumBlock = Some 0,
       cc_ConstantinopleBlock = Some 0, cc_PetersburgBlock = Some 0, cc_IstanbulBlock = Some 0,
       cc_MuirGlacierBlock = Some 0, cc_BerlinBlock = Some 0, cc_LondonBlock = Some 0,
       cc_ArrowGlacierBlock = Some 0, cc_GrayGlacierBlock = Some 0, cc_MergeNetsplitBlock = None,
       cc_ShanghaiTime = Some 0, cc_CancunTime = Some (activationTime c (fk_CancunEpoch fk)),
       cc_PragueTime = Some (activationTime c (fk_PragueEpoch fk)),
       cc_OsakaTime = Some (activationTime c (fk_OsakaEpoch fk)),
       cc_AmsterdamTime = (if fk_AmsterdamEpoch fk \<ge> 0
          then Some (activationTime c (word_of_int (fk_AmsterdamEpoch fk))) else None),
       cc_LaterTimes = [None, None, None, None, None, None, None],
       cc_EnableUBTAtGenesis = False, cc_TerminalTotalDifficulty = Some 0, cc_Ethash = False, cc_Clique = False,
       cc_BlobSchedule = Some repositoryBlobSchedule\<rparr>)"

definition matchesRepositoryBlobSchedule :: "blobSchedule option \<Rightarrow> bool" where
  "matchesRepositoryBlobSchedule schedule =
     (case schedule of
        None \<Rightarrow> False
      | Some s \<Rightarrow> bq_Cancun s = bq_Cancun repositoryBlobSchedule \<and> bq_Prague s = bq_Prague repositoryBlobSchedule
          \<and> bq_BPO1 s = None \<and> bq_BPO2 s = None \<and> bq_BPO3 s = None \<and> bq_BPO4 s = None \<and> bq_BPO5 s = None)"

definition executionForkEpoch :: "string \<Rightarrow> u64 \<Rightarrow> u64 \<Rightarrow> Config \<Rightarrow> error + u64" where
  "executionForkEpoch name genesisTime activation c =
     (if activation \<le> genesisTime then Inr 0
      else if cg_SlotsPerEpoch (cf_Chain c) > MaxUint64 div slotSeconds c
      then Inl (Err ''slot duration and slots per epoch overflow'')
      else if (activation - genesisTime) mod epochSeconds c \<noteq> 0
      then Inl (Errf ''%s activation time %d is not aligned to an epoch boundary from genesis %d''
             [ArgS name, ArgN (unat activation), ArgN (unat genesisTime)])
      else Inr ((activation - genesisTime) div epochSeconds c))"

definition validateGenesisBlockForks :: "paramsConfig \<Rightarrow> error + unit" where
  "validateGenesisBlockForks config =
     foldE (\<lambda>_ (name, blk, required).
       case blk of
         None \<Rightarrow> if required then Inl (Errf ''%s must be active at genesis'' [ArgS name]) else Inr ()
       | Some n \<Rightarrow> if n \<noteq> 0 then Inl (Errf ''%s must be zero when configured'' [ArgS name]) else Inr ()) ()
     [(''homesteadBlock'', cc_HomesteadBlock config, True),
      (''daoForkBlock'', cc_DAOForkBlock config, False),
      (''eip150Block'', cc_EIP150Block config, True),
      (''eip155Block'', cc_EIP155Block config, True),
      (''eip158Block'', cc_EIP158Block config, True),
      (''byzantiumBlock'', cc_ByzantiumBlock config, True),
      (''constantinopleBlock'', cc_ConstantinopleBlock config, True),
      (''petersburgBlock'', cc_PetersburgBlock config, True),
      (''istanbulBlock'', cc_IstanbulBlock config, True),
      (''muirGlacierBlock'', cc_MuirGlacierBlock config, False),
      (''berlinBlock'', cc_BerlinBlock config, True),
      (''londonBlock'', cc_LondonBlock config, True),
      (''arrowGlacierBlock'', cc_ArrowGlacierBlock config, False),
      (''grayGlacierBlock'', cc_GrayGlacierBlock config, False),
      (''mergeNetsplitBlock'', cc_MergeNetsplitBlock config, False)]"

definition validateGenesisSystemContracts ::
  "host \<Rightarrow> (address \<times> genesisAccount) list \<Rightarrow> bool \<Rightarrow> error + unit" where
  "validateGenesisSystemContracts H alloc amsterdam =
     foldE (\<lambda>_ name.
       case map_of alloc (fst (ho_SystemContract H name)) of
         None \<Rightarrow> Inl (Errf ''missing %s system contract at %s'' [ArgS name])
       | Some account \<Rightarrow>
           if ga_Nonce account \<noteq> 1 \<or> ga_Balance account \<noteq> Some 0
              \<or> ga_Code account \<noteq> snd (ho_SystemContract H name) \<or> ga_Storage account \<noteq> []
           then Inl (Errf ''invalid %s system contract account at %s'' [ArgS name]) else Inr ()) ()
     ([''EIP-4788 beacon roots'', ''EIP-2935 history storage'', ''EIP-7002 withdrawal queue'', ''EIP-7251 consolidation queue'']
      @ (if amsterdam then [''builder deposit'', ''builder exit'', ''deterministic factory''] else []))"

definition genesisForks :: "Config \<Rightarrow> genesis \<Rightarrow> paramsConfig \<Rightarrow> error + ForkConfig" where
  "genesisForks c g config =
     bindE (executionForkEpoch ''Cancun'' (gn_Timestamp g) (the (cc_CancunTime config)) c) (\<lambda>cancunEpoch.
     bindE (executionForkEpoch ''Prague'' (gn_Timestamp g) (the (cc_PragueTime config)) c) (\<lambda>pragueEpoch.
     bindE (executionForkEpoch ''Osaka'' (gn_Timestamp g) (the (cc_OsakaTime config)) c) (\<lambda>osakaEpoch.
     bindE (case cc_AmsterdamTime config of
              None \<Rightarrow> if gn_SlotNumber g \<noteq> None then Inl (Err ''slotNumber requires Amsterdam at genesis'') else Inr (- 1)
            | Some t \<Rightarrow>
                bindE (executionForkEpoch ''Amsterdam'' (gn_Timestamp g) t c) (\<lambda>epoch.
                if uint epoch > MaxInt64 \<or> epoch < osakaEpoch then Inl (Err ''invalid Amsterdam epoch'')
                else if gn_SlotNumber g \<noteq> None \<and> epoch \<noteq> 0
                then Inl (Err ''slotNumber requires Amsterdam at genesis'')
                else if gn_SlotNumber g \<noteq> None \<and> gn_SlotNumber g \<noteq> Some 0
                then Inl (Err ''genesis slotNumber must be zero'')
                else Inr (uint epoch))) (\<lambda>amsterdamEpoch.
     if cancunEpoch \<noteq> 0 \<or> cancunEpoch > pragueEpoch \<or> pragueEpoch > osakaEpoch
     then Inl (Err ''fork epochs must satisfy Cancun = 0 <= Prague <= Osaka'')
     else Inr \<lparr>fk_AmsterdamEpoch = amsterdamEpoch, fk_CancunEpoch = cancunEpoch, fk_PragueEpoch = pragueEpoch,
                fk_OsakaEpoch = osakaEpoch\<rparr>))))"

definition validateExecutionGenesis :: "host \<Rightarrow> Config \<Rightarrow> genesis option \<Rightarrow> error + ForkConfig" where
  "validateExecutionGenesis H c genesis =
     (case genesis of
        None \<Rightarrow> Inl (Err ''genesis is nil'')
      | Some g \<Rightarrow>
     if cg_SlotDuration (cf_Chain c) \<le> 0 \<or> cg_SlotDuration (cf_Chain c) mod second \<noteq> 0 \<or> cg_SlotsPerEpoch (cf_Chain c) = 0
     then Inl (Err ''slot duration must be positive whole seconds and slots per epoch must be positive'')
     else
     (case gn_Config g of
        None \<Rightarrow> Inl (Err ''missing config'')
      | Some config \<Rightarrow>
     if cc_ChainID config = None \<or> the (cc_ChainID config) \<le> 0 then Inl (Err ''config.chainId must be positive'')
     else if the (cc_ChainID config) \<ge> 2 ^ 64 then Inl (Err ''config.chainId exceeds uint64'')
     else if uint (gn_Timestamp g) > MaxInt64 then Inl (Err ''timestamp exceeds int64'')
     else if gn_Number g \<noteq> 0 then Inl (Err ''genesis block number must be zero'')
     else if gn_GasLimit g = 0 then Inl (Err ''gasLimit must be positive'')
     else if gn_Difficulty g \<noteq> Some 0 then Inl (Err ''difficulty must be zero for a proof-of-stake genesis'')
     else if cc_Ethash config \<or> cc_Clique config
     then Inl (Err ''ethash and clique consensus configurations are unsupported'')
     else if cc_TerminalTotalDifficulty config \<noteq> Some 0 then Inl (Err ''terminalTotalDifficulty must be zero'')
     else bindE (wrapE ''invalid fork order: %w'' (ho_CheckConfigForkOrder H config)) (\<lambda>_.
     bindE (validateGenesisBlockForks config) (\<lambda>_.
     if \<not> ho_IsLondon H config 0 then Inl (Err ''london must be active at genesis'')
     else if cc_ShanghaiTime config = None \<or> the (cc_ShanghaiTime config) > gn_Timestamp g
     then Inl (Err ''shanghai must be active at genesis'')
     else if cc_CancunTime config = None \<or> the (cc_CancunTime config) > gn_Timestamp g
     then Inl (Err ''cancun must be active at genesis'')
     else if cc_PragueTime config = None \<or> cc_OsakaTime config = None
     then Inl (Err ''both Prague and Osaka activation times are required'')
     else if cc_EnableUBTAtGenesis config \<or> list_ex (\<lambda>t. t \<noteq> None) (cc_LaterTimes config)
     then Inl (Err ''BPO, Bogota and UBT forks are outside the v0.1 protocol surface'')
     else if \<not> matchesRepositoryBlobSchedule (cc_BlobSchedule config)
     then Inl (Err ''blobSchedule must match ethertest's pinned Cancun and Prague parameters'')
     else bindE (validateGenesisSystemContracts H (gn_Alloc g) (cc_AmsterdamTime config \<noteq> None)) (\<lambda>_.
     genesisForks c g config)))))"

definition applyExecutionGenesis :: "host \<Rightarrow> Config \<Rightarrow> genesis option \<Rightarrow> error + Config" where
  "applyExecutionGenesis H c genesis =
     bindE (validateExecutionGenesis H c genesis) (\<lambda>forks.
     Inr (c\<lparr>cf_Chain := (cf_Chain c)\<lparr>cg_ChainID := word_of_int (the (cc_ChainID (the (gn_Config (the genesis))))),
        cg_GenesisTime := uint (gn_Timestamp (the genesis)), cg_GasLimit := gn_GasLimit (the genesis),
        cg_Forks := forks\<rparr>\<rparr>))"

definition resolveConfiguredGenesis ::
  "host \<Rightarrow> (string \<Rightarrow> error + genesis) \<Rightarrow> Config \<Rightarrow> error + Config \<times> genesis option" where
  "resolveConfiguredGenesis H loadExecutionGenesis c =
     bindE (if cg_GenesisFile (cf_Chain c) = [] then Inr (c, None)
            else bindE (loadExecutionGenesis (cg_GenesisFile (cf_Chain c))) (\<lambda>loaded.
              bindE (wrapE ''execution genesis %q: %w'' (applyExecutionGenesis H c (Some loaded))) (\<lambda>c.
              Inr (c, Some loaded)))) (\<lambda>(c, genesis).
     bindE (validateResolved H c) (\<lambda>_. Inr (c, genesis)))"

section \<open>Limits\<close>

definition checkResponseBytes :: "Config \<Rightarrow> int \<Rightarrow> error + unit" where
  "checkResponseBytes c bytes =
     (if bytes > lm_MaxResponseBytes (cf_Limits c)
      then Inl (ResourceLimit ''response bytes'' (nat bytes) (nat (lm_MaxResponseBytes (cf_Limits c)))) else Inr ())"

definition fixedListBytes :: "u64 \<Rightarrow> u64 \<Rightarrow> u64" where
  "fixedListBytes count elementBytes =
     (if count = 0 then 2
      else if count > (MaxUint64 - 1) div (elementBytes + 1) then MaxUint64
      else 1 + count * (elementBytes + 1))"

definition checkFixedListResponse :: "Config \<Rightarrow> string \<Rightarrow> u64 \<Rightarrow> u64 \<Rightarrow> error + unit" where
  "checkFixedListResponse c resource count elementBytes =
     (let requested = fixedListBytes count elementBytes in
      if count \<noteq> 0 \<and> elementBytes + 1 = 0 then Inl (Panic ''integer divide by zero'')
      else if requested > word_of_int (lm_MaxResponseBytes (cf_Limits c))
      then Inl (ResourceLimit (resource @ '' response bytes'') (unat requested)
             (unat (word_of_int (lm_MaxResponseBytes (cf_Limits c)) :: u64))) else Inr ())"

definition reserveSubscription :: "Config \<Rightarrow> int \<Rightarrow> error + int" where
  "reserveSubscription c active =
     (if active \<ge> lm_MaxSubscriptions (cf_Limits c)
      then Inl (ResourceLimit ''active subscription count'' (nat (active + 1)) (nat (lm_MaxSubscriptions (cf_Limits c))))
      else Inr (active + 1))"

definition releaseSubscription :: "int \<Rightarrow> int" where
  "releaseSubscription active = (if active > 0 then active - 1 else active)"

section \<open>Arithmetic of the schedule\<close>

lemma unat_MaxUint64: "unat MaxUint64 = 2 ^ 64 - 1"
  by (simp add: unsigned_minus_1_eq_mask mask_eq_exp_minus_1)

lemma unat_word_of_int: "0 \<le> i \<Longrightarrow> i < 2 ^ 64 \<Longrightarrow> unat (word_of_int i :: u64) = nat i"
  by (simp add: unsigned_of_int take_bit_int_eq_self)

text \<open>The number of seconds of an epoch, without wrap-around.\<close>

definition epochLength :: "Config \<Rightarrow> nat" where
  "epochLength c = unat (slotSeconds c) * unat (cg_SlotsPerEpoch (cf_Chain c))"

lemma epochSeconds_of_nat: "epochSeconds c = of_nat (epochLength c)"
  by (simp add: epochSeconds_def epochLength_def)

lemma activationTime_of_nat:
  assumes "0 \<le> cg_GenesisTime (cf_Chain c)"
  shows "activationTime c epoch = of_nat (nat (cg_GenesisTime (cf_Chain c)) + unat epoch * epochLength c)"
  using assms by (simp add: activationTime_def epochLength_def ac_simps)

lemma activationTime_exact:
  assumes "0 \<le> cg_GenesisTime (cf_Chain c)"
    and "nat (cg_GenesisTime (cf_Chain c)) + unat epoch * epochLength c < 2 ^ 64"
  shows "unat (activationTime c epoch) = nat (cg_GenesisTime (cf_Chain c)) + unat epoch * epochLength c"
  using assms(2) by (simp add: activationTime_of_nat [OF assms(1)] unat_of_nat del: of_nat_add of_nat_mult)

lemma validateChain_facts:
  assumes "validateChain c = Inr ()" and "cg_GenesisTime (cf_Chain c) \<le> MaxInt64"
    and "cg_SlotDuration (cf_Chain c) \<le> MaxInt64"
  shows "0 \<le> cg_GenesisTime (cf_Chain c)" and "0 < epochLength c" and "epochLength c < 2 ^ 64"
    and "nat (cg_GenesisTime (cf_Chain c)) + unat (fk_OsakaEpoch (cg_Forks (cf_Chain c))) * epochLength c < 2 ^ 64"
    and "fk_CancunEpoch (cg_Forks (cf_Chain c)) = 0"
    and "fk_PragueEpoch (cg_Forks (cf_Chain c)) \<le> fk_OsakaEpoch (cg_Forks (cf_Chain c))"
    and "cg_SlotsPerEpoch (cf_Chain c) \<le> MaxUint64 div 2"
    and "0 \<le> fk_AmsterdamEpoch (cg_Forks (cf_Chain c)) \<Longrightarrow>
      fk_OsakaEpoch (cg_Forks (cf_Chain c)) \<le> word_of_int (fk_AmsterdamEpoch (cg_Forks (cf_Chain c)))
      \<and> nat (cg_GenesisTime (cf_Chain c))
         + unat (word_of_int (fk_AmsterdamEpoch (cg_Forks (cf_Chain c))) :: u64) * epochLength c < 2 ^ 64"
proof -
  let ?ch = "cf_Chain c" and ?fk = "cg_Forks (cf_Chain c)"
  let ?g = "nat (cg_GenesisTime ?ch)" and ?E = "epochLength c"
  from assms(1) have v: "0 \<le> cg_GenesisTime ?ch" "0 < cg_SlotDuration ?ch" "cg_SlotsPerEpoch ?ch \<noteq> 0"
    "cg_SlotDuration ?ch mod second = 0"
    "cg_SlotsPerEpoch ?ch \<le> MaxUint64 div slotSeconds c"
    "fk_OsakaEpoch ?fk \<le> MaxUint64 div epochSeconds c"
    "word_of_int (cg_GenesisTime ?ch) \<le> MaxUint64 - fk_OsakaEpoch ?fk * epochSeconds c"
    "cg_SlotsPerEpoch ?ch \<le> MaxUint64 div 2" "fk_PragueEpoch ?fk \<le> fk_OsakaEpoch ?fk" "fk_CancunEpoch ?fk = 0"
    and am: "0 \<le> fk_AmsterdamEpoch ?fk \<Longrightarrow> fk_OsakaEpoch ?fk \<le> word_of_int (fk_AmsterdamEpoch ?fk)
      \<and> word_of_int (fk_AmsterdamEpoch ?fk) \<le> (MaxUint64 - word_of_int (cg_GenesisTime ?ch)) div epochSeconds c"
    unfolding validateChain_def Let_def by (auto simp: not_less not_le split: if_splits)
  show "0 \<le> cg_GenesisTime ?ch" "fk_CancunEpoch ?fk = 0" "fk_PragueEpoch ?fk \<le> fk_OsakaEpoch ?fk"
    "cg_SlotsPerEpoch ?ch \<le> MaxUint64 div 2" using v by simp_all
  have "cg_SlotDuration ?ch = second * (cg_SlotDuration ?ch div second)"
    using v(4) by (metis add.right_neutral mult_div_mod_eq)
  then have "1 \<le> cg_SlotDuration ?ch div second" using v(2) by linarith
  moreover have "cg_SlotDuration ?ch div second < 2 ^ 64" using assms(3) by simp
  ultimately have ss: "0 < unat (slotSeconds c)" by (simp add: slotSeconds_def unat_word_of_int)
  have spe: "0 < unat (cg_SlotsPerEpoch ?ch)" using v(3) by (simp add: unat_gt_0)
  show pos: "0 < ?E" using ss spe by (simp add: epochLength_def)
  have "unat (cg_SlotsPerEpoch ?ch) \<le> (2 ^ 64 - 1) div unat (slotSeconds c)"
    using v(5) by (simp add: word_le_nat_alt unat_div_distrib unat_MaxUint64)
  then have "unat (cg_SlotsPerEpoch ?ch) * unat (slotSeconds c) \<le> 2 ^ 64 - 1"
    using ss by (simp add: less_eq_div_iff_mult_less_eq)
  then show lt: "?E < 2 ^ 64" by (simp add: epochLength_def mult.commute)
  have es: "unat (epochSeconds c) = ?E" using lt by (simp add: epochSeconds_of_nat unat_of_nat)
  have g: "unat (word_of_int (cg_GenesisTime ?ch) :: u64) = ?g" using v(1) assms(2) by (simp add: unat_word_of_int)
  have "unat (fk_OsakaEpoch ?fk) \<le> (2 ^ 64 - 1) div ?E"
    using v(6) by (simp add: word_le_nat_alt unat_div_distrib unat_MaxUint64 es)
  then have o: "unat (fk_OsakaEpoch ?fk) * ?E \<le> 2 ^ 64 - 1" using pos by (simp add: less_eq_div_iff_mult_less_eq)
  then have "unat (fk_OsakaEpoch ?fk * epochSeconds c) = unat (fk_OsakaEpoch ?fk) * ?E"
    using es by (simp add: unat_mult_lem [THEN iffD1])
  moreover have "unat (MaxUint64 - w) = 2 ^ 64 - 1 - unat w" for w
    by (metis unat_MaxUint64 unat_sub word_order.extremum)
  ultimately show "?g + unat (fk_OsakaEpoch ?fk) * ?E < 2 ^ 64"
    using v(7) o g by (simp add: word_le_nat_alt)
  assume a: "0 \<le> fk_AmsterdamEpoch ?fk"
  have "unat (word_of_int (fk_AmsterdamEpoch ?fk) :: u64) \<le> (2 ^ 64 - 1 - ?g) div ?E"
    using am [OF a] g es \<open>\<And>w. unat (MaxUint64 - w) = 2 ^ 64 - 1 - unat w\<close> by (simp add: word_le_nat_alt unat_div_distrib)
  then have "unat (word_of_int (fk_AmsterdamEpoch ?fk) :: u64) * ?E \<le> 2 ^ 64 - 1 - ?g"
    using pos by (simp add: less_eq_div_iff_mult_less_eq)
  moreover have "?g \<le> 2 ^ 63 - 1" using assms(2) by simp
  ultimately show "fk_OsakaEpoch ?fk \<le> word_of_int (fk_AmsterdamEpoch ?fk)
      \<and> ?g + unat (word_of_int (fk_AmsterdamEpoch ?fk) :: u64) * ?E < 2 ^ 64"
    using am [OF a] by simp
qed

text \<open>
  C29: A configuration that validates gives a fork schedule free of wrap-around: every activation
  time is exactly the genesis time plus the epochs before it, Cancun is active at genesis, the forks
  follow each other, and twice the epoch length, the lag of finality, does not wrap either.
\<close>

theorem valid_config_schedule:
  assumes "validateResolved H c = Inr ()" and "cg_GenesisTime (cf_Chain c) \<le> MaxInt64"
    and "cg_SlotDuration (cf_Chain c) \<le> MaxInt64"
  shows "\<exists>cancun prague osaka. cc_CancunTime (executionChainConfig c) = Some cancun
    \<and> cc_PragueTime (executionChainConfig c) = Some prague \<and> cc_OsakaTime (executionChainConfig c) = Some osaka
    \<and> unat cancun = nat (cg_GenesisTime (cf_Chain c))
    \<and> unat prague = nat (cg_GenesisTime (cf_Chain c)) + unat (fk_PragueEpoch (cg_Forks (cf_Chain c))) * epochLength c
    \<and> unat osaka = nat (cg_GenesisTime (cf_Chain c)) + unat (fk_OsakaEpoch (cg_Forks (cf_Chain c))) * epochLength c
    \<and> cancun \<le> prague \<and> prague \<le> osaka
    \<and> (case cc_AmsterdamTime (executionChainConfig c) of
         None \<Rightarrow> fk_AmsterdamEpoch (cg_Forks (cf_Chain c)) < 0
       | Some amsterdam \<Rightarrow> osaka \<le> amsterdam
           \<and> unat amsterdam = nat (cg_GenesisTime (cf_Chain c))
               + unat (word_of_int (fk_AmsterdamEpoch (cg_Forks (cf_Chain c))) :: u64) * epochLength c)
    \<and> unat (2 * cg_SlotsPerEpoch (cf_Chain c)) = 2 * unat (cg_SlotsPerEpoch (cf_Chain c))"
proof -
  let ?ch = "cf_Chain c" and ?fk = "cg_Forks (cf_Chain c)"
  let ?g = "nat (cg_GenesisTime ?ch)" and ?E = "epochLength c"
  have "validateChain c = Inr ()" using assms(1) by (auto simp: validateResolved_def err_simps)
  note f = validateChain_facts [OF this assms(2,3)]
  have mono: "?g + unat e * ?E \<le> ?g + unat e' * ?E" if "e \<le> e'" for e e' :: u64
    using that by (simp add: word_le_nat_alt)
  have ex: "unat (activationTime c e) = ?g + unat e * ?E" if "e \<le> e'" "?g + unat e' * ?E < 2 ^ 64" for e e' :: u64
    using activationTime_exact [OF f(1), of e] mono [OF that(1)] that(2) by linarith
  have po: "fk_PragueEpoch ?fk \<le> fk_OsakaEpoch ?fk" by (rule f(6))
  note osaka = ex [OF order.refl f(4)] and prague = ex [OF po f(4)]
  have cancun: "unat (activationTime c (fk_CancunEpoch ?fk)) = ?g" using ex [of 0 "fk_OsakaEpoch ?fk"] f(4,5) by simp
  have "unat (cg_SlotsPerEpoch ?ch) \<le> (2 ^ 64 - 1) div 2"
    using f(7) by (simp add: word_le_nat_alt unat_div_distrib unat_MaxUint64)
  then have "unat (cg_SlotsPerEpoch ?ch) * 2 < 2 ^ 64" by simp
  then have lag: "unat (2 * cg_SlotsPerEpoch ?ch) = 2 * unat (cg_SlotsPerEpoch ?ch)"
    by (simp add: unat_word_ariths(2))
  have am: "case cc_AmsterdamTime (executionChainConfig c) of
         None \<Rightarrow> fk_AmsterdamEpoch ?fk < 0
       | Some amsterdam \<Rightarrow> activationTime c (fk_OsakaEpoch ?fk) \<le> amsterdam
           \<and> unat amsterdam = ?g + unat (word_of_int (fk_AmsterdamEpoch ?fk) :: u64) * ?E"
  proof (cases "0 \<le> fk_AmsterdamEpoch ?fk")
    case True
    note a = f(8) [OF True]
    show ?thesis
      using True ex [OF order.refl conjunct2 [OF a]] osaka mono [OF conjunct1 [OF a]]
      by (simp add: executionChainConfig_def Let_def word_le_nat_alt)
  qed (simp add: executionChainConfig_def Let_def)
  show ?thesis
    using osaka prague cancun lag am mono [OF po]
    by (simp add: executionChainConfig_def Let_def word_le_nat_alt)
qed

definition exampleHost :: host where
  "exampleHost = \<lparr>ho_IsMnemonicValid = (\<lambda>s. s = ''test test test test test test test test test test test junk''),
     ho_IsHexAddress = (\<lambda>_. False), ho_IsLoopbackIP = (\<lambda>ip. ip = ''127.0.0.1''), ho_LoadX509KeyPair = (\<lambda>_ _. Inr ()),
     ho_CheckConfigForkOrder = (\<lambda>_. Inr ()), ho_IsLondon = (\<lambda>config _. cc_LondonBlock config = Some 0),
     ho_SystemContract = (\<lambda>_. (1, [0xfe]))\<rparr>"

lemma DefaultConfig_valid: "validateResolved exampleHost DefaultConfig = Inr ()"
proof -
  have "parseBalance ''10000ether'' = Inr (10 ^ 22)" by code_simp
  moreover have "validateHTTP exampleHost DefaultConfig = Inr ()" by code_simp
  moreover have "map asciiLower ''info'' = ''info''" by code_simp
  moreover have "validateChain DefaultConfig = Inr ()" by code_simp
  moreover have "\<not> limitsInvalid DefaultConfig" by code_simp
  ultimately show ?thesis
    by (simp add: validateResolved_def DefaultConfig_def exampleHost_def)
qed

lemma valid_config_schedule_witness:
  "validateResolved exampleHost DefaultConfig = Inr ()
   \<and> (\<exists>osaka. cc_OsakaTime (executionChainConfig DefaultConfig) = Some osaka \<and> unat osaka = 0)"
  using valid_config_schedule [OF DefaultConfig_valid] DefaultConfig_valid
  by (auto simp: DefaultConfig_def)

text \<open>The epoch of a fork is exact: it leads back to the activation time.\<close>

lemma executionForkEpoch_time:
  assumes "executionForkEpoch name ts t c = Inr e"
  shows "ts + e * cg_SlotsPerEpoch (cf_Chain c) * slotSeconds c = max ts t"
proof (cases "t \<le> ts")
  case True
  then show ?thesis using assms by (simp add: executionForkEpoch_def max_def)
next
  case False
  then have e: "e = (t - ts) div epochSeconds c" and m: "(t - ts) mod epochSeconds c = 0"
    using assms by (auto simp: executionForkEpoch_def split: if_splits)
  have "e * epochSeconds c = t - ts" using div_mult_mod_eq [of "t - ts" "epochSeconds c"] e m by simp
  then show ?thesis using False by (simp add: epochSeconds_def ac_simps max_def)
qed

text \<open>
  C30: Configuring a node from an execution genesis loses nothing of the fork schedule: when the
  genesis is accepted, the schedule derived from the resulting configuration has the chain ID of the
  genesis, its blob schedule, and for every fork the activation time of the genesis, or the genesis
  time for a fork that is active from the start.
\<close>

theorem genesis_schedule_roundtrip:
  assumes "applyExecutionGenesis H c (Some g) = Inr c'" and "gn_Config g = Some config"
  shows "cc_ChainID (executionChainConfig c') = cc_ChainID config
    \<and> cc_CancunTime (executionChainConfig c') = map_option (max (gn_Timestamp g)) (cc_CancunTime config)
    \<and> cc_PragueTime (executionChainConfig c') = map_option (max (gn_Timestamp g)) (cc_PragueTime config)
    \<and> cc_OsakaTime (executionChainConfig c') = map_option (max (gn_Timestamp g)) (cc_OsakaTime config)
    \<and> cc_AmsterdamTime (executionChainConfig c') = map_option (max (gn_Timestamp g)) (cc_AmsterdamTime config)
    \<and> matchesRepositoryBlobSchedule (cc_BlobSchedule config)"
proof -
  obtain forks where v: "validateExecutionGenesis H c (Some g) = Inr forks"
    and c': "c' = c\<lparr>cf_Chain := (cf_Chain c)\<lparr>cg_ChainID := word_of_int (the (cc_ChainID config)),
        cg_GenesisTime := uint (gn_Timestamp g), cg_GasLimit := gn_GasLimit g, cg_Forks := forks\<rparr>\<rparr>"
    using assms by (auto simp: applyExecutionGenesis_def err_simps)
  from v assms(2) have forks: "genesisForks c g config = Inr forks"
    and id: "cc_ChainID config \<noteq> None" "0 < the (cc_ChainID config)" "the (cc_ChainID config) < 2 ^ 64"
    and times: "cc_CancunTime config \<noteq> None" "cc_PragueTime config \<noteq> None" "cc_OsakaTime config \<noteq> None"
    and blob: "matchesRepositoryBlobSchedule (cc_BlobSchedule config)"
    unfolding validateExecutionGenesis_def by (auto simp: err_simps split: if_splits)
  from forks have e: "executionForkEpoch ''Cancun'' (gn_Timestamp g) (the (cc_CancunTime config)) c = Inr (fk_CancunEpoch forks)"
    "executionForkEpoch ''Prague'' (gn_Timestamp g) (the (cc_PragueTime config)) c = Inr (fk_PragueEpoch forks)"
    "executionForkEpoch ''Osaka'' (gn_Timestamp g) (the (cc_OsakaTime config)) c = Inr (fk_OsakaEpoch forks)"
    and am: "case cc_AmsterdamTime config of None \<Rightarrow> fk_AmsterdamEpoch forks = - 1
      | Some t \<Rightarrow> \<exists>ae. executionForkEpoch ''Amsterdam'' (gn_Timestamp g) t c = Inr ae \<and> fk_AmsterdamEpoch forks = uint ae"
    unfolding genesisForks_def by (cases "cc_AmsterdamTime config"; auto simp: err_simps split: if_splits)+
  have act: "activationTime c' e = gn_Timestamp g + e * cg_SlotsPerEpoch (cf_Chain c) * slotSeconds c" for e
    by (simp add: activationTime_def c' slotSeconds_def)
  have "cc_AmsterdamTime (executionChainConfig c') = map_option (max (gn_Timestamp g)) (cc_AmsterdamTime config)"
  proof (cases "cc_AmsterdamTime config")
    case None
    then show ?thesis using am by (simp add: executionChainConfig_def Let_def c')
  next
    case (Some t)
    then obtain ae where ae: "executionForkEpoch ''Amsterdam'' (gn_Timestamp g) t c = Inr ae" "fk_AmsterdamEpoch forks = uint ae"
      using am by auto
    have "fk_AmsterdamEpoch (cg_Forks (cf_Chain c')) = uint ae" using ae(2) by (simp add: c')
    then show ?thesis using Some executionForkEpoch_time [OF ae(1)]
      by (simp add: executionChainConfig_def Let_def act)
  qed
  moreover have "cc_CancunTime (executionChainConfig c') = map_option (max (gn_Timestamp g)) (cc_CancunTime config)
    \<and> cc_PragueTime (executionChainConfig c') = map_option (max (gn_Timestamp g)) (cc_PragueTime config)
    \<and> cc_OsakaTime (executionChainConfig c') = map_option (max (gn_Timestamp g)) (cc_OsakaTime config)"
    using executionForkEpoch_time [OF e(1)] executionForkEpoch_time [OF e(2)] executionForkEpoch_time [OF e(3)] times
    by (simp add: executionChainConfig_def Let_def act) (auto simp: c')
  moreover have "cc_ChainID (executionChainConfig c') = cc_ChainID config"
    using id by (auto simp: executionChainConfig_def Let_def c' uint_word_of_int_eq take_bit_int_eq_self)
  ultimately show ?thesis using blob by simp
qed

definition systemAccounts :: "(address \<times> genesisAccount) list" where
  "systemAccounts = [(1, \<lparr>ga_Nonce = 1, ga_Balance = Some 0, ga_Code = [0xfe], ga_Storage = []\<rparr>)]"

definition exampleGenesisSpec :: genesis where
  "exampleGenesisSpec = \<lparr>gn_Config = Some ((executionChainConfig DefaultConfig)\<lparr>cc_OsakaTime := Some 1096, cc_AmsterdamTime := None\<rparr>),
     gn_Timestamp = 1000, gn_Number = 0, gn_GasLimit = 30000000, gn_Difficulty = Some 0, gn_SlotNumber = None,
     gn_Alloc = systemAccounts\<rparr>"

lemma genesis_schedule_roundtrip_witness:
  "\<exists>c'. applyExecutionGenesis exampleHost DefaultConfig (Some exampleGenesisSpec) = Inr c'
     \<and> cc_OsakaTime (executionChainConfig c') = Some 1096 \<and> fk_OsakaEpoch (cg_Forks (cf_Chain c')) = 2"
proof -
  let ?config = "(executionChainConfig DefaultConfig)\<lparr>cc_OsakaTime := Some 1096, cc_AmsterdamTime := None\<rparr>"
  have "validateGenesisBlockForks ?config = Inr ()"
    by (simp add: validateGenesisBlockForks_def executionChainConfig_def Let_def)
  moreover have "validateGenesisSystemContracts exampleHost systemAccounts False = Inr ()"
    by (simp add: validateGenesisSystemContracts_def systemAccounts_def exampleHost_def)
  moreover have "executionForkEpoch ''Osaka'' 1000 1096 DefaultConfig = Inr 2" by code_simp
  moreover have "activationTime DefaultConfig 0 = 0" by (simp add: activationTime_def DefaultConfig_def)
  ultimately obtain c' where c': "applyExecutionGenesis exampleHost DefaultConfig (Some exampleGenesisSpec) = Inr c'"
    "fk_OsakaEpoch (cg_Forks (cf_Chain c')) = 2"
    by (simp add: applyExecutionGenesis_def validateExecutionGenesis_def exampleGenesisSpec_def genesisForks_def
        exampleHost_def executionChainConfig_def Let_def DefaultConfig_def matchesRepositoryBlobSchedule_def
        repositoryBlobSchedule_def executionForkEpoch_def)
  have "gn_Config exampleGenesisSpec = Some ?config" by (simp add: exampleGenesisSpec_def)
  from genesis_schedule_roundtrip [OF c'(1) this] c' show ?thesis
    by (auto simp: exampleGenesisSpec_def max_def)
qed

text \<open>
  C31: The size check of a fixed-size list is exact. It passes exactly when the list, with one byte
  per separator and the brackets, fits the configured limit; the product never wraps around, so a
  large count cannot slip under the limit.
\<close>

theorem fixed_list_check_exact:
  assumes "0 < lm_MaxResponseBytes (cf_Limits c)" and "lm_MaxResponseBytes (cf_Limits c) \<le> MaxInt64"
    and "elementBytes \<noteq> MaxUint64"
  shows "checkFixedListResponse c resource count elementBytes = Inr () \<longleftrightarrow>
    (if count = 0 then 2 else 1 + unat count * (unat elementBytes + 1)) \<le> nat (lm_MaxResponseBytes (cf_Limits c))"
proof -
  let ?L = "lm_MaxResponseBytes (cf_Limits c)"
  have L: "unat (word_of_int ?L :: u64) = nat ?L" using assms(1,2) by (simp add: unat_word_of_int)
  have e: "unat (elementBytes + 1) = unat elementBytes + 1" using assms(3) by (simp add: unat_inc)
  have "elementBytes + 1 \<noteq> 0" using e by (metis Suc_eq_plus1 nat.distinct(1) unat_0)
  then have check: "checkFixedListResponse c resource count elementBytes = Inr () \<longleftrightarrow> \<not> fixedListBytes count elementBytes > word_of_int ?L"
    by (simp add: checkFixedListResponse_def Let_def)
  have m: "unat (MaxUint64 - 1) = 2 ^ 64 - 2" by (simp add: unat_MaxUint64 unat_minus_one)
  show ?thesis
  proof (cases "count = 0")
    case True
    then show ?thesis using L unfolding check by (simp add: fixedListBytes_def word_less_nat_alt not_less)
  next
    case False
    show ?thesis
    proof (cases "count > (MaxUint64 - 1) div (elementBytes + 1)")
      case True
      then have "\<not> unat count \<le> (2 ^ 64 - 2) div (unat elementBytes + 1)"
        using e m by (simp add: word_less_nat_alt unat_div_distrib)
      then have "\<not> unat count * (unat elementBytes + 1) \<le> 2 ^ 64 - 2" by (simp add: less_eq_div_iff_mult_less_eq)
      moreover have "nat ?L < 2 ^ 64 - 1" using assms(2) by simp
      ultimately show ?thesis
        using True \<open>count \<noteq> 0\<close> L
        unfolding check by (simp add: fixedListBytes_def word_less_nat_alt unat_MaxUint64 not_less)
    next
      case False
      then have "unat count \<le> (2 ^ 64 - 2) div (unat elementBytes + 1)"
        using e m by (simp add: word_less_nat_alt unat_div_distrib)
      then have le: "unat count * (unat elementBytes + 1) \<le> 2 ^ 64 - 2" by (simp add: less_eq_div_iff_mult_less_eq)
      then have p: "unat (count * (elementBytes + 1)) = unat count * (unat elementBytes + 1)"
        using e by (simp add: unat_word_ariths(2))
      then have "unat (1 + count * (elementBytes + 1)) = 1 + unat count * (unat elementBytes + 1)"
        using le by (simp add: unat_word_ariths(1))
      then show ?thesis
        using False \<open>count \<noteq> 0\<close> L unfolding check by (simp add: fixedListBytes_def word_less_nat_alt not_less)
    qed
  qed
qed

lemma fixed_list_check_exact_witness:
  "checkFixedListResponse DefaultConfig ''mine'' 256 68 = Inr () \<and> checkFixedListResponse DefaultConfig ''mine'' (2 ^ 63) 68 \<noteq> Inr ()"
  using fixed_list_check_exact [of DefaultConfig 68 "''mine''" 256] fixed_list_check_exact [of DefaultConfig 68 "''mine''" "2 ^ 63"]
  by (simp add: DefaultConfig_def)

end
