(* ===== verification/Chain.thy ===== *)
theory Chain
  imports Events Blob Config
begin

text \<open>
  The execution chain of \<open>src/chain.go\<close>: its state, the transaction pool, the choice of
  executable transactions, the slot index and the pending view.

  \<^item> go-ethereum's block chain, its transaction validation and its signers are not part of the
    repository. They are the functions of a record \<open>execution\<close> over an abstract chain state \<open>'x\<close>
    and an abstract account state \<open>'s\<close>, and every definition that calls them takes that record.
  \<^item> Go maps the code ranges over are association lists with distinct keys; the theorems hold for
    every order of the entries, as Go leaves the order open.
  \<^item> The locks of \<open>executionChain\<close> and the reference counts of tries are not modelled.
\<close>

section \<open>go-ethereum\<close>

record ('x, 's) execution =
  x_CurrentBlock :: "'x \<Rightarrow> hash \<times> header"
  x_Genesis :: "'x \<Rightarrow> block"
  x_GetBlockByHash :: "'x \<Rightarrow> hash \<Rightarrow> block option"
  x_GetBlock :: "'x \<Rightarrow> hash \<Rightarrow> u64 \<Rightarrow> block option"
  x_GetBlockByNumber :: "'x \<Rightarrow> u64 \<Rightarrow> block option"
  x_GetCanonicalHash :: "'x \<Rightarrow> u64 \<Rightarrow> hash"
  x_SetCanonical :: "block \<Rightarrow> 'x \<Rightarrow> 'x \<times> error option"
  x_WriteBlock :: "block \<Rightarrow> receipt list \<Rightarrow> 'x \<Rightarrow> 'x"
  x_ReadTxLookupEntry :: "'x \<Rightarrow> hash \<Rightarrow> u64 option"
  x_DeleteTxLookupEntry :: "hash \<Rightarrow> 'x \<Rightarrow> 'x"
  x_DeleteCanonicalHash :: "u64 \<Rightarrow> 'x \<Rightarrow> 'x"
  x_DeleteBlock :: "hash \<Rightarrow> u64 \<Rightarrow> 'x \<Rightarrow> 'x"
  x_StateAt :: "'x \<Rightarrow> header \<Rightarrow> error + 's"
  s_GetNonce :: "'s \<Rightarrow> address \<Rightarrow> u64"
  c_IsLondon :: "paramsConfig \<Rightarrow> u64 \<Rightarrow> bool"
  c_IsShanghai :: "paramsConfig \<Rightarrow> u64 \<Rightarrow> u64 \<Rightarrow> bool"
  c_IsCancun :: "paramsConfig \<Rightarrow> u64 \<Rightarrow> u64 \<Rightarrow> bool"
  c_IsPrague :: "paramsConfig \<Rightarrow> u64 \<Rightarrow> u64 \<Rightarrow> bool"
  c_IsOsaka :: "paramsConfig \<Rightarrow> u64 \<Rightarrow> u64 \<Rightarrow> bool"
  c_IsAmsterdam :: "paramsConfig \<Rightarrow> u64 \<Rightarrow> u64 \<Rightarrow> bool"
  t_Sender :: "paramsConfig \<Rightarrow> u64 \<Rightarrow> u64 \<Rightarrow> tx \<Rightarrow> error + address"
  t_EffectiveGasTip :: "tx \<Rightarrow> nat option \<Rightarrow> int"
  t_ToV1 :: "BlobTxSidecar \<Rightarrow> error + BlobTxSidecar"
  t_ValidateTransaction :: "paramsConfig \<Rightarrow> tx \<Rightarrow> header \<Rightarrow> error + unit"
  t_ValidateTransactionWithState ::
    "paramsConfig \<Rightarrow> tx \<Rightarrow> header \<Rightarrow> 's \<Rightarrow> (address \<Rightarrow> nat) \<Rightarrow> (address \<Rightarrow> u64 \<Rightarrow> nat option) \<Rightarrow> error + unit"
  k_kzg :: kzg

section \<open>State\<close>

type_synonym txPool = "(address \<times> (u64 \<times> tx) list) list"

record 's pendingView =
  pv_block :: block
  pv_state :: 's
  pv_receipts :: "receipt list"
  pv_executable :: "hash list"
  pv_queued :: "hash list"
  pv_referenced :: "hash option"

record ('x, 's) executionChain =
  ch_config :: paramsConfig
  ch_db :: database
  ch_blockchain :: 'x
  ch_feeRecipient :: address
  ch_slot :: u64
  ch_genesisTime :: u64
  ch_genesisHash :: hash
  ch_externalGenesis :: bool
  ch_slotDuration :: u64
  ch_slotByHash :: "(hash \<times> u64) list"
  ch_canonicalBlockBySlot :: "(u64 \<times> hash) list"
  ch_beaconBlockByRoot :: "(hash \<times> hash) list"
  ch_lastProcessedSlot :: u64
  ch_timelineComplete :: bool
  ch_finalityPaused :: bool
  ch_finalitySlot :: u64
  ch_blockSafety :: "(hash \<times> BlockSafety) list"
  ch_sessionTainted :: bool
  ch_firstUnsafeBlock :: "hash option"
  ch_taintReasons :: "string list"
  ch_pending :: txPool
  ch_arrival :: "(hash \<times> u64) list"
  ch_nextArrival :: u64
  ch_blobs :: "(hash \<times> blobBundle) list"
  ch_order :: string
  ch_pendingView :: "'s pendingView option"

record transactionPoolSnapshot =
  sn_pending :: txPool
  sn_arrival :: "(hash \<times> u64) list"
  sn_nextArrival :: u64
  sn_blobs :: "(hash \<times> blobBundle) list"

text \<open>Reading a Go map: an absent key reads as the zero value.\<close>

definition getOr :: "'v \<Rightarrow> ('k \<times> 'v) list \<Rightarrow> 'k \<Rightarrow> 'v" where
  "getOr zero m k = (case map_of m k of None \<Rightarrow> zero | Some v \<Rightarrow> v)"

definition pooled :: "txPool \<Rightarrow> address \<Rightarrow> u64 \<Rightarrow> tx option" where
  "pooled pending a n = map_of (getOr [] pending a) n"

section \<open>Adding a transaction\<close>

text \<open>The sidecar check of \<open>addTransaction\<close>: the transaction that go-ethereum validates.\<close>

definition validationTx ::
  "('x, 's, 'z) execution_scheme \<Rightarrow> paramsConfig \<Rightarrow> header \<Rightarrow> tx \<Rightarrow> error + tx" where
  "validationTx X config head tx =
     (case tx_Sidecar tx of
        None \<Rightarrow> Inr tx
      | Some sidecar \<Rightarrow>
          let expectedVersion =
            (if c_IsOsaka X config (h_Number head) (h_Time head) then 1 else 0 :: byte) in
          if sc_Version sidecar \<noteq> expectedVersion
          then Inl (Errf ''%w: unexpected sidecar version, want: %d, got: %d''
                 [ArgN (unat expectedVersion), ArgN (unat (sc_Version sidecar))])
          else if sc_Version sidecar = 0
          then bindE (wrapE ''%w: convert blob sidecar: %v'' (t_ToV1 X sidecar)) (\<lambda>converted.
                 Inr (tx\<lparr>tx_Sidecar := Some converted\<rparr>))
          else Inr tx)"

definition underpriced :: "tx \<Rightarrow> tx \<Rightarrow> bool" where
  "underpriced previous tx \<longleftrightarrow>
     tx_GasFeeCap tx < tx_GasFeeCap previous * 110 div 100
     \<or> tx_GasTipCap tx < tx_GasTipCap previous * 110 div 100"

definition validationHeader :: "('x, 's, 'z) execution_scheme \<Rightarrow> ('x, 's) executionChain \<Rightarrow> header" where
  "validationHeader X c = (case ch_pendingView c of
     None \<Rightarrow> snd (x_CurrentBlock X (ch_blockchain c)) | Some view \<Rightarrow> b_Header (pv_block view))"

text \<open>\<open>from, _ := types.Sender(signer, tx)\<close>: an error leaves the zero address.\<close>

definition poolSender :: "('x, 's, 'z) execution_scheme \<Rightarrow> ('x, 's) executionChain \<Rightarrow> tx \<Rightarrow> address" where
  "poolSender X c tx =
     (case t_Sender X (ch_config c) (h_Number (validationHeader X c)) (h_Time (validationHeader X c)) tx of
        Inl _ \<Rightarrow> 0 | Inr a \<Rightarrow> a)"

definition addTransaction ::
  "('x, 's, 'z) execution_scheme \<Rightarrow> tx \<Rightarrow> ('x, 's) executionChain \<Rightarrow> error + ('x, 's) executionChain" where
  "addTransaction X tx c =
     (let head = snd (x_CurrentBlock X (ch_blockchain c)) in
      bindE (validationTx X (ch_config c) (validationHeader X c) tx) (\<lambda>vtx.
      bindE (t_ValidateTransaction X (ch_config c) vtx (validationHeader X c)) (\<lambda>_.
      let from = poolSender X c tx in
      bindE (x_StateAt X (ch_blockchain c) head) (\<lambda>state.
      bindE (case pooled (ch_pending c) from (tx_Nonce tx) of
               None \<Rightarrow> Inr ()
             | Some previous \<Rightarrow>
                 if underpriced previous tx then Inl (Err ''replacement transaction underpriced'') else Inr ()) (\<lambda>_.
      bindE (t_ValidateTransactionWithState X (ch_config c) vtx (validationHeader X c) state
               (\<lambda>address. sum_list (map (tx_Cost \<circ> snd) (getOr [] (ch_pending c) address)))
               (\<lambda>address nonce. map_option tx_Cost (pooled (ch_pending c) address nonce))) (\<lambda>_.
      bindE (case tx_Sidecar tx of
               None \<Rightarrow> Inr None
             | Some sidecar \<Rightarrow>
                 bindE (wrapE ''%w: %v'' (newBlobBundle (k_kzg X) (Some sidecar))) (\<lambda>bundle. Inr (Some bundle))) (\<lambda>retainedBundle.
      let byNonce = getOr [] (ch_pending c) from;
          c = (case map_of byNonce (tx_Nonce tx) of
                 Some previous \<Rightarrow>
                   c\<lparr>ch_arrival := AList.delete (tx_Hash previous)
                       (AList.update (tx_Hash tx) (getOr 0 (ch_arrival c) (tx_Hash previous)) (ch_arrival c)),
                     ch_blobs := AList.delete (tx_Hash previous) (ch_blobs c)\<rparr>
               | None \<Rightarrow>
                   c\<lparr>ch_nextArrival := ch_nextArrival c + 1,
                     ch_arrival := AList.update (tx_Hash tx) (ch_nextArrival c + 1) (ch_arrival c)\<rparr>);
          c = c\<lparr>ch_pending := AList.update from (AList.update (tx_Nonce tx) tx byNonce) (ch_pending c)\<rparr>
      in Inr (case retainedBundle of
                None \<Rightarrow> c
              | Some bundle \<Rightarrow> c\<lparr>ch_blobs := AList.update (tx_Hash tx) bundle (ch_blobs c)\<rparr>))))))))"

definition snapshotTransactionPool :: "('x, 's) executionChain \<Rightarrow> transactionPoolSnapshot" where
  "snapshotTransactionPool c =
     \<lparr>sn_pending = map (\<lambda>(a, txs). (a, map (\<lambda>(n, t). (n, t)) txs)) (ch_pending c),
      sn_arrival = ch_arrival c, sn_nextArrival = ch_nextArrival c,
      sn_blobs = map (\<lambda>(h, bundle). (h, the (blobBundle_copy (Some bundle)))) (ch_blobs c)\<rparr>"

definition restoreTransactionPool ::
  "transactionPoolSnapshot \<Rightarrow> ('x, 's) executionChain \<Rightarrow> ('x, 's) executionChain" where
  "restoreTransactionPool snapshot c = c\<lparr>ch_pending := sn_pending snapshot, ch_arrival := sn_arrival snapshot,
     ch_nextArrival := sn_nextArrival snapshot, ch_blobs := sn_blobs snapshot\<rparr>"

definition blobPuts :: "('x, 's) executionChain \<Rightarrow> block \<Rightarrow> journalKV list" where
  "blobPuts c b = concat (map (\<lambda>transaction.
     (case map_of (ch_blobs c) (tx_Hash transaction) of
        None \<Rightarrow> []
      | Some bundle \<Rightarrow> [\<lparr>kv_Key = KBlob (tx_Hash transaction), kv_Value = VBlob bundle\<rparr>])) (b_Transactions b))"

section \<open>Executable transactions\<close>

definition hexDigits :: string where
  "hexDigits = ''0123456789abcdef''"

definition Hex :: "hash \<Rightarrow> string" where
  "Hex h = ''0x'' @ concat (map (\<lambda>b. [hexDigits ! (unat b div 16), hexDigits ! (unat b mod 16)]) (arr_bytes h))"

definition transactionBefore ::
  "('x, 's, 'z) execution_scheme \<Rightarrow> ('x, 's) executionChain \<Rightarrow> tx \<Rightarrow> tx \<Rightarrow> bool" where
  "transactionBefore X c left right =
     (if ch_order c = ''fifo''
      then getOr 0 (ch_arrival c) (tx_Hash left) < getOr 0 (ch_arrival c) (tx_Hash right)
      else
        let baseFee = h_BaseFee (snd (x_CurrentBlock X (ch_blockchain c)));
            leftTip = t_EffectiveGasTip X left baseFee;
            rightTip = t_EffectiveGasTip X right baseFee in
        if leftTip \<noteq> rightTip then leftTip > rightTip
        else Hex (tx_Hash left) < Hex (tx_Hash right))"

text \<open>One pass over \<open>nextNonce\<close>: the first candidate that no later candidate precedes.\<close>

definition selectStep ::
  "(tx \<Rightarrow> tx \<Rightarrow> bool) \<Rightarrow> txPool \<Rightarrow> address \<times> u64 \<Rightarrow> (address \<times> tx) option \<Rightarrow> (address \<times> tx) option" where
  "selectStep before pending = (\<lambda>(address, nonce) selected.
     case pooled pending address nonce of
       None \<Rightarrow> selected
     | Some candidate \<Rightarrow>
         (case selected of
            None \<Rightarrow> Some (address, candidate)
          | Some (_, current) \<Rightarrow> if before candidate current then Some (address, candidate) else selected))"

definition selectNext ::
  "(tx \<Rightarrow> tx \<Rightarrow> bool) \<Rightarrow> txPool \<Rightarrow> (address \<times> u64) list \<Rightarrow> (address \<times> tx) option" where
  "selectNext before pending nextNonce = fold (selectStep before pending) nextNonce None"

text \<open>
  The selection loop. It stops when no account has a transaction at its next nonce; the fuel is
  one more than the number of pooled transactions, and running out of it is a panic of the model.
\<close>

fun selectLoop ::
  "(tx \<Rightarrow> tx \<Rightarrow> bool) \<Rightarrow> txPool \<Rightarrow> nat \<Rightarrow> (address \<times> u64) list \<Rightarrow> error + (address \<times> tx) list" where
  "selectLoop before pending 0 nextNonce = Inl (Panic ''selection loop'')"
| "selectLoop before pending (Suc fuel) nextNonce =
     (case selectNext before pending nextNonce of
        None \<Rightarrow> Inr []
      | Some (address, selected) \<Rightarrow>
          bindE (selectLoop before pending fuel
                   (AList.update address (getOr 0 nextNonce address + 1) nextNonce)) (\<lambda>rest.
          Inr ((address, selected) # rest)))"

definition pendingCount :: "('x, 's) executionChain \<Rightarrow> nat" where
  "pendingCount c = sum_list (map (\<lambda>(_, txs). length txs) (ch_pending c))"

definition selectedTransactions ::
  "('x, 's, 'z) execution_scheme \<Rightarrow> ('x, 's) executionChain \<Rightarrow> error + (address \<times> tx) list" where
  "selectedTransactions X c =
     bindE (x_StateAt X (ch_blockchain c) (snd (x_CurrentBlock X (ch_blockchain c)))) (\<lambda>state.
     selectLoop (transactionBefore X c) (ch_pending c) (pendingCount c + 1)
       (map (\<lambda>(address, _). (address, s_GetNonce X state address)) (ch_pending c)))"

definition executableTransactions ::
  "('x, 's, 'z) execution_scheme \<Rightarrow> ('x, 's) executionChain \<Rightarrow> error + tx list" where
  "executableTransactions X c = bindE (selectedTransactions X c) (\<lambda>selected. Inr (map snd selected))"

section \<open>The slot index\<close>

definition slotOf :: "('x, 's) executionChain \<Rightarrow> block \<Rightarrow> u64" where
  "slotOf c b =
     (case map_of (ch_slotByHash c) (b_Hash b) of
        Some slot \<Rightarrow> slot
      | None \<Rightarrow>
          if b_Time b \<le> ch_genesisTime c \<or> ch_slotDuration c = 0 then 0
          else (b_Time b - ch_genesisTime c) div ch_slotDuration c)"

definition canonicalAtSlot ::
  "('x, 's, 'z) execution_scheme \<Rightarrow> ('x, 's) executionChain \<Rightarrow> u64 \<Rightarrow> block option" where
  "canonicalAtSlot X c slot =
     (case map_of (ch_canonicalBlockBySlot c) slot of
        None \<Rightarrow> None
      | Some hash \<Rightarrow>
          (case x_GetBlockByHash X (ch_blockchain c) hash of
             None \<Rightarrow> None
           | Some b \<Rightarrow> if x_GetCanonicalHash X (ch_blockchain c) (b_Number b) = hash then Some b else None))"

function blockAtOrBeforeSlot ::
  "('x, 's, 'z) execution_scheme \<Rightarrow> ('x, 's) executionChain \<Rightarrow> u64 \<Rightarrow> block" where
  "blockAtOrBeforeSlot X c slot =
     (case canonicalAtSlot X c slot of
        Some b \<Rightarrow> b
      | None \<Rightarrow> if slot = 0 then x_Genesis X (ch_blockchain c) else blockAtOrBeforeSlot X c (slot - 1))"
  by pat_completeness auto
termination
  by (relation "measure (\<lambda>(_, _, slot). unat slot)") (simp_all add: unat_minus_one unat_gt_0)

declare blockAtOrBeforeSlot.simps [simp del]

definition applyTransaction ::
  "('x, 's, 'z) execution_scheme \<Rightarrow> block \<Rightarrow> tx \<Rightarrow> ('x, 's) executionChain \<Rightarrow> ('x, 's) executionChain" where
  "applyTransaction X b tx c =
     (case t_Sender X (ch_config c) (b_Number b) (b_Time b) tx of
        Inl _ \<Rightarrow> c
      | Inr from \<Rightarrow>
          let rest = AList.delete (tx_Nonce tx) (getOr [] (ch_pending c) from) in
          c\<lparr>ch_arrival := AList.delete (tx_Hash tx) (ch_arrival c),
            ch_blobs := AList.delete (tx_Hash tx) (ch_blobs c),
            ch_pending := (if length rest = 0 then AList.delete from (ch_pending c)
              else AList.update from rest (ch_pending c))\<rparr>)"

definition applyCanonicalBlock ::
  "('x, 's, 'z) execution_scheme \<Rightarrow> block \<Rightarrow> u64 \<Rightarrow> ('x, 's) executionChain \<Rightarrow> ('x, 's) executionChain" where
  "applyCanonicalBlock X b targetSlot c =
     (let c = fold (applyTransaction X b) (b_Transactions b) c in
      c\<lparr>ch_slot := targetSlot, ch_lastProcessedSlot := targetSlot,
        ch_slotByHash := AList.update (b_Hash b) targetSlot (ch_slotByHash c),
        ch_canonicalBlockBySlot := AList.update targetSlot (b_Hash b) (ch_canonicalBlockBySlot c)\<rparr>)"

section \<open>Blobs and the pending view\<close>

definition blobSidecarForVersion ::
  "('x, 's, 'z) execution_scheme \<Rightarrow> ('x, 's) executionChain \<Rightarrow> hash \<Rightarrow> byte \<Rightarrow> BlobTxSidecar option" where
  "blobSidecarForVersion X c hash version =
     (case map_of (ch_blobs c) hash of
        Some bundle \<Rightarrow> blobBundle_sidecar (k_kzg X) (Some bundle) version
      | None \<Rightarrow>
          (case map_of (ch_db c) (KBlob hash) of
             Some (Val (VBlob bundle)) \<Rightarrow>
               if blobBundle_validate (k_kzg X) bundle \<noteq> Inr () then None
               else blobBundle_sidecar (k_kzg X) (Some bundle) version
           | _ \<Rightarrow> None))"

definition poolTransactions :: "('x, 's) executionChain \<Rightarrow> tx list" where
  "poolTransactions c = concat (map (\<lambda>(_, byNonce). map snd byNonce) (ch_pending c))"

definition setPendingView ::
  "'s pendingView \<Rightarrow> ('x, 's) executionChain \<Rightarrow> ('x, 's) executionChain" where
  "setPendingView view c =
     (let executable = map tx_Hash (b_Transactions (pv_block view));
          queued = filter (\<lambda>h. h \<notin> set executable) (map tx_Hash (poolTransactions c)) in
      c\<lparr>ch_pendingView := Some (view\<lparr>pv_executable := executable, pv_queued := queued\<rparr>)\<rparr>)"

definition pendingClassification :: "('x, 's) executionChain \<Rightarrow> hash \<Rightarrow> bool \<times> bool" where
  "pendingClassification c hash =
     (case ch_pendingView c of
        None \<Rightarrow> (False, False)
      | Some view \<Rightarrow> (hash \<in> set (pv_executable view), hash \<in> set (pv_queued view)))"

definition pendingBlock :: "('x, 's) executionChain \<Rightarrow> block option" where
  "pendingBlock c = map_option pv_block (ch_pendingView c)"

section \<open>The selection loop\<close>

lemma getOr_update: "getOr z (AList.update k v m) k' = (if k' = k then v else getOr z m k')"
  by (simp add: getOr_def update_conv')

lemma getOr_mem: "distinct (map fst m) \<Longrightarrow> (k, v) \<in> set m \<Longrightarrow> getOr z m k = v"
  by (simp add: getOr_def)

text \<open>The number of transactions an account can execute from a nonce on.\<close>

definition runLength :: "txPool \<Rightarrow> address \<Rightarrow> u64 \<Rightarrow> nat \<Rightarrow> bool" where
  "runLength pending a n k \<longleftrightarrow>
     (\<forall>i < k. pooled pending a (n + of_nat i) \<noteq> None) \<and> pooled pending a (n + of_nat k) = None"

lemma runLength_Suc:
  "pooled pending a n \<noteq> None \<Longrightarrow> runLength pending a (n + 1) k \<longleftrightarrow> runLength pending a n (Suc k)"
proof -
  assume p: "pooled pending a n \<noteq> None"
  have "(\<forall>i < Suc k. pooled pending a (n + of_nat i) \<noteq> None)
      \<longleftrightarrow> (\<forall>i < k. pooled pending a (n + 1 + of_nat i) \<noteq> None)"
    using p by (simp add: All_less_Suc2 add.assoc)
  then show ?thesis unfolding runLength_def by (simp add: add.assoc)
qed

lemma runLength_unique: "runLength P a n j \<Longrightarrow> runLength P a n k \<Longrightarrow> j = k"
  unfolding runLength_def by (meson linorder_neqE_nat)

lemma runLength_0: "runLength P a n k \<Longrightarrow> pooled P a n = None \<longleftrightarrow> k = 0"
  unfolding runLength_def by (cases k) force+

text \<open>A pool with fewer than \<open>2^64\<close> entries for an account has a gap in its nonces.\<close>

lemma runLength_exists:
  assumes "length (getOr [] pending a) < 2 ^ 64"
  shows "\<exists>k \<le> length (getOr [] pending a). runLength pending a n k"
proof -
  let ?m = "getOr [] pending a"
  have "\<exists>k \<le> length ?m. pooled pending a (n + of_nat k) = None"
  proof (rule ccontr)
    assume "\<not> ?thesis"
    then have sub: "(\<lambda>i. n + of_nat i) ` {..length ?m} \<subseteq> fst ` set ?m"
      by (auto simp: pooled_def dom_map_of_conv_image_fst [symmetric])
    have "inj_on (\<lambda>i. n + of_nat i :: u64) {..length ?m}"
    proof (rule inj_onI)
      fix i j assume "i \<in> {..length ?m}" "j \<in> {..length ?m}" "n + of_nat i = n + (of_nat j :: u64)"
      then have "unat (of_nat i :: u64) = unat (of_nat j :: u64)" "i < 2 ^ 64" "j < 2 ^ 64" using assms by auto
      then show "i = j" by (simp add: unat_of_nat)
    qed
    then have "card ((\<lambda>i. n + of_nat i :: u64) ` {..length ?m}) = Suc (length ?m)"
      by (simp add: card_image)
    moreover have "card (fst ` set ?m) \<le> length ?m"
      by (metis card_length length_map list.set_map)
    ultimately show False using card_mono [OF _ sub] by simp
  qed
  then obtain k where k: "k \<le> length ?m" "pooled pending a (n + of_nat k) = None" by blast
  define l where "l = (LEAST k. pooled pending a (n + of_nat k) = None)"
  have "pooled pending a (n + of_nat l) = None" unfolding l_def by (rule LeastI [of _ k]) (rule k)
  moreover have "l \<le> k" unfolding l_def by (rule Least_le) (rule k)
  moreover have "\<forall>i < l. pooled pending a (n + of_nat i) \<noteq> None" unfolding l_def by (metis not_less_Least)
  ultimately show ?thesis using k(1) unfolding runLength_def by (meson le_trans)
qed

text \<open>What the loop relies on: the order of the pool is a strict order.\<close>

locale tx_order =
  fixes before :: "tx \<Rightarrow> tx \<Rightarrow> bool"
  assumes irreflexive: "\<not> before t t"
    and transitive: "before t u \<Longrightarrow> before u v \<Longrightarrow> before t v"
begin

lemma selectNext_Some_step:
  assumes "fold (selectStep before pending) nn sel = r"
  shows "(r = None \<longleftrightarrow> sel = None \<and> (\<forall>(a, n) \<in> set nn. pooled pending a n = None))
    \<and> (\<forall>a t. r = Some (a, t) \<longrightarrow> (sel = r \<or> (\<exists>n. (a, n) \<in> set nn \<and> pooled pending a n = Some t))
        \<and> (\<forall>s. sel = Some s \<longrightarrow> snd s = t \<or> before t (snd s))
        \<and> (\<forall>b m u. (b, m) \<in> set nn \<longrightarrow> pooled pending b m = Some u \<longrightarrow> \<not> before u t))"
  using assms
proof (induction nn arbitrary: sel)
  case Nil
  then show ?case by auto
next
  case (Cons p nn)
  obtain a0 n0 where p: "p = (a0, n0)" by (cases p)
  show ?case
  proof (cases "pooled pending a0 n0")
    case None
    then have "fold (selectStep before pending) nn sel = r"
      using Cons.prems by (simp add: p selectStep_def)
    from Cons.IH [OF this] None show ?thesis by (auto simp: p)
  next
    case (Some t0)
    define sel' where "sel' = (case sel of None \<Rightarrow> Some (a0, t0)
       | Some (_, current) \<Rightarrow> if before t0 current then Some (a0, t0) else sel)"
    have f: "fold (selectStep before pending) nn sel' = r"
      using Cons.prems by (simp add: p Some sel'_def selectStep_def)
    have "sel' \<noteq> None" by (auto simp: sel'_def split: option.splits)
    then obtain s' where s': "sel' = Some s'" by blast
    have old: "snd s' = snd s \<or> before (snd s') (snd s)" if "sel = Some s" for s
      using that s' by (cases s) (auto simp: sel'_def split: if_splits)
    have new: "\<not> before t0 (snd s')"
      using s' irreflexive by (auto simp: sel'_def split: option.splits if_splits)
    have src: "s' = (a0, t0) \<or> sel = Some s'"
      using s' by (auto simp: sel'_def split: option.splits if_splits)
    note IH = Cons.IH [OF f]
    have ne: "r \<noteq> None" using IH s' by simp
    have "(sel = r \<or> (\<exists>n. (a, n) \<in> set (p # nn) \<and> pooled pending a n = Some t))
        \<and> (\<forall>s. sel = Some s \<longrightarrow> snd s = t \<or> before t (snd s))
        \<and> (\<forall>b m u. (b, m) \<in> set (p # nn) \<longrightarrow> pooled pending b m = Some u \<longrightarrow> \<not> before u t)"
      if r: "r = Some (a, t)" for a t
    proof -
      from IH r have i1: "sel' = r \<or> (\<exists>n. (a, n) \<in> set nn \<and> pooled pending a n = Some t)"
        and i2: "snd s' = t \<or> before t (snd s')"
        and i3: "\<And>b m u. (b, m) \<in> set nn \<Longrightarrow> pooled pending b m = Some u \<Longrightarrow> \<not> before u t"
        using s' by auto
      have "sel = r \<or> (\<exists>n. (a, n) \<in> set (p # nn) \<and> pooled pending a n = Some t)"
        using i1 src s' r p Some by auto
      moreover have "snd s = t \<or> before t (snd s)" if "sel = Some s" for s
        using old [OF that] i2 transitive [of t "snd s'" "snd s"] by auto
      moreover have "\<not> before u t" if "(b, m) \<in> set (p # nn)" "pooled pending b m = Some u" for b m u
      proof (cases "(b, m) \<in> set nn")
        case True
        then show ?thesis using i3 that(2) by blast
      next
        case False
        then have "u = t0" using that p Some by auto
        then show ?thesis using new i2 transitive [of u t "snd s'"] by auto
      qed
      ultimately show ?thesis by blast
    qed
    moreover have "\<not> (\<forall>(a, n) \<in> set (p # nn). pooled pending a n = None)" using p Some by auto
    ultimately show ?thesis using ne by blast
  qed
qed

lemma selectNext_None: "selectNext before pending nn = None \<longleftrightarrow> (\<forall>(a, n) \<in> set nn. pooled pending a n = None)"
  using selectNext_Some_step [of pending nn None] unfolding selectNext_def by blast

lemma selectNext_Some:
  assumes "selectNext before pending nn = Some (a, t)"
  shows "(\<exists>n. (a, n) \<in> set nn \<and> pooled pending a n = Some t)
    \<and> (\<forall>b m u. (b, m) \<in> set nn \<longrightarrow> pooled pending b m = Some u \<longrightarrow> \<not> before u t)"
  using selectNext_Some_step [of pending nn None "Some (a, t)"] assms unfolding selectNext_def by blast

lemma selectNext_chosen:
  assumes "selectNext before pending nn = Some (a, t)" and "distinct (map fst nn)"
  shows "a \<in> fst ` set nn" and "pooled pending a (getOr 0 nn a) = Some t"
  using selectNext_Some [OF assms(1)] getOr_mem [OF assms(2)] by (force, metis)

lemma selectLoop_accounts:
  "selectLoop before pending fuel nn = Inr sel \<Longrightarrow> distinct (map fst nn) \<Longrightarrow> fst ` set sel \<subseteq> fst ` set nn"
proof (induction fuel arbitrary: nn sel)
  case (Suc fuel)
  show ?case
  proof (cases "selectNext before pending nn")
    case None
    then show ?thesis using Suc.prems by simp
  next
    case (Some p)
    obtain a t where p: "p = (a, t)" by (cases p)
    let ?nn = "AList.update a (getOr 0 nn a + 1) nn"
    obtain rest where rest: "selectLoop before pending fuel ?nn = Inr rest" "sel = (a, t) # rest"
      using Suc.prems(1) Some p by (auto simp: bindE_eq_Inr)
    have a: "a \<in> fst ` set nn" using selectNext_chosen(1) [OF _ Suc.prems(2)] Some p by blast
    have "distinct (map fst ?nn)" using Suc.prems(2) by (rule distinct_update)
    from Suc.IH [OF rest(1) this] have "fst ` set rest \<subseteq> fst ` set nn" using a by (auto simp: dom_update)
    then show ?thesis using a rest(2) by simp
  qed
qed simp

text \<open>Every account contributes exactly its run of consecutive nonces, in nonce order.\<close>

lemma selectLoop_runs:
  assumes "selectLoop before pending fuel nn = Inr sel" and "distinct (map fst nn)" and "a \<in> fst ` set nn"
  shows "\<exists>k. runLength pending a (getOr 0 nn a) k
    \<and> map snd (filter (\<lambda>p. fst p = a) sel) = map (\<lambda>i. the (pooled pending a (getOr 0 nn a + of_nat i))) [0..<k]"
  using assms
proof (induction fuel arbitrary: nn sel)
  case (Suc fuel)
  show ?case
  proof (cases "selectNext before pending nn")
    case None
    then have "pooled pending a (getOr 0 nn a) = None"
      using Suc.prems(2,3) by (auto simp: selectNext_None getOr_mem)
    then show ?thesis using None Suc.prems(1) by (intro exI [of _ 0]) (auto simp: runLength_def)
  next
    case (Some r)
    obtain a0 t0 where r: "r = (a0, t0)" by (cases r)
    note sel0 = Some [unfolded r]
    let ?nn = "AList.update a0 (getOr 0 nn a0 + 1) nn"
    obtain rest where rest: "selectLoop before pending fuel ?nn = Inr rest" "sel = (a0, t0) # rest"
      using Suc.prems(1) sel0 by (auto simp: err_simps)
    have d: "distinct (map fst ?nn)" using Suc.prems(2) by (rule distinct_update)
    have a: "a \<in> fst ` set ?nn" using Suc.prems(3) by (auto simp: dom_update)
    note p0 = selectNext_chosen [OF sel0 Suc.prems(2)]
    obtain k where k: "runLength pending a (getOr 0 ?nn a) k"
      "map snd (filter (\<lambda>p. fst p = a) rest) = map (\<lambda>i. the (pooled pending a (getOr 0 ?nn a + of_nat i))) [0..<k]"
      using Suc.IH [OF rest(1) d a] by blast
    show ?thesis
    proof (cases "a = a0")
      case False
      then show ?thesis using k rest(2) by (auto simp: getOr_update)
    next
      case True
      have "runLength pending a (getOr 0 nn a) (Suc k)"
        using k(1) p0(2) True by (simp add: getOr_update runLength_Suc [symmetric])
      moreover have "map snd (filter (\<lambda>p. fst p = a) sel)
          = map (\<lambda>i. the (pooled pending a (getOr 0 nn a + of_nat i))) [0..<Suc k]"
        using k(2) p0(2) rest(2) True
        by (simp add: getOr_update upt_conv_Cons map_Suc_upt [symmetric] comp_def add.assoc del: upt_Suc)
      ultimately show ?thesis by blast
    qed
  qed
qed simp

text \<open>No transaction that is ready precedes the one that is taken.\<close>

lemma selectLoop_ordered:
  assumes "selectLoop before pending fuel nn = Inr (pre @ (a, t) # post)" and "distinct (map fst nn)"
    and "b \<in> fst ` set nn"
    and "pooled pending b (getOr 0 nn b + of_nat (length (filter (\<lambda>p. fst p = b) pre))) = Some u"
  shows "\<not> before u t"
  using assms
proof (induction fuel arbitrary: nn pre)
  case (Suc fuel)
  obtain a0 t0 where sel0: "selectNext before pending nn = Some (a0, t0)"
    using Suc.prems(1) by (cases "selectNext before pending nn") auto
  let ?nn = "AList.update a0 (getOr 0 nn a0 + 1) nn"
  obtain rest where rest: "selectLoop before pending fuel ?nn = Inr rest" "pre @ (a, t) # post = (a0, t0) # rest"
    using Suc.prems(1) sel0 by (auto simp: err_simps)
  show ?case
  proof (cases pre)
    case Nil
    obtain m where "(b, m) \<in> set nn" using Suc.prems(3) by auto
    then have "pooled pending b m = Some u" using Suc.prems(2,4) Nil by (simp add: getOr_mem)
    then show ?thesis using selectNext_Some [OF sel0] \<open>(b, m) \<in> set nn\<close> rest(2) Nil by auto
  next
    case (Cons p pre')
    have r: "rest = pre' @ (a, t) # post" and p: "p = (a0, t0)" using rest(2) Cons by auto
    have "getOr 0 ?nn b + of_nat (length (filter (\<lambda>p. fst p = b) pre'))
        = getOr 0 nn b + of_nat (length (filter (\<lambda>p. fst p = b) pre))"
      using Cons p by (simp add: getOr_update)
    then show ?thesis
      using Suc.IH [of ?nn pre'] rest(1) r Suc.prems by (simp add: distinct_update dom_update)
  qed
qed simp

text \<open>The loop ends: each round uses up one transaction of a run.\<close>

lemma selectLoop_ends:
  assumes "distinct (map fst nn)" and "\<And>a. a \<in> fst ` set nn \<Longrightarrow> runLength pending a (getOr 0 nn a) (K a)"
    and "sum K (fst ` set nn) < fuel"
  shows "\<exists>sel. selectLoop before pending fuel nn = Inr sel"
  using assms
proof (induction fuel arbitrary: nn K)
  case (Suc fuel)
  show ?case
  proof (cases "selectNext before pending nn")
    case None
    then show ?thesis by simp
  next
    case (Some r)
    obtain a0 t0 where r: "r = (a0, t0)" by (cases r)
    note sel0 = Some [unfolded r]
    note p0 = selectNext_chosen [OF sel0 Suc.prems(1)]
    let ?nn = "AList.update a0 (getOr 0 nn a0 + 1) nn"
    let ?K = "K(a0 := K a0 - 1)"
    have keys: "fst ` set ?nn = fst ` set nn" using p0(1) by (auto simp: dom_update)
    have k0: "0 < K a0" using Suc.prems(2) [OF p0(1)] p0(2) runLength_0 by fastforce
    have runs: "runLength pending a (getOr 0 ?nn a) (?K a)" if "a \<in> fst ` set ?nn" for a
      using Suc.prems(2) [of a] that keys k0 p0(2) by (auto simp: getOr_update runLength_Suc)
    have "sum ?K (fst ` set nn) < sum K (fst ` set nn)"
      using p0(1) k0 by (intro sum_strict_mono_ex1) auto
    then have less: "sum ?K (fst ` set ?nn) < fuel" using Suc.prems(3) keys by simp
    obtain rest where "selectLoop before pending fuel ?nn = Inr rest"
      using Suc.IH [OF distinct_update [OF Suc.prems(1)] runs less] by blast
    then show ?thesis using sel0 by simp
  qed
qed simp

end

lemma transactionBefore_irreflexive: "\<not> transactionBefore X c t t"
  by (simp add: transactionBefore_def)

lemma transactionBefore_transitive:
  "transactionBefore X c t u \<Longrightarrow> transactionBefore X c u v \<Longrightarrow> transactionBefore X c t v"
  by (auto simp: transactionBefore_def Let_def split: if_splits)

interpretation pool: tx_order "transactionBefore X c" for X c
  by unfold_locales (rule transactionBefore_irreflexive, rule transactionBefore_transitive)

section \<open>Correctness of the selection\<close>

lemma sum_runs:
  assumes "distinct (map fst m)" and "\<And>a. K a \<le> length (getOr [] m a)"
  shows "sum K (fst ` set m) \<le> sum_list (map (\<lambda>(_, txs). length txs) m)"
proof -
  have "sum K (fst ` set m) \<le> sum (\<lambda>a. length (getOr [] m a)) (fst ` set m)"
    using assms(2) by (rule sum_mono)
  also have "\<dots> = sum_list (map (\<lambda>a. length (getOr [] m a)) (map fst m))"
    using sum_list_distinct_conv_sum_set [OF assms(1), of "\<lambda>a. length (getOr [] m a)"] by (metis list.set_map)
  also have "\<dots> = sum_list (map (\<lambda>(_, txs). length txs) m)"
    unfolding map_map by (rule arg_cong [of _ _ sum_list], rule map_cong) (auto simp: getOr_mem [OF assms(1)])
  finally show ?thesis .
qed

text \<open>
  C2: Block building takes from the pool exactly the transactions that can run. For a pool with
  fewer than 2^64 transactions per account the selection loop ends by itself, and the result
  consists of transactions of pooled accounts only, for every account exactly its transactions from the
  account's nonce up to the first gap, once each and in nonce order; and no transaction that was ready when
  another one was taken precedes it in the pool's order (arrival, or tip and hash).
\<close>

theorem executable_transactions_exact:
  assumes "distinct (map fst (ch_pending c))" and "\<And>a. length (getOr [] (ch_pending c) a) < 2 ^ 64"
    and "x_StateAt X (ch_blockchain c) (snd (x_CurrentBlock X (ch_blockchain c))) = Inr st"
  shows "\<exists>sel. executableTransactions X c = Inr (map snd sel) \<and> fst ` set sel \<subseteq> fst ` set (ch_pending c)
    \<and> (\<forall>a \<in> fst ` set (ch_pending c). \<exists>k.
         (\<forall>i < k. pooled (ch_pending c) a (s_GetNonce X st a + of_nat i) \<noteq> None)
         \<and> pooled (ch_pending c) a (s_GetNonce X st a + of_nat k) = None
         \<and> map snd (filter (\<lambda>p. fst p = a) sel)
             = map (\<lambda>i. the (pooled (ch_pending c) a (s_GetNonce X st a + of_nat i))) [0..<k])
    \<and> (\<forall>pre a t post b u. sel = pre @ (a, t) # post \<longrightarrow> b \<in> fst ` set (ch_pending c)
         \<longrightarrow> pooled (ch_pending c) b (s_GetNonce X st b + of_nat (length (filter (\<lambda>p. fst p = b) pre))) = Some u
         \<longrightarrow> \<not> transactionBefore X c u t)"
proof -
  let ?P = "ch_pending c" and ?n = "s_GetNonce X st"
  let ?nn = "map (\<lambda>(address, _). (address, ?n address)) ?P"
  have keys: "map fst ?nn = map fst ?P" by (simp add: comp_def case_prod_beta)
  then have keys': "fst ` set ?nn = fst ` set ?P" by (metis list.set_map)
  have d: "distinct (map fst ?nn)" using assms(1) unfolding keys .
  have nonce: "getOr 0 ?nn a = ?n a" if "a \<in> fst ` set ?P" for a
    using that by (intro getOr_mem [OF d]) auto
  define K where "K a = (SOME k. k \<le> length (getOr [] ?P a) \<and> runLength ?P a (?n a) k)" for a
  have K: "K a \<le> length (getOr [] ?P a) \<and> runLength ?P a (?n a) (K a)" for a
    unfolding K_def by (rule someI_ex) (use runLength_exists [OF assms(2)] in blast)
  have "sum K (fst ` set ?P) \<le> pendingCount c"
    unfolding pendingCount_def by (rule sum_runs [OF assms(1)]) (simp add: K)
  then have less: "sum K (fst ` set ?nn) < pendingCount c + 1" using keys' by simp
  have "runLength ?P a (getOr 0 ?nn a) (K a)" if "a \<in> fst ` set ?nn" for a
    using K nonce that keys' by simp
  then obtain sel where sel: "selectLoop (transactionBefore X c) ?P (pendingCount c + 1) ?nn = Inr sel"
    using pool.selectLoop_ends [OF d _ less] by blast
  then have "executableTransactions X c = Inr (map snd sel)"
    using assms(3) by (simp add: executableTransactions_def selectedTransactions_def)
  moreover have "fst ` set sel \<subseteq> fst ` set ?P" using pool.selectLoop_accounts [OF sel d] keys' by simp
  moreover have "\<exists>k. (\<forall>i < k. pooled ?P a (?n a + of_nat i) \<noteq> None) \<and> pooled ?P a (?n a + of_nat k) = None
      \<and> map snd (filter (\<lambda>p. fst p = a) sel) = map (\<lambda>i. the (pooled ?P a (?n a + of_nat i))) [0..<k]"
    if "a \<in> fst ` set ?P" for a
    using pool.selectLoop_runs [OF sel d, of a] that keys' nonce [OF that] unfolding runLength_def by auto
  moreover have "\<not> transactionBefore X c u t" if "sel = pre @ (a, t) # post" "b \<in> fst ` set ?P"
    "pooled ?P b (?n b + of_nat (length (filter (\<lambda>p. fst p = b) pre))) = Some u" for pre a t post b u
    using pool.selectLoop_ordered [OF sel [unfolded that(1)] d, of b u] that keys' nonce [OF that(2)] by auto
  ultimately show ?thesis by blast
qed

section \<open>The pool invariant\<close>

text \<open>
  A consistent pool: a transaction is filed under its own nonce, no hash occurs twice, and the
  arrival index has exactly the pooled transactions, with distinct positive numbers up to
  \<open>nextArrival\<close>. The invariant is over the maps the lists stand for.
\<close>

definition poolMap :: "txPool \<Rightarrow> address \<times> u64 \<Rightarrow> tx option" where
  "poolMap pending = (\<lambda>(a, n). pooled pending a n)"

definition consistentPool :: "(address \<times> u64 \<Rightarrow> tx option) \<Rightarrow> (hash \<Rightarrow> u64 option) \<Rightarrow> u64 \<Rightarrow> bool" where
  "consistentPool m arrival next \<longleftrightarrow>
     (\<forall>k t. m k = Some t \<longrightarrow> tx_Nonce t = snd k)
     \<and> (\<forall>k l t u. m k = Some t \<longrightarrow> m l = Some u \<longrightarrow> tx_Hash t = tx_Hash u \<longrightarrow> k = l)
     \<and> dom arrival = tx_Hash ` ran m
     \<and> inj_on arrival (dom arrival)
     \<and> (\<forall>h v. arrival h = Some v \<longrightarrow> 0 < v \<and> v \<le> next)"

definition poolOK :: "('x, 's) executionChain \<Rightarrow> bool" where
  "poolOK c \<longleftrightarrow> consistentPool (poolMap (ch_pending c)) (map_of (ch_arrival c)) (ch_nextArrival c)"

lemma pooled_update:
  "pooled (AList.update a m pending) b n = (if b = a then map_of m n else pooled pending b n)"
  by (simp add: pooled_def getOr_update)

lemma pooled_delete:
  "pooled (AList.delete a pending) b n = (if b = a then None else pooled pending b n)"
  by (simp add: pooled_def getOr_def delete_conv')

lemma map_of_bucket: "map_of (getOr [] pending a) n = pooled pending a n"
  by (simp add: pooled_def)

lemma poolMap_insert:
  "poolMap (AList.update a (AList.update n t (getOr [] pending a)) pending) = (poolMap pending)((a, n) \<mapsto> t)"
  by (auto simp: poolMap_def pooled_update update_conv' map_of_bucket fun_eq_iff)

lemma ran_upd_hash:
  assumes "\<And>k l t u. m k = Some t \<Longrightarrow> m l = Some u \<Longrightarrow> tx_Hash t = tx_Hash u \<Longrightarrow> k = l"
  shows "tx_Hash ` ran (m(k \<mapsto> t)) = insert (tx_Hash t) (tx_Hash ` ran m - tx_Hash ` set_option (m k))"
proof (cases "m k")
  case None
  then show ?thesis by (simp add: ran_map_upd)
next
  case (Some p)
  have "u \<in> ran (m(k \<mapsto> t)) \<longleftrightarrow> u = t \<or> u \<in> ran m \<and> tx_Hash u \<noteq> tx_Hash p" if nt: "tx_Hash u \<noteq> tx_Hash t" for u
  proof
    assume "u \<in> ran (m(k \<mapsto> t))"
    then obtain l where "(m(k \<mapsto> t)) l = Some u" by (auto simp: ran_def)
    then have "l \<noteq> k" "m l = Some u" using nt by (auto split: if_splits)
    then show "u = t \<or> u \<in> ran m \<and> tx_Hash u \<noteq> tx_Hash p" using assms [OF _ Some] by (auto simp: ran_def)
  next
    assume "u = t \<or> u \<in> ran m \<and> tx_Hash u \<noteq> tx_Hash p"
    then obtain l where "m l = Some u" "tx_Hash u \<noteq> tx_Hash p" using nt by (auto simp: ran_def)
    then have "(m(k \<mapsto> t)) l = Some u" using Some by auto
    then show "u \<in> ran (m(k \<mapsto> t))" by (rule ranI)
  qed
  note eq = this
  have "h \<in> tx_Hash ` ran (m(k \<mapsto> t)) \<longleftrightarrow> h \<in> insert (tx_Hash t) (tx_Hash ` ran m - {tx_Hash p})" for h
  proof (cases "h = tx_Hash t")
    case True
    moreover have "t \<in> ran (m(k \<mapsto> t))" by (rule ranI [of _ k]) simp
    ultimately show ?thesis by simp
  next
    case False
    have "h \<in> tx_Hash ` ran (m(k \<mapsto> t)) \<longleftrightarrow> (\<exists>u. tx_Hash u = h \<and> u \<in> ran m \<and> tx_Hash u \<noteq> tx_Hash p)"
      unfolding image_iff using eq False by metis
    then show ?thesis using False unfolding image_iff insert_iff Diff_iff by (metis empty_iff insert_iff)
  qed
  then show ?thesis using Some by auto
qed

lemma consistentPool_insert:
  assumes ok: "consistentPool m arrival next" and fresh: "tx_Hash t \<notin> tx_Hash ` ran m"
    and k: "snd k = tx_Nonce t" and wrap: "next \<noteq> - 1"
  shows "case m k of
      None \<Rightarrow> consistentPool (m(k \<mapsto> t)) (arrival(tx_Hash t \<mapsto> next + 1)) (next + 1)
    | Some p \<Rightarrow> consistentPool (m(k \<mapsto> t)) ((arrival(tx_Hash t := arrival (tx_Hash p)))(tx_Hash p := None)) next"
proof -
  from ok have nonce: "\<And>k t. m k = Some t \<Longrightarrow> tx_Nonce t = snd k"
    and uniq: "\<And>k l t u. m k = Some t \<Longrightarrow> m l = Some u \<Longrightarrow> tx_Hash t = tx_Hash u \<Longrightarrow> k = l"
    and d: "dom arrival = tx_Hash ` ran m" and inj: "inj_on arrival (dom arrival)"
    and rng: "\<And>h v. arrival h = Some v \<Longrightarrow> 0 < v \<and> v \<le> next"
    unfolding consistentPool_def by blast+
  have n1: "0 < next + 1" "next < next + 1" using wrap by (auto simp: word_less_inc word_gt_0 word_inc_neq_0)
  have fresh': "tx_Hash t \<noteq> tx_Hash u" if "m l = Some u" for l u
    using fresh that by (metis imageI ranI)
  have c1: "\<forall>l u. (m(k \<mapsto> t)) l = Some u \<longrightarrow> tx_Nonce u = snd l" using nonce k by auto
  have c2: "\<forall>l l' u u'. (m(k \<mapsto> t)) l = Some u \<longrightarrow> (m(k \<mapsto> t)) l' = Some u' \<longrightarrow> tx_Hash u = tx_Hash u' \<longrightarrow> l = l'"
    using uniq fresh' by (metis fun_upd_apply option.inject)
  note hashes = ran_upd_hash [of m k t, OF uniq]
  have none: "arrival (tx_Hash t) = None" using fresh d by blast
  show ?thesis
  proof (cases "m k")
    case None
    let ?A = "arrival(tx_Hash t \<mapsto> next + 1)"
    have "dom ?A = tx_Hash ` ran (m(k \<mapsto> t))" using hashes None d by simp
    moreover have "inj_on ?A (dom ?A)"
    proof (rule inj_onI)
      fix x y assume xy: "x \<in> dom ?A" "y \<in> dom ?A" "?A x = ?A y"
      have "arrival z \<noteq> Some (next + 1)" for z using rng [of z "next + 1"] n1(2) by auto
      then show "x = y" using xy inj by (auto simp: inj_on_def dom_def split: if_splits)
    qed
    moreover have "\<forall>h v. ?A h = Some v \<longrightarrow> 0 < v \<and> v \<le> next + 1"
      using rng n1 by (auto split: if_splits intro: order.trans [OF _ order.strict_implies_order])
    ultimately have "consistentPool (m(k \<mapsto> t)) ?A (next + 1)"
      unfolding consistentPool_def using c1 c2 by (intro conjI)
    then show ?thesis using None by simp
  next
    case (Some p)
    let ?A = "(arrival(tx_Hash t := arrival (tx_Hash p)))(tx_Hash p := None)"
    have p: "tx_Hash p \<in> dom arrival" using d Some by (metis imageI ranI)
    have tp: "tx_Hash t \<noteq> tx_Hash p" using fresh' [OF Some] .
    have "dom ?A = tx_Hash ` ran (m(k \<mapsto> t))" using hashes Some d p tp by (auto simp: dom_def)
    moreover have "inj_on ?A (dom ?A)"
    proof (rule inj_onI)
      fix x y assume xy: "x \<in> dom ?A" "y \<in> dom ?A" "?A x = ?A y"
      define f where "f z = (if z = tx_Hash t then tx_Hash p else z)" for z
      have "?A z = arrival (f z) \<and> f z \<in> dom arrival" if "z \<in> dom ?A" for z
        using that p none by (auto simp: f_def dom_def split: if_splits)
      then have "f x = f y" using xy inj by (metis inj_onD)
      then show "x = y" using xy(1,2) by (auto simp: f_def split: if_splits)
    qed
    moreover have "\<forall>h v. ?A h = Some v \<longrightarrow> 0 < v \<and> v \<le> next" using rng by (auto split: if_splits)
    ultimately have "consistentPool (m(k \<mapsto> t)) ?A next"
      unfolding consistentPool_def using c1 c2 by (intro conjI)
    then show ?thesis using Some by simp
  qed
qed

lemma addTransaction_effect:
  assumes "addTransaction X tx c = Inr c'"
  shows "poolMap (ch_pending c') = (poolMap (ch_pending c))((poolSender X c tx, tx_Nonce tx) \<mapsto> tx)"
    and "map_of (ch_arrival c') = (case pooled (ch_pending c) (poolSender X c tx) (tx_Nonce tx) of
       Some previous \<Rightarrow> ((map_of (ch_arrival c))(tx_Hash tx \<mapsto> getOr 0 (ch_arrival c) (tx_Hash previous)))(tx_Hash previous := None)
     | None \<Rightarrow> (map_of (ch_arrival c))(tx_Hash tx \<mapsto> ch_nextArrival c + 1))"
    and "ch_nextArrival c' = (case pooled (ch_pending c) (poolSender X c tx) (tx_Nonce tx) of
       Some previous \<Rightarrow> ch_nextArrival c | None \<Rightarrow> ch_nextArrival c + 1)"
proof -
  let ?a = "poolSender X c tx"
  from assms obtain r where c': "c' = (let byNonce = getOr [] (ch_pending c) ?a;
          c = (case map_of byNonce (tx_Nonce tx) of
                 Some previous \<Rightarrow>
                   c\<lparr>ch_arrival := AList.delete (tx_Hash previous)
                       (AList.update (tx_Hash tx) (getOr 0 (ch_arrival c) (tx_Hash previous)) (ch_arrival c)),
                     ch_blobs := AList.delete (tx_Hash previous) (ch_blobs c)\<rparr>
               | None \<Rightarrow>
                   c\<lparr>ch_nextArrival := ch_nextArrival c + 1,
                     ch_arrival := AList.update (tx_Hash tx) (ch_nextArrival c + 1) (ch_arrival c)\<rparr>);
          c = c\<lparr>ch_pending := AList.update ?a (AList.update (tx_Nonce tx) tx byNonce) (ch_pending c)\<rparr>
      in case r of None \<Rightarrow> c | Some bundle \<Rightarrow> c\<lparr>ch_blobs := AList.update (tx_Hash tx) bundle (ch_blobs c)\<rparr>)"
    unfolding addTransaction_def Let_def by (auto simp only: err_simps Inl_Inr_False sum.inject)
  have p: "map_of (getOr [] (ch_pending c) ?a) (tx_Nonce tx) = pooled (ch_pending c) ?a (tx_Nonce tx)"
    by (rule map_of_bucket)
  show "poolMap (ch_pending c') = (poolMap (ch_pending c))((?a, tx_Nonce tx) \<mapsto> tx)"
    unfolding c' Let_def by (simp add: poolMap_insert split: option.splits)
  show "map_of (ch_arrival c') = (case pooled (ch_pending c) ?a (tx_Nonce tx) of
       Some previous \<Rightarrow> ((map_of (ch_arrival c))(tx_Hash tx \<mapsto> getOr 0 (ch_arrival c) (tx_Hash previous)))(tx_Hash previous := None)
     | None \<Rightarrow> (map_of (ch_arrival c))(tx_Hash tx \<mapsto> ch_nextArrival c + 1))"
    unfolding c' Let_def p by (simp add: update_conv' delete_conv' split: option.splits)
  show "ch_nextArrival c' = (case pooled (ch_pending c) ?a (tx_Nonce tx) of
       Some previous \<Rightarrow> ch_nextArrival c | None \<Rightarrow> ch_nextArrival c + 1)"
    unfolding c' Let_def p by (simp split: option.splits)
qed

text \<open>
  C11: Adding a new transaction to a consistent pool keeps it consistent. The transaction is filed
  under its sender and nonce and nothing else changes; it takes over the arrival number of the
  transaction it replaces, or gets the next number, so replacing never loses the place in the
  queue.
\<close>

theorem pool_add:
  assumes "poolOK c" and "addTransaction X tx c = Inr c'"
    and "tx_Hash tx \<notin> tx_Hash ` ran (poolMap (ch_pending c))" and "ch_nextArrival c \<noteq> - 1"
  shows "poolOK c'
    \<and> poolMap (ch_pending c') = (poolMap (ch_pending c))((poolSender X c tx, tx_Nonce tx) \<mapsto> tx)
    \<and> map_of (ch_arrival c') (tx_Hash tx) =
        (case pooled (ch_pending c) (poolSender X c tx) (tx_Nonce tx) of
           None \<Rightarrow> Some (ch_nextArrival c + 1) | Some previous \<Rightarrow> map_of (ch_arrival c) (tx_Hash previous))"
proof -
  let ?k = "(poolSender X c tx, tx_Nonce tx)" and ?m = "poolMap (ch_pending c)"
  note eff = addTransaction_effect [OF assms(2)]
  have ok: "consistentPool ?m (map_of (ch_arrival c)) (ch_nextArrival c)" using assms(1) by (simp add: poolOK_def)
  have k: "?m ?k = pooled (ch_pending c) (poolSender X c tx) (tx_Nonce tx)" by (simp add: poolMap_def)
  note ins = consistentPool_insert [OF ok assms(3) _ assms(4), of ?k]
  show ?thesis
  proof (cases "pooled (ch_pending c) (poolSender X c tx) (tx_Nonce tx)")
    case None
    then show ?thesis using ins eff k by (simp add: poolOK_def)
  next
    case (Some p)
    then have mk: "?m ?k = Some p" using k by simp
    have "tx_Hash p \<in> dom (map_of (ch_arrival c))"
      using ok mk unfolding consistentPool_def by (metis imageI ranI)
    then obtain v where v: "map_of (ch_arrival c) (tx_Hash p) = Some v" by blast
    have "tx_Hash p \<noteq> tx_Hash tx" using assms(3) mk by (metis imageI ranI)
    then show ?thesis using ins eff k Some mk v by (simp add: poolOK_def getOr_def)
  qed
qed

lemma poolMap_delete:
  "poolMap (if length (AList.delete n (getOr [] pending a)) = 0 then AList.delete a pending
     else AList.update a (AList.delete n (getOr [] pending a)) pending) = (poolMap pending)((a, n) := None)"
proof -
  have "map_of (AList.delete n (getOr [] pending a)) n' = (if n' = n then None else pooled pending a n')" for n'
    by (simp add: delete_conv' map_of_bucket)
  then show ?thesis
    by (auto simp: poolMap_def pooled_update pooled_delete fun_eq_iff) (metis map_of.simps(1))+
qed

lemma consistentPool_remove:
  assumes ok: "consistentPool m arrival next"
    and same: "\<And>l u. m l = Some u \<Longrightarrow> l = k \<longleftrightarrow> tx_Hash u = h"
  shows "consistentPool (m(k := None)) (arrival(h := None)) next"
proof -
  from ok have nonce: "\<forall>k t. m k = Some t \<longrightarrow> tx_Nonce t = snd k"
    and uniq: "\<forall>k l t u. m k = Some t \<longrightarrow> m l = Some u \<longrightarrow> tx_Hash t = tx_Hash u \<longrightarrow> k = l"
    and d: "dom arrival = tx_Hash ` ran m" and inj: "inj_on arrival (dom arrival)"
    and rng: "\<forall>h v. arrival h = Some v \<longrightarrow> 0 < v \<and> v \<le> next"
    unfolding consistentPool_def by blast+
  have "g \<in> tx_Hash ` ran (m(k := None)) \<longleftrightarrow> g \<in> tx_Hash ` ran m - {h}" for g
  proof -
    have "g \<in> tx_Hash ` ran (m(k := None)) \<longleftrightarrow> (\<exists>l u. l \<noteq> k \<and> m l = Some u \<and> tx_Hash u = g)"
      by (auto simp: ran_def image_iff)
    also have "\<dots> \<longleftrightarrow> (\<exists>l u. m l = Some u \<and> tx_Hash u = g \<and> g \<noteq> h)" using same by metis
    finally show ?thesis by (auto simp: ran_def image_iff) metis
  qed
  then have "tx_Hash ` ran (m(k := None)) = tx_Hash ` ran m - {h}" by blast
  then have "dom (arrival(h := None)) = tx_Hash ` ran (m(k := None))" using d by simp
  moreover have "inj_on (arrival(h := None)) (dom (arrival(h := None)))"
    using inj by (auto simp: inj_on_def)
  moreover have "\<forall>l u. (m(k := None)) l = Some u \<longrightarrow> tx_Nonce u = snd l" using nonce by auto
  moreover have "\<forall>l l' u u'. (m(k := None)) l = Some u \<longrightarrow> (m(k := None)) l' = Some u' \<longrightarrow> tx_Hash u = tx_Hash u' \<longrightarrow> l = l'"
    using uniq by (metis fun_upd_apply option.distinct(1))
  moreover have "\<forall>g v. (arrival(h := None)) g = Some v \<longrightarrow> 0 < v \<and> v \<le> next" using rng by auto
  ultimately show ?thesis unfolding consistentPool_def by (intro conjI)
qed

lemma applyTransaction_effect:
  "poolMap (ch_pending (applyTransaction X b tx c)) = (case t_Sender X (ch_config c) (b_Number b) (b_Time b) tx of
     Inl _ \<Rightarrow> poolMap (ch_pending c) | Inr from \<Rightarrow> (poolMap (ch_pending c))((from, tx_Nonce tx) := None))"
  "map_of (ch_arrival (applyTransaction X b tx c)) = (case t_Sender X (ch_config c) (b_Number b) (b_Time b) tx of
     Inl _ \<Rightarrow> map_of (ch_arrival c) | Inr from \<Rightarrow> (map_of (ch_arrival c))(tx_Hash tx := None))"
  "ch_nextArrival (applyTransaction X b tx c) = ch_nextArrival c"
  "ch_config (applyTransaction X b tx c) = ch_config c"
  by (cases "t_Sender X (ch_config c) (b_Number b) (b_Time b) tx",
      simp_all add: applyTransaction_def Let_def poolMap_delete delete_conv' del: length_0_conv split del: if_split)+

text \<open>A block whose transactions come from the pool, where the pool still has them.\<close>

definition minedFromPool :: "('x, 's, 'z) execution_scheme \<Rightarrow> block \<Rightarrow> ('x, 's) executionChain \<Rightarrow> bool" where
  "minedFromPool X b c \<longleftrightarrow> (\<forall>tx \<in> set (b_Transactions b). \<exists>from.
     t_Sender X (ch_config c) (b_Number b) (b_Time b) tx = Inr from
     \<and> (\<forall>a n t. pooled (ch_pending c) a n = Some t \<longrightarrow> (a = from \<and> n = tx_Nonce tx \<longleftrightarrow> tx_Hash t = tx_Hash tx)))"

lemma applyTransactions_pool:
  assumes "poolOK c"
    and "\<forall>tx \<in> set txs. \<exists>from. t_Sender X (ch_config c) (b_Number b) (b_Time b) tx = Inr from
     \<and> (\<forall>k t. poolMap (ch_pending c) k = Some t \<longrightarrow> (k = (from, tx_Nonce tx) \<longleftrightarrow> tx_Hash t = tx_Hash tx))"
  shows "poolOK (fold (applyTransaction X b) txs c)
    \<and> poolMap (ch_pending (fold (applyTransaction X b) txs c))
      = (\<lambda>k. case poolMap (ch_pending c) k of None \<Rightarrow> None
           | Some t \<Rightarrow> if tx_Hash t \<in> tx_Hash ` set txs then None else Some t)"
  using assms
proof (induction txs arbitrary: c)
  case Nil
  then show ?case by (auto simp: fun_eq_iff split: option.splits)
next
  case (Cons tx txs)
  let ?c = "applyTransaction X b tx c"
  let ?m = "poolMap (ch_pending c)"
  obtain sender where sender: "t_Sender X (ch_config c) (b_Number b) (b_Time b) tx = Inr sender"
    and same: "\<And>k t. ?m k = Some t \<Longrightarrow> k = (sender, tx_Nonce tx) \<longleftrightarrow> tx_Hash t = tx_Hash tx"
    using Cons.prems(2) by auto
  have eff: "poolMap (ch_pending ?c) = ?m((sender, tx_Nonce tx) := None)"
    "map_of (ch_arrival ?c) = (map_of (ch_arrival c))(tx_Hash tx := None)"
    "ch_nextArrival ?c = ch_nextArrival c" "ch_config ?c = ch_config c"
    using sender by (simp_all add: applyTransaction_effect)
  have ok: "poolOK ?c"
    unfolding poolOK_def eff using Cons.prems(1) same
    by (intro consistentPool_remove) (simp_all add: poolOK_def)
  have rest: "\<forall>u \<in> set txs. \<exists>from. t_Sender X (ch_config ?c) (b_Number b) (b_Time b) u = Inr from
     \<and> (\<forall>k t. poolMap (ch_pending ?c) k = Some t \<longrightarrow> (k = (from, tx_Nonce u) \<longleftrightarrow> tx_Hash t = tx_Hash u))"
  proof
    fix u assume "u \<in> set txs"
    then obtain f where f: "t_Sender X (ch_config c) (b_Number b) (b_Time b) u = Inr f"
      "\<And>k t. ?m k = Some t \<Longrightarrow> k = (f, tx_Nonce u) \<longleftrightarrow> tx_Hash t = tx_Hash u"
      using Cons.prems(2) by (metis list.set_intros(2))
    have "k = (f, tx_Nonce u) \<longleftrightarrow> tx_Hash t = tx_Hash u" if "poolMap (ch_pending ?c) k = Some t" for k t
      using f(2) [of k t] that unfolding eff by (auto split: if_splits)
    then show "\<exists>from. t_Sender X (ch_config ?c) (b_Number b) (b_Time b) u = Inr from
     \<and> (\<forall>k t. poolMap (ch_pending ?c) k = Some t \<longrightarrow> (k = (from, tx_Nonce u) \<longleftrightarrow> tx_Hash t = tx_Hash u))"
      using f(1) unfolding eff(4) by (intro exI [of _ f] conjI allI impI)
  qed
  note IH = Cons.IH [OF ok rest]
  have "(case poolMap (ch_pending ?c) k of None \<Rightarrow> None
           | Some t \<Rightarrow> if tx_Hash t \<in> tx_Hash ` set txs then None else Some t)
      = (case ?m k of None \<Rightarrow> None
           | Some t \<Rightarrow> if tx_Hash t \<in> tx_Hash ` set (tx # txs) then None else Some t)" for k
    unfolding eff using same [of k] by (cases "?m k") auto
  then show ?case using IH by simp
qed

text \<open>
  C12: Applying a canonical block whose transactions come from the pool removes exactly these
  transactions from the pool, keeps the pool consistent, advances the slot and records the block
  under its slot in both indices.
\<close>

theorem pool_mined:
  assumes "poolOK c" and "minedFromPool X b c"
  shows "poolOK (applyCanonicalBlock X b slot c)
    \<and> poolMap (ch_pending (applyCanonicalBlock X b slot c))
        = (\<lambda>k. case poolMap (ch_pending c) k of None \<Rightarrow> None
             | Some t \<Rightarrow> if tx_Hash t \<in> tx_Hash ` set (b_Transactions b) then None else Some t)
    \<and> ch_slot (applyCanonicalBlock X b slot c) = slot
    \<and> slotOf (applyCanonicalBlock X b slot c) b = slot
    \<and> map_of (ch_canonicalBlockBySlot (applyCanonicalBlock X b slot c)) slot = Some (b_Hash b)"
proof -
  let ?c = "fold (applyTransaction X b) (b_Transactions b) c"
  have "\<forall>tx \<in> set (b_Transactions b). \<exists>from. t_Sender X (ch_config c) (b_Number b) (b_Time b) tx = Inr from
     \<and> (\<forall>k t. poolMap (ch_pending c) k = Some t \<longrightarrow> (k = (from, tx_Nonce tx) \<longleftrightarrow> tx_Hash t = tx_Hash tx))"
    using assms(2) unfolding minedFromPool_def poolMap_def split_paired_All by (simp add: conj_commute)
  note txs = applyTransactions_pool [OF assms(1) this]
  have fields: "ch_pending (applyCanonicalBlock X b slot c) = ch_pending ?c"
    "ch_arrival (applyCanonicalBlock X b slot c) = ch_arrival ?c"
    "ch_nextArrival (applyCanonicalBlock X b slot c) = ch_nextArrival ?c"
    by (simp_all add: applyCanonicalBlock_def Let_def)
  have "poolOK (applyCanonicalBlock X b slot c)" using conjunct1 [OF txs] unfolding poolOK_def fields .
  moreover have "ch_slot (applyCanonicalBlock X b slot c) = slot
    \<and> slotOf (applyCanonicalBlock X b slot c) b = slot
    \<and> map_of (ch_canonicalBlockBySlot (applyCanonicalBlock X b slot c)) slot = Some (b_Hash b)"
    by (simp add: applyCanonicalBlock_def Let_def slotOf_def update_conv')
  ultimately show ?thesis using conjunct2 [OF txs] unfolding fields by blast
qed

lemma underpriced_self: "underpriced tx tx \<longleftrightarrow> \<not> (tx_GasFeeCap tx < 10 \<and> tx_GasTipCap tx < 10)"
proof -
  have tenth: "x < x * 110 div 100 \<longleftrightarrow> 10 \<le> x" for x :: nat
  proof -
    have "x * 110 div 100 = (x * 10 + x * 100) div 100" by (simp add: algebra_simps)
    also have "\<dots> = x + (x * 10) div (10 * 10)" by (subst div_mult_self1) simp_all
    also have "\<dots> = x + x div 10" by (simp only: mult.commute [of x] div_mult_mult1)
    finally show ?thesis by (simp add: div_greater_zero_iff)
  qed
  show ?thesis unfolding underpriced_def tenth de_Morgan_conj not_less ..
qed

text \<open>
  C32: Submitting a pooled plain transaction again, when go-ethereum still validates it, is refused as
  underpriced unless both its fee caps are below 10, where ten percent round down to zero. Then it is
  accepted and loses its place in the queue: the code copies the arrival number to the hash of the new
  transaction and deletes the entry of the old one, which is the same hash. The transaction stays in the pool
  without an arrival number, so the pool is no longer consistent, and in arrival order it precedes every other
  pooled transaction.
\<close>

theorem resubmission_loses_arrival:
  assumes ok: "poolOK c" and again: "pooled (ch_pending c) (poolSender X c tx) (tx_Nonce tx) = Some tx"
    and plain: "tx_Sidecar tx = None"
    and valid: "t_ValidateTransaction X (ch_config c) tx (validationHeader X c) = Inr ()"
      "x_StateAt X (ch_blockchain c) (snd (x_CurrentBlock X (ch_blockchain c))) = Inr st"
      "t_ValidateTransactionWithState X (ch_config c) tx (validationHeader X c) st
         (\<lambda>address. sum_list (map (tx_Cost \<circ> snd) (getOr [] (ch_pending c) address)))
         (\<lambda>address nonce. map_option tx_Cost (pooled (ch_pending c) address nonce)) = Inr ()"
  shows "if tx_GasFeeCap tx < 10 \<and> tx_GasTipCap tx < 10
    then \<exists>c'. addTransaction X tx c = Inr c' \<and> poolMap (ch_pending c') = poolMap (ch_pending c)
      \<and> map_of (ch_arrival c') (tx_Hash tx) = None \<and> \<not> poolOK c'
      \<and> (ch_order c = ''fifo'' \<longrightarrow> (\<forall>k t. poolMap (ch_pending c') k = Some t \<longrightarrow> t \<noteq> tx \<longrightarrow> transactionBefore X c' tx t))
    else addTransaction X tx c = Inl (Err ''replacement transaction underpriced'')"
proof (cases "tx_GasFeeCap tx < 10 \<and> tx_GasTipCap tx < 10")
  case False
  then show ?thesis using again plain valid underpriced_self [of tx]
    by (simp add: addTransaction_def validationTx_def Let_def)
next
  case True
  obtain c' where c': "addTransaction X tx c = Inr c'" "ch_order c' = ch_order c"
    using True again plain valid underpriced_self [of tx] map_of_bucket [of "ch_pending c" "poolSender X c tx" "tx_Nonce tx"]
    by (simp add: addTransaction_def validationTx_def Let_def)
  note eff = addTransaction_effect [OF c'(1)]
  have here: "poolMap (ch_pending c) (poolSender X c tx, tx_Nonce tx) = Some tx" using again by (simp add: poolMap_def)
  have same: "poolMap (ch_pending c') = poolMap (ch_pending c)"
    unfolding eff(1) using here by (rule fun_upd_idem)
  have arrival: "map_of (ch_arrival c') = (map_of (ch_arrival c))(tx_Hash tx := None)" using eff(2) again by simp
  have "tx_Hash tx \<in> dom (map_of (ch_arrival c'))" if "poolOK c'"
    using that here same unfolding poolOK_def consistentPool_def by (metis imageI ranI)
  then have "\<not> poolOK c'" using arrival by auto
  moreover have "transactionBefore X c' tx t"
    if fifo: "ch_order c = ''fifo''" and t: "poolMap (ch_pending c') k = Some t" "t \<noteq> tx" for k t
  proof -
    have "tx_Hash t \<noteq> tx_Hash tx"
      using ok t here unfolding same poolOK_def consistentPool_def by (metis option.inject)
    moreover obtain v where "map_of (ch_arrival c) (tx_Hash t) = Some v" "0 < v"
      using ok t(1) unfolding same poolOK_def consistentPool_def by (metis domD imageI ranI)
    ultimately show ?thesis using fifo c'(2) arrival by (simp add: transactionBefore_def getOr_def)
  qed
  ultimately show ?thesis using True c'(1) same arrival by auto
qed

section \<open>A concrete execution layer\<close>

text \<open>
  An in-memory chain: the stored blocks, the canonical hashes by number, the transaction index and
  the head. It instantiates go-ethereum's functions where the theorems are applied.
\<close>

record memChain =
  mc_blocks :: "block list"
  mc_canonical :: "(u64 \<times> hash) list"
  mc_lookup :: "(hash \<times> u64) list"
  mc_head :: hash

definition memBlock :: "memChain \<Rightarrow> hash \<Rightarrow> block option" where
  "memBlock x h = find (\<lambda>b. b_Hash b = h) (mc_blocks x)"

fun memPath :: "nat \<Rightarrow> memChain \<Rightarrow> block \<Rightarrow> block list" where
  "memPath 0 x b = [b]"
| "memPath (Suc n) x b = b # (if b_Number b = 0 then [] else
     (case memBlock x (b_ParentHash b) of None \<Rightarrow> [] | Some p \<Rightarrow> memPath n x p))"

definition memSetCanonical :: "block \<Rightarrow> memChain \<Rightarrow> memChain \<times> error option" where
  "memSetCanonical b x =
     (let path = memPath (length (mc_blocks x)) x b in
      (x\<lparr>mc_head := b_Hash b, mc_canonical := map (\<lambda>b. (b_Number b, b_Hash b)) path,
         mc_lookup := concat (map (\<lambda>b. map (\<lambda>t. (tx_Hash t, b_Number b)) (b_Transactions b)) path)\<rparr>, None))"

definition emptyBlock :: block where
  "emptyBlock = \<lparr>b_Hash = 0, b_Header = zeroHeader, b_Transactions = [], b_Withdrawals = [], b_AccessList = None\<rparr>"

definition memHead :: "memChain \<Rightarrow> hash \<times> header" where
  "memHead x = (mc_head x, case memBlock x (mc_head x) of None \<Rightarrow> zeroHeader | Some b \<Rightarrow> b_Header b)"

definition memExecution :: "(memChain, (address \<times> u64) list) execution" where
  "memExecution = \<lparr>x_CurrentBlock = memHead,
     x_Genesis = (\<lambda>x. case find (\<lambda>b. b_Number b = 0) (mc_blocks x) of None \<Rightarrow> emptyBlock | Some b \<Rightarrow> b),
     x_GetBlockByHash = memBlock,
     x_GetBlock = (\<lambda>x h n. case memBlock x h of None \<Rightarrow> None | Some b \<Rightarrow> if b_Number b = n then Some b else None),
     x_GetBlockByNumber = (\<lambda>x n. case map_of (mc_canonical x) n of None \<Rightarrow> None | Some h \<Rightarrow> memBlock x h),
     x_GetCanonicalHash = (\<lambda>x n. getOr 0 (mc_canonical x) n),
     x_SetCanonical = memSetCanonical,
     x_WriteBlock = (\<lambda>b _ x. x\<lparr>mc_blocks := b # filter (\<lambda>b'. b_Hash b' \<noteq> b_Hash b) (mc_blocks x)\<rparr>),
     x_ReadTxLookupEntry = (\<lambda>x h. map_of (mc_lookup x) h),
     x_DeleteTxLookupEntry = (\<lambda>h x. x\<lparr>mc_lookup := AList.delete h (mc_lookup x)\<rparr>),
     x_DeleteCanonicalHash = (\<lambda>n x. x\<lparr>mc_canonical := AList.delete n (mc_canonical x)\<rparr>),
     x_DeleteBlock = (\<lambda>h _ x. x\<lparr>mc_blocks := filter (\<lambda>b. b_Hash b \<noteq> h) (mc_blocks x)\<rparr>),
     x_StateAt = (\<lambda>_ _. Inr []),
     s_GetNonce = (\<lambda>s a. getOr 0 s a),
     c_IsLondon = (\<lambda>_ _. True),
     c_IsShanghai = (\<lambda>cfg _ t. case cc_ShanghaiTime cfg of None \<Rightarrow> False | Some s \<Rightarrow> s \<le> t),
     c_IsCancun = (\<lambda>cfg _ t. case cc_CancunTime cfg of None \<Rightarrow> False | Some s \<Rightarrow> s \<le> t),
     c_IsPrague = (\<lambda>cfg _ t. case cc_PragueTime cfg of None \<Rightarrow> False | Some s \<Rightarrow> s \<le> t),
     c_IsOsaka = (\<lambda>cfg _ t. case cc_OsakaTime cfg of None \<Rightarrow> False | Some s \<Rightarrow> s \<le> t),
     c_IsAmsterdam = (\<lambda>cfg _ t. case cc_AmsterdamTime cfg of None \<Rightarrow> False | Some s \<Rightarrow> s \<le> t),
     t_Sender = (\<lambda>_ _ _ t. Inr (if tx_Cost t = 0 then 7 else 8)),
     t_EffectiveGasTip = (\<lambda>t baseFee. min (int (tx_GasTipCap t))
        (int (tx_GasFeeCap t) - int (case baseFee of None \<Rightarrow> 0 | Some f \<Rightarrow> f))),
     t_ToV1 = (\<lambda>sc. Inr (sc\<lparr>sc_Version := 1\<rparr>)),
     t_ValidateTransaction = (\<lambda>_ _ _. Inr ()),
     t_ValidateTransactionWithState = (\<lambda>_ _ _ _ _ _. Inr ()),
     k_kzg = exampleKzg\<rparr>"

definition exampleConfig :: paramsConfig where
  "exampleConfig = (executionChainConfig DefaultConfig)\<lparr>cc_OsakaTime := None, cc_AmsterdamTime := None\<rparr>"

definition exampleGenesis :: block where
  "exampleGenesis = emptyBlock\<lparr>b_Hash := 100, b_Header := zeroHeader\<lparr>h_Time := 1000\<rparr>\<rparr>"

definition genesisChain :: memChain where
  "genesisChain = \<lparr>mc_blocks = [exampleGenesis], mc_canonical = [(0, 100)], mc_lookup = [], mc_head = 100\<rparr>"

text \<open>A chain at its genesis, ordered by arrival.\<close>

definition exampleChain :: "(memChain, (address \<times> u64) list) executionChain" where
  "exampleChain = \<lparr>ch_config = exampleConfig, ch_db = [], ch_blockchain = genesisChain, ch_feeRecipient = 1,
     ch_slot = 0, ch_genesisTime = 1000, ch_genesisHash = 100, ch_externalGenesis = False, ch_slotDuration = 12,
     ch_slotByHash = [(100, 0)], ch_canonicalBlockBySlot = [(0, 100)], ch_beaconBlockByRoot = [],
     ch_lastProcessedSlot = 0, ch_timelineComplete = True, ch_finalityPaused = False, ch_finalitySlot = 0,
     ch_blockSafety = [(100, zeroBlockSafety\<lparr>bs_BlockHash := 100\<rparr>)], ch_sessionTainted = False,
     ch_firstUnsafeBlock = None, ch_taintReasons = [], ch_pending = [], ch_arrival = [], ch_nextArrival = 0,
     ch_blobs = [], ch_order = ''fifo'', ch_pendingView = None\<rparr>"

definition exampleTx :: "hash \<Rightarrow> u64 \<Rightarrow> tx" where
  "exampleTx h n = \<lparr>tx_Hash = h, tx_Nonce = n, tx_GasFeeCap = 5, tx_GasTipCap = 1, tx_Cost = 0, tx_BlobHashes = [], tx_Sidecar = None\<rparr>"

text \<open>The chain with two executable transactions and one beyond a gap.\<close>

definition poolChain :: "(memChain, (address \<times> u64) list) executionChain" where
  "poolChain = exampleChain\<lparr>ch_pending := [(7, [(0, exampleTx 11 0), (1, exampleTx 12 1), (3, exampleTx 13 3)])],
     ch_arrival := [(11, 1), (12, 2), (13, 3)], ch_nextArrival := 3\<rparr>"

lemma poolChain_OK: "poolOK poolChain"
proof -
  have "poolMap (ch_pending poolChain) = [(7, 0) \<mapsto> exampleTx 11 0, (7, 1) \<mapsto> exampleTx 12 1, (7, 3) \<mapsto> exampleTx 13 3]"
    by (auto simp: poolMap_def pooled_def getOr_def poolChain_def fun_eq_iff)
  moreover have "ran [(7 :: address, 0 :: u64) \<mapsto> exampleTx 11 0, (7, 1) \<mapsto> exampleTx 12 1, (7, 3) \<mapsto> exampleTx 13 3]
    = {exampleTx 13 3, exampleTx 12 1, exampleTx 11 0}" by (simp add: ran_map_upd)
  moreover have "consistentPool [(7, 0) \<mapsto> exampleTx 11 0, (7, 1) \<mapsto> exampleTx 12 1, (7, 3) \<mapsto> exampleTx 13 3]
    [13 \<mapsto> 3, 12 \<mapsto> 2, 11 \<mapsto> 1] 3"
    unfolding consistentPool_def
    by (intro conjI) (auto simp: exampleTx_def ran_map_upd inj_on_def split: if_splits)
  ultimately show ?thesis by (simp add: poolOK_def poolChain_def)
qed

lemma executable_transactions_exact_witness:
  "executableTransactions memExecution poolChain = Inr [exampleTx 11 0, exampleTx 12 1]"
proof -
  let ?p = "\<lambda>i :: nat. pooled (ch_pending poolChain) 7 (s_GetNonce memExecution [] 7 + of_nat i)"
  have "length (getOr [] (ch_pending poolChain) a) < 2 ^ 64" for a
    by (simp add: poolChain_def getOr_def)
  moreover have "distinct (map fst (ch_pending poolChain))" by (simp add: poolChain_def)
  moreover have "x_StateAt memExecution (ch_blockchain poolChain) (snd (x_CurrentBlock memExecution (ch_blockchain poolChain))) = Inr []"
    by (simp add: memExecution_def)
  moreover have key: "fst ` set (ch_pending poolChain) = {7}" by (simp add: poolChain_def)
  ultimately obtain sel k where sel: "executableTransactions memExecution poolChain = Inr (map snd sel)" "fst ` set sel \<subseteq> {7 :: address}"
    and k: "\<forall>i < k. ?p i \<noteq> None" "?p k = None" "map snd (filter (\<lambda>p. fst p = 7) sel) = map (\<lambda>i. the (?p i)) [0..<k]"
    using executable_transactions_exact [of poolChain memExecution "[]"] unfolding key by auto
  have p: "?p 0 = Some (exampleTx 11 0)" "?p 1 = Some (exampleTx 12 1)" "?p 2 = None"
    by (simp_all add: memExecution_def getOr_def poolChain_def pooled_def)
  have "k \<noteq> 0" "k \<noteq> 1" using k(2) p(1,2) by (metis option.distinct(1))+
  moreover have "\<not> 2 < k" using k(1) p(3) by blast
  ultimately have "k = 2" by simp
  moreover have "filter (\<lambda>p. fst p = 7) sel = sel" using sel(2) by (auto simp: filter_id_conv)
  ultimately show ?thesis using sel(1) k(3) p by (simp add: upt_rec numeral_2_eq_2)
qed

lemma pool_add_witness:
  "poolOK poolChain \<and> (case addTransaction memExecution (exampleTx 14 1) poolChain of
     Inl _ \<Rightarrow> False | Inr c \<Rightarrow> poolOK c \<and> map_of (ch_arrival c) 14 = Some 2)"
proof -
  obtain c where c: "addTransaction memExecution (exampleTx 14 1) poolChain = Inr c"
    by (simp add: addTransaction_def memExecution_def validationTx_def exampleTx_def poolChain_def pooled_def
        poolSender_def getOr_def underpriced_def Let_def exampleChain_def)
  have "tx_Hash (exampleTx 14 1) \<notin> tx_Hash ` ran (poolMap (ch_pending poolChain))"
    by (auto simp: ran_def poolMap_def pooled_def poolChain_def getOr_def exampleTx_def split: if_splits)
  moreover have "ch_nextArrival poolChain \<noteq> - 1" by (simp add: poolChain_def)
  ultimately have "poolOK c \<and> map_of (ch_arrival c) 14 = Some 2"
    using pool_add [OF poolChain_OK c]
    by (simp add: exampleTx_def poolSender_def memExecution_def pooled_def poolChain_def getOr_def)
  then show ?thesis using poolChain_OK c by simp
qed

lemma pool_mined_witness:
  "minedFromPool memExecution (emptyBlock\<lparr>b_Hash := 101, b_Transactions := [exampleTx 11 0]\<rparr>) poolChain
   \<and> poolOK (applyCanonicalBlock memExecution (emptyBlock\<lparr>b_Hash := 101, b_Transactions := [exampleTx 11 0]\<rparr>) 1 poolChain)
   \<and> ch_slot (applyCanonicalBlock memExecution (emptyBlock\<lparr>b_Hash := 101, b_Transactions := [exampleTx 11 0]\<rparr>) 1 poolChain) = 1"
proof -
  have m: "minedFromPool memExecution (emptyBlock\<lparr>b_Hash := 101, b_Transactions := [exampleTx 11 0]\<rparr>) poolChain"
    by (auto simp: minedFromPool_def memExecution_def exampleTx_def poolChain_def pooled_def getOr_def split: if_splits)
  show ?thesis using pool_mined [OF poolChain_OK m, of 1] m by blast
qed

lemma resubmission_loses_arrival_witness:
  "\<exists>c'. addTransaction memExecution (exampleTx 12 1) poolChain = Inr c' \<and> map_of (ch_arrival poolChain) 12 = Some 2
     \<and> map_of (ch_arrival c') 12 = None \<and> transactionBefore memExecution c' (exampleTx 12 1) (exampleTx 11 0)"
proof -
  have again: "pooled (ch_pending poolChain) (poolSender memExecution poolChain (exampleTx 12 1)) (tx_Nonce (exampleTx 12 1)) = Some (exampleTx 12 1)"
    by (simp add: pooled_def poolChain_def poolSender_def memExecution_def exampleTx_def getOr_def)
  have plain: "tx_Sidecar (exampleTx 12 1) = None" by (simp add: exampleTx_def)
  have valid: "t_ValidateTransaction memExecution cfg tx hd = Inr ()" "x_StateAt memExecution bc root = Inr []"
    "t_ValidateTransactionWithState memExecution cfg tx hd st f g = Inr ()" for cfg tx hd bc root st f g
    by (simp_all add: memExecution_def)
  have facts: "tx_Hash (exampleTx 12 1) = 12" "tx_GasFeeCap (exampleTx 12 1) = 5" "tx_GasTipCap (exampleTx 12 1) = 1" "ch_order poolChain = ''fifo''"
    by (simp_all add: exampleTx_def poolChain_def exampleChain_def)
  have "\<exists>c'. addTransaction memExecution (exampleTx 12 1) poolChain = Inr c' \<and> poolMap (ch_pending c') = poolMap (ch_pending poolChain)
      \<and> map_of (ch_arrival c') 12 = None \<and> (\<forall>k t. poolMap (ch_pending c') k = Some t \<longrightarrow> t \<noteq> exampleTx 12 1
        \<longrightarrow> transactionBefore memExecution c' (exampleTx 12 1) t)"
    using resubmission_loses_arrival [OF poolChain_OK again plain valid(1,2,3)] by (auto simp: facts)
  then obtain c' where c': "addTransaction memExecution (exampleTx 12 1) poolChain = Inr c'"
    "poolMap (ch_pending c') = poolMap (ch_pending poolChain)" "map_of (ch_arrival c') 12 = None"
    "\<And>k t. poolMap (ch_pending c') k = Some t \<Longrightarrow> t \<noteq> exampleTx 12 1 \<Longrightarrow> transactionBefore memExecution c' (exampleTx 12 1) t"
    by blast
  have "poolMap (ch_pending c') (7, 0) = Some (exampleTx 11 0)"
    unfolding c'(2) by (simp add: poolMap_def pooled_def poolChain_def getOr_def)
  moreover have "exampleTx 11 0 \<noteq> exampleTx 12 1" by (simp add: exampleTx_def)
  moreover have "map_of (ch_arrival poolChain) 12 = Some 2" by (simp add: poolChain_def)
  ultimately show ?thesis using c' by blast
qed

end
