(* ===== verification/Safety.thy ===== *)
theory Safety
  imports Chain
begin

text \<open>
  Safety metadata (\<open>src/state_metadata.go\<close>): whether a block descends from an override of the state
  or of the requests, the first such block and the reasons; the same for the session. The status a
  client reads, and the stored forms of timeline and session.
\<close>

section \<open>Operations\<close>

definition "taintControlStateOverride = ''control-state-override''"
definition "taintExecutionRequestControl = ''execution-request-control''"
definition "taintSafetyMetadataUnavailable = ''safety-metadata-unavailable''"

text \<open>Appending the non-empty reasons that are not yet there.\<close>

definition addReasons :: "string list \<Rightarrow> string list \<Rightarrow> string list" where
  "addReasons unsafeReasons reasons =
     fold (\<lambda>r rs. if r \<noteq> [] \<and> r \<notin> set rs then rs @ [r] else rs) unsafeReasons reasons"

definition blockSafetyForChild :: "BlockSafety \<Rightarrow> hash \<Rightarrow> string list \<Rightarrow> BlockSafety" where
  "blockSafetyForChild parent hash unsafeReasons =
     (if \<not> bs_Tainted parent \<and> \<not> (\<exists>r \<in> set unsafeReasons. r \<noteq> []) then zeroBlockSafety\<lparr>bs_BlockHash := hash\<rparr>
      else \<lparr>bs_BlockHash = hash, bs_Tainted = True,
            bs_FirstUnsafeBlock = (case bs_FirstUnsafeBlock parent of None \<Rightarrow> Some hash | Some h \<Rightarrow> Some h),
            bs_Reasons = sort (addReasons unsafeReasons (bs_Reasons parent))\<rparr>)"

definition taintStoredSession :: "storedSessionSafety \<Rightarrow> BlockSafety \<Rightarrow> string list \<Rightarrow> storedSessionSafety" where
  "taintStoredSession session safety unsafeReasons =
     \<lparr>ss_Tainted = True,
      ss_FirstUnsafeBlock = (case ss_FirstUnsafeBlock session of None \<Rightarrow> bs_FirstUnsafeBlock safety | Some h \<Rightarrow> Some h),
      ss_Reasons = sort (addReasons unsafeReasons (ss_Reasons session))\<rparr>"

definition sortedReasonSet :: "string list \<Rightarrow> string list" where
  "sortedReasonSet values = sort (remdups values)"

definition timeline :: "('x, 's) executionChain \<Rightarrow> storedTimeline" where
  "timeline c = \<lparr>tl_GenesisTime = ch_genesisTime c, tl_GenesisHash = ch_genesisHash c,
     tl_ExternalGenesis = ch_externalGenesis c, tl_CurrentSlot = ch_slot c,
     tl_LastProcessedSlot = ch_lastProcessedSlot c, tl_Complete = ch_timelineComplete c,
     tl_FinalityPaused = ch_finalityPaused c, tl_FinalitySlot = ch_finalitySlot c\<rparr>"

definition sessionSafety :: "('x, 's) executionChain \<Rightarrow> storedSessionSafety" where
  "sessionSafety c = \<lparr>ss_Tainted = ch_sessionTainted c, ss_FirstUnsafeBlock = ch_firstUnsafeBlock c,
     ss_Reasons = sortedReasonSet (ch_taintReasons c)\<rparr>"

record SafetyStatus =
  st_SessionTainted :: bool
  st_HeadTainted :: bool
  st_FirstUnsafeBlock :: "hash option"
  st_Reasons :: "string list"
  st_TimelineComplete :: bool
  st_ConsensusMode :: string

definition Node_SafetyStatus :: "('x, 's, 'z) execution_scheme \<Rightarrow> ('x, 's) executionChain \<Rightarrow> SafetyStatus" where
  "Node_SafetyStatus X c =
     (let head = fst (x_CurrentBlock X (ch_blockchain c)); reasons = sortedReasonSet (ch_taintReasons c) in
      case map_of (ch_blockSafety c) head of
        Some headSafety \<Rightarrow>
          \<lparr>st_SessionTainted = ch_sessionTainted c, st_HeadTainted = bs_Tainted headSafety,
           st_FirstUnsafeBlock = ch_firstUnsafeBlock c, st_Reasons = reasons,
           st_TimelineComplete = ch_timelineComplete c, st_ConsensusMode = ''synthetic''\<rparr>
      | None \<Rightarrow>
          \<lparr>st_SessionTainted = True, st_HeadTainted = True, st_FirstUnsafeBlock = Some head,
           st_Reasons = (if taintSafetyMetadataUnavailable \<in> set reasons then reasons
              else sort (reasons @ [taintSafetyMetadataUnavailable])),
           st_TimelineComplete = ch_timelineComplete c, st_ConsensusMode = ''synthetic''\<rparr>)"

definition Node_BlockSafety :: "('x, 's, 'z) execution_scheme \<Rightarrow> ('x, 's) executionChain \<Rightarrow> hash \<Rightarrow> error + BlockSafety" where
  "Node_BlockSafety X c hash =
     (case map_of (ch_blockSafety c) hash of
        Some safety \<Rightarrow> Inr safety
      | None \<Rightarrow>
          if x_GetBlockByHash X (ch_blockchain c) hash \<noteq> None
          then Inr \<lparr>bs_BlockHash = hash, bs_Tainted = True, bs_FirstUnsafeBlock = Some hash,
                    bs_Reasons = [taintSafetyMetadataUnavailable]\<rparr>
          else Inl (Err ''block safety metadata not found''))"

section \<open>Properties\<close>

lemma addReasons_props:
  "distinct reasons \<Longrightarrow> distinct (addReasons rs reasons)"
  "set (addReasons rs reasons) = set reasons \<union> {r \<in> set rs. r \<noteq> []}"
  unfolding addReasons_def
  by (induction rs arbitrary: reasons) auto

text \<open>A well-formed safety record: a tainted block names its first unsafe ancestor and its reasons.\<close>

definition safetyOK :: "BlockSafety \<Rightarrow> bool" where
  "safetyOK s \<longleftrightarrow> (bs_Tainted s \<longleftrightarrow> bs_FirstUnsafeBlock s \<noteq> None) \<and> (bs_Tainted s \<longleftrightarrow> bs_Reasons s \<noteq> [])
     \<and> sorted (bs_Reasons s) \<and> distinct (bs_Reasons s) \<and> [] \<notin> set (bs_Reasons s)"

lemma blockSafetyForChild_tainted [simp]:
  "bs_Tainted (blockSafetyForChild parent h rs) \<longleftrightarrow> bs_Tainted parent \<or> (\<exists>r \<in> set rs. r \<noteq> [])"
  by (simp add: blockSafetyForChild_def zeroBlockSafety_def)

lemma blockSafetyForChild_first:
  "safetyOK parent \<Longrightarrow> bs_FirstUnsafeBlock (blockSafetyForChild parent h rs) =
      (if bs_Tainted parent then bs_FirstUnsafeBlock parent else if \<exists>r \<in> set rs. r \<noteq> [] then Some h else None)"
  by (auto simp: blockSafetyForChild_def safetyOK_def zeroBlockSafety_def)

lemma blockSafetyForChild_reasons:
  "safetyOK parent \<Longrightarrow> set (bs_Reasons (blockSafetyForChild parent h rs)) = set (bs_Reasons parent) \<union> {r \<in> set rs. r \<noteq> []}"
  by (cases "bs_Tainted parent \<or> (\<exists>r \<in> set rs. r \<noteq> [])")
    (simp add: blockSafetyForChild_def addReasons_props, auto simp: blockSafetyForChild_def safetyOK_def zeroBlockSafety_def)

lemma blockSafetyForChild_OK:
  assumes "safetyOK parent"
  shows "safetyOK (blockSafetyForChild parent h rs)"
proof (cases "bs_Tainted parent \<or> (\<exists>r \<in> set rs. r \<noteq> [])")
  case False
  then have "blockSafetyForChild parent h rs = zeroBlockSafety\<lparr>bs_BlockHash := h\<rparr>"
    by (simp add: blockSafetyForChild_def)
  then show ?thesis by (simp add: safetyOK_def zeroBlockSafety_def)
next
  case True
  let ?c = "blockSafetyForChild parent h rs"
  have c: "?c = \<lparr>bs_BlockHash = h, bs_Tainted = True,
            bs_FirstUnsafeBlock = (case bs_FirstUnsafeBlock parent of None \<Rightarrow> Some h | Some h \<Rightarrow> Some h),
            bs_Reasons = sort (addReasons rs (bs_Reasons parent))\<rparr>"
    using True by (auto simp: blockSafetyForChild_def)
  have "set (bs_Reasons ?c) \<noteq> {}"
    using True assms blockSafetyForChild_reasons [OF assms, of h rs] by (auto simp: safetyOK_def)
  moreover have "[] \<notin> set (bs_Reasons ?c)"
    using assms blockSafetyForChild_reasons [OF assms, of h rs] by (simp add: safetyOK_def)
  moreover have "sorted (bs_Reasons ?c)" "distinct (bs_Reasons ?c)" "bs_Tainted ?c" "bs_FirstUnsafeBlock ?c \<noteq> None"
    using assms addReasons_props(1) by (simp_all add: c safetyOK_def split: option.splits)
  ultimately show ?thesis by (simp add: safetyOK_def)
qed

lemmas blockSafetyForChild_facts =
  blockSafetyForChild_OK blockSafetyForChild_first blockSafetyForChild_reasons

text \<open>The safety of the blocks of a chain, oldest first, each with its own reasons.\<close>

fun chainSafety :: "BlockSafety \<Rightarrow> (hash \<times> string list) list \<Rightarrow> BlockSafety" where
  "chainSafety s [] = s"
| "chainSafety s ((h, rs) # bs) = chainSafety (blockSafetyForChild s h rs) bs"

text \<open>
  C13: Taint is permanent and traceable. Along any chain of blocks the head is tainted exactly when
  the start is or some block had a reason of its own; the first unsafe block is the one of the start
  if it is tainted and otherwise the first block with a reason; the reasons are exactly those of the
  start and of all blocks since, sorted and without repetition.
\<close>

theorem taint_permanent:
  assumes "safetyOK s"
  shows "safetyOK (chainSafety s bs)
    \<and> (bs_Tainted (chainSafety s bs) \<longleftrightarrow> bs_Tainted s \<or> (\<exists>(h, rs) \<in> set bs. \<exists>r \<in> set rs. r \<noteq> []))
    \<and> bs_FirstUnsafeBlock (chainSafety s bs) =
        (if bs_Tainted s then bs_FirstUnsafeBlock s
         else map_option fst (find (\<lambda>(h, rs). \<exists>r \<in> set rs. r \<noteq> []) bs))
    \<and> set (bs_Reasons (chainSafety s bs)) = set (bs_Reasons s) \<union> {r. r \<noteq> [] \<and> (\<exists>(h, rs) \<in> set bs. r \<in> set rs)}"
  using assms
proof (induction bs arbitrary: s)
  case Nil
  then show ?case by (auto simp: safetyOK_def)
next
  case (Cons b bs)
  obtain h rs where b: "b = (h, rs)" by (cases b)
  note c = blockSafetyForChild_facts [OF Cons.prems, of h rs]
  note IH = Cons.IH [OF c(1)]
  have "{r. r \<noteq> [] \<and> (\<exists>(h', rs') \<in> set (b # bs). r \<in> set rs')}
      = {r \<in> set rs. r \<noteq> []} \<union> {r. r \<noteq> [] \<and> (\<exists>(h', rs') \<in> set bs. r \<in> set rs')}" by (auto simp: b)
  then have "set (bs_Reasons (chainSafety s (b # bs))) = set (bs_Reasons s) \<union> {r. r \<noteq> [] \<and> (\<exists>(h, rs) \<in> set (b # bs). r \<in> set rs)}"
    using IH c(3) by (simp add: b Un_assoc)
  moreover have "bs_Tainted (chainSafety s (b # bs)) \<longleftrightarrow> bs_Tainted s \<or> (\<exists>(h, rs) \<in> set (b # bs). \<exists>r \<in> set rs. r \<noteq> [])"
    using IH by (simp add: b)
  moreover have "bs_FirstUnsafeBlock (chainSafety s (b # bs)) =
        (if bs_Tainted s then bs_FirstUnsafeBlock s
         else map_option fst (find (\<lambda>(h, rs). \<exists>r \<in> set rs. r \<noteq> []) (b # bs)))"
    using IH c(2) by (simp add: b)
  moreover have "safetyOK (chainSafety s (b # bs))" using IH by (simp add: b)
  ultimately show ?case by blast
qed

lemma taint_permanent_witness:
  "safetyOK zeroBlockSafety
   \<and> bs_FirstUnsafeBlock (chainSafety zeroBlockSafety [(1, []), (2, [''b'', ''a'']), (3, [''c''])]) = Some 2"
proof -
  have "safetyOK zeroBlockSafety" by (simp add: safetyOK_def zeroBlockSafety_def)
  with taint_permanent [OF this, of "[(1, []), (2, [''b'', ''a'']), (3, [''c''])]"] show ?thesis
    by (simp add: zeroBlockSafety_def)
qed

end
