(* ===== verification/Merkle.thy ===== *)
theory Merkle
  imports Sha256
begin

text \<open>
  The Merkle trees of the consensus projection (\<open>src/consensus.go\<close>): hashing of fixed containers
  and of lists with a length, and inclusion proofs. \<open>[32]byte\<close> is \<open>hash\<close>.

  \<open>treeRoot\<close> is the reference: the root of the full binary tree whose missing leaves are zero.
\<close>

section \<open>Hashing\<close>

definition hashPair :: "hash \<Rightarrow> hash \<Rightarrow> hash" where
  "hashPair left right = Sum256 (arr_bytes left @ arr_bytes right)"

text \<open>One level: \<open>next[i] = hashPair(nodes[2*i], nodes[2*i+1])\<close> for \<open>i < len(nodes)/2\<close>.\<close>

fun nextLevel :: "hash list \<Rightarrow> hash list" where
  "nextLevel (a # b # nodes) = hashPair a b # nextLevel nodes"
| "nextLevel _ = []"

lemma length_nextLevel [simp]: "length (nextLevel nodes) = length nodes div 2"
  by (induction nodes rule: nextLevel.induct) simp_all

function merkleizeFixed :: "hash list \<Rightarrow> error + hash" where
  "merkleizeFixed leaves =
     (if length leaves > 1 then merkleizeFixed (nextLevel leaves)
      else case leaves of [] \<Rightarrow> Inl (Panic ''index out of range'') | root # _ \<Rightarrow> Inr root)"
  by pat_completeness auto
termination by (relation "measure length") auto

declare merkleizeFixed.simps [simp del]

fun zeroHash :: "nat \<Rightarrow> hash" where
  "zeroHash 0 = 0"
| "zeroHash (Suc depth) = hashPair (zeroHash depth) (zeroHash depth)"

text \<open>The loop of \<open>merkleizeList\<close> that halves the nodes; \<open>zeros\<close> has the zero hashes by level.\<close>

function listLevels :: "hash list \<Rightarrow> nat \<Rightarrow> hash list \<Rightarrow> error + nat \<times> hash list" where
  "listLevels zeros level nodes =
     (if length nodes > 1
      then if odd (length nodes) \<and> level \<ge> length zeros then Inl (Panic ''index out of range'')
        else listLevels zeros (level + 1) (nextLevel (if odd (length nodes) then nodes @ [zeros ! level] else nodes))
      else Inr (level, nodes))"
  by pat_completeness auto
termination
proof (relation "measure (\<lambda>(_, _, nodes). length nodes)", goal_cases)
  case (2 zeros level nodes)
  then show ?case by (cases "odd (length nodes)") (auto elim!: oddE)
qed simp

declare listLevels.simps [simp del]

definition uintChunk :: "u64 \<Rightarrow> hash" where
  "uintChunk n = be_word (le_bytes 8 n @ replicate 24 0)"

definition merkleizeList :: "hash list \<Rightarrow> nat \<Rightarrow> error + hash" where
  "merkleizeList leaves depth =
     (let zeros = map zeroHash [0..<depth + 1] in
      bindE (listLevels zeros 0 leaves) (\<lambda>(level, nodes).
      let root = (case nodes of [] \<Rightarrow> zeros ! 0 | root # _ \<Rightarrow> root);
          root = fold (\<lambda>l root. hashPair root (zeros ! l)) [level..<depth] root
      in Inr (hashPair root (uintChunk (of_nat (length leaves))))))"

text \<open>\<open>for size := uint64(1); size < limit; size <<= 1 { depth++ }\<close>; a shift beyond the width gives zero.\<close>

fun listDepth :: "nat \<Rightarrow> u64 \<Rightarrow> u64 \<Rightarrow> nat \<Rightarrow> nat" where
  "listDepth 0 limit sz depth = depth"
| "listDepth (Suc fuel) limit sz depth =
     (if sz < limit then listDepth fuel limit (push_bit 1 sz) (depth + 1) else depth)"

definition emptyListRoot :: "u64 \<Rightarrow> hash" where
  "emptyListRoot limit = hashPair (zeroHash (listDepth 64 limit 1 0)) 0"

definition pubkeyChunks :: "bytes \<Rightarrow> hash \<times> hash" where
  "pubkeyChunks pubkey = (be_word (take 32 pubkey), be_word (drop 32 pubkey @ replicate 16 0))"

definition validatorRoot :: "bytes \<Rightarrow> hash \<Rightarrow> u64 \<Rightarrow> error + hash" where
  "validatorRoot pubkey credentials balance =
     (let (first, second) = pubkeyChunks pubkey; farFuture = uintChunk (- 1) in
      merkleizeFixed [hashPair first second, credentials, uintChunk balance, 0,
        uintChunk 0, uintChunk 0, farFuture, farFuture])"

section \<open>Inclusion proofs\<close>

text \<open>The proof loop: the sibling at each level, from the leaves up.\<close>

fun siblings :: "nat \<Rightarrow> nat \<Rightarrow> hash list \<Rightarrow> hash list" where
  "siblings 0 index nodes = []"
| "siblings (Suc levels) index nodes =
     nodes ! (if even index then index + 1 else index - 1) # siblings levels (index div 2) (nextLevel nodes)"

text \<open>What a verifier computes from a leaf, its index and a proof (\<open>is_valid_merkle_branch\<close>).\<close>

fun branchRoot :: "hash \<Rightarrow> nat \<Rightarrow> hash list \<Rightarrow> hash" where
  "branchRoot leaf index [] = leaf"
| "branchRoot leaf index (sibling # path) =
     branchRoot (if even index then hashPair leaf sibling else hashPair sibling leaf) (index div 2) path"

section \<open>The reference tree\<close>

fun treeRoot :: "hash \<Rightarrow> nat \<Rightarrow> hash list \<Rightarrow> hash" where
  "treeRoot zero 0 leaves = (case leaves of [] \<Rightarrow> zero | leaf # _ \<Rightarrow> leaf)"
| "treeRoot zero (Suc depth) leaves =
     hashPair (treeRoot zero depth (take (2 ^ depth) leaves)) (treeRoot zero depth (drop (2 ^ depth) leaves))"

definition padded :: "hash \<Rightarrow> hash list \<Rightarrow> hash list" where
  "padded zero nodes = (if odd (length nodes) then nodes @ [zero] else nodes)"

lemma padded_simps [simp]:
  "padded z [] = []" "padded z [a] = [a, z]" "padded z (a # b # nodes) = a # b # padded z nodes"
  by (simp_all add: padded_def)

lemma take_nextLevel: "take k (nextLevel (padded z nodes)) = nextLevel (padded z (take (2 * k) nodes))"
proof (induction k arbitrary: nodes)
  case (Suc k)
  consider "nodes = []" | a where "nodes = [a]" | a b rest where "nodes = a # b # rest"
    by (metis list.exhaust)
  then show ?case by cases (simp_all add: Suc)
qed simp

lemma drop_nextLevel: "drop k (nextLevel (padded z nodes)) = nextLevel (padded z (drop (2 * k) nodes))"
proof (induction k arbitrary: nodes)
  case (Suc k)
  consider "nodes = []" | a where "nodes = [a]" | a b rest where "nodes = a # b # rest"
    by (metis list.exhaust)
  then show ?case by cases (simp_all add: Suc)
qed simp

lemma treeRoot_level:
  "treeRoot z (Suc depth) nodes = treeRoot (hashPair z z) depth (nextLevel (padded z nodes))"
proof (induction depth arbitrary: nodes)
  case 0
  consider "nodes = []" | a where "nodes = [a]" | a b rest where "nodes = a # b # rest"
    by (metis list.exhaust)
  then show ?case by cases simp_all
next
  case (Suc depth)
  show ?case
    by (subst treeRoot.simps(2), simp only: Suc) (simp add: take_nextLevel drop_nextLevel)
qed

lemma treeRoot_one:
  "length nodes \<le> 1 \<Longrightarrow> treeRoot (zeroHash level) depth nodes
   = fold (\<lambda>l root. hashPair root (zeroHash l)) [level..<level + depth]
       (case nodes of [] \<Rightarrow> zeroHash level | root # _ \<Rightarrow> root)"
proof (induction depth arbitrary: level nodes)
  case (Suc depth)
  let ?next = "nextLevel (padded (zeroHash level) nodes)"
  have small: "length ?next \<le> 1" using Suc.prems by (cases nodes) (auto simp: padded_def)
  have "(case ?next of [] \<Rightarrow> zeroHash (Suc level) | root # _ \<Rightarrow> root)
      = hashPair (case nodes of [] \<Rightarrow> zeroHash level | root # _ \<Rightarrow> root) (zeroHash level)"
    using Suc.prems by (cases nodes) auto
  with Suc.IH[OF small, of "Suc level"] show ?case
    by (simp add: treeRoot_level upt_rec[of level] del: treeRoot.simps upt_Suc)
qed simp

lemma listLevels_tree:
  "length nodes \<le> 2 ^ k \<Longrightarrow> level + k \<le> depth \<Longrightarrow>
   \<exists>level' nodes'. listLevels (map zeroHash [0..<depth + 1]) level nodes = Inr (level', nodes')
     \<and> length nodes' \<le> 1 \<and> level \<le> level' \<and> level' \<le> depth
     \<and> treeRoot (zeroHash level) (depth - level) nodes = treeRoot (zeroHash level') (depth - level') nodes'"
proof (induction k arbitrary: level nodes)
  case 0
  then show ?case by (subst listLevels.simps) (auto intro!: exI[of _ level])
next
  case (Suc k)
  show ?case
  proof (cases "length nodes > 1")
    case False
    then show ?thesis using Suc.prems by (subst listLevels.simps) (auto intro!: exI[of _ level])
  next
    case True
    let ?next = "nextLevel (padded (zeroHash level) nodes)"
    have step: "listLevels (map zeroHash [0..<depth + 1]) level nodes
        = listLevels (map zeroHash [0..<depth + 1]) (level + 1) ?next"
      using True Suc.prems by (subst listLevels.simps) (auto simp: padded_def nth_append simp del: upt_Suc)
    have "length (padded (zeroHash level) nodes) \<le> 2 * 2 ^ k"
      using Suc.prems(1) unfolding padded_def by (cases "odd (length nodes)") (simp_all, presburger)
    then have small: "length ?next \<le> 2 ^ k" by simp
    have "depth - level = Suc (depth - (level + 1))" using Suc.prems(2) by simp
    then have tree: "treeRoot (zeroHash level) (depth - level) nodes
        = treeRoot (zeroHash (level + 1)) (depth - (level + 1)) ?next"
      by (simp only: treeRoot_level) simp
    from Suc.IH[OF small, of "level + 1"] Suc.prems(2)
    show ?thesis unfolding step tree by fastforce
  qed
qed

lemma listLevels_nonempty:
  "listLevels zeros level nodes = Inr (level', nodes') \<Longrightarrow> nodes \<noteq> [] \<Longrightarrow> nodes' \<noteq> []"
proof (induction zeros level nodes rule: listLevels.induct)
  case (1 zeros level nodes)
  show ?case
  proof (cases "length nodes > 1")
    case True
    let ?next = "nextLevel (if odd (length nodes) then nodes @ [zeros ! level] else nodes)"
    have ok: "\<not> (odd (length nodes) \<and> level \<ge> length zeros)"
      and rest: "listLevels zeros (level + 1) ?next = Inr (level', nodes')"
      using 1(2) True by (subst (asm) listLevels.simps, simp split: if_splits)+
    have "?next \<noteq> []" using True by (cases nodes rule: nextLevel.cases) auto
    from 1(1)[OF True ok rest this] show ?thesis .
  next
    case False
    with 1(2,3) show ?thesis by (subst (asm) listLevels.simps) auto
  qed
qed

lemma listLevels_empty: "listLevels zeros level nodes = Inr (level', []) \<Longrightarrow> level' = level"
  using listLevels_nonempty[of zeros level nodes level' "[]"]
  by (cases "nodes = []") (simp_all add: listLevels.simps[of zeros level "[]"])

lemma merkleizeList_tree:
  assumes "length leaves \<le> 2 ^ depth"
  shows "merkleizeList leaves depth
    = Inr (hashPair (treeRoot 0 depth leaves) (uintChunk (of_nat (length leaves))))"
proof -
  obtain level' nodes' where run: "listLevels (map zeroHash [0..<depth + 1]) 0 leaves = Inr (level', nodes')"
    and le: "length nodes' \<le> 1" "level' \<le> depth"
    and tree: "treeRoot (zeroHash 0) depth leaves = treeRoot (zeroHash level') (depth - level') nodes'"
    using listLevels_tree[OF assms, of 0 depth] by auto
  have zeros: "fold (\<lambda>l root. hashPair root (map zeroHash [0..<depth + 1] ! l)) [level'..<depth] r
      = fold (\<lambda>l root. hashPair root (zeroHash l)) [level'..<depth] r" for r
    by (intro fold_cong) (auto simp: nth_append simp del: upt_Suc)
  from tree have "treeRoot 0 depth leaves = fold (\<lambda>l root. hashPair root (zeroHash l)) [level'..<depth]
      (case nodes' of [] \<Rightarrow> zeroHash level' | root # _ \<Rightarrow> root)"
    using treeRoot_one[OF le(1), of level' "depth - level'"] le(2) by simp
  moreover have "(case nodes' of [] \<Rightarrow> zeroHash level' | root # _ \<Rightarrow> root) = (case nodes' of [] \<Rightarrow> 0 | root # _ \<Rightarrow> root)"
    using listLevels_empty[of "map zeroHash [0..<depth + 1]" 0 leaves level'] run by (cases nodes') (auto simp del: upt_Suc)
  ultimately show ?thesis
    using run zeros by (cases nodes') (simp_all add: merkleizeList_def Let_def del: upt_Suc)
qed

text \<open>
  C15: The list hash computed level by level with cached zero hashes is the root of the full binary
  tree of the given depth, in which every missing leaf is zero, mixed with the number of leaves. It
  never indexes out of range when the leaves fit the tree.
\<close>

theorem merkleizeList_full_tree:
  assumes "length leaves \<le> 2 ^ depth"
  shows "merkleizeList leaves depth
    = Inr (hashPair (treeRoot 0 depth leaves) (uintChunk (of_nat (length leaves))))"
  by (rule merkleizeList_tree[OF assms])

theorem merkleizeList_full_tree_witness:
  "length [3, 5, 7 :: hash] \<le> 2 ^ 2 \<and> merkleizeList [3, 5, 7] 2
    = Inr (hashPair (hashPair (hashPair 3 5) (hashPair 7 0)) (uintChunk 3))"
  using merkleizeList_full_tree[of "[3, 5, 7]" 2] by (simp add: numeral_2_eq_2)

section \<open>Proofs verify\<close>

lemma nth_nextLevel:
  "i < length nodes div 2 \<Longrightarrow> nextLevel nodes ! i = hashPair (nodes ! (2 * i)) (nodes ! (2 * i + 1))"
proof (induction nodes arbitrary: i rule: nextLevel.induct)
  case (1 a b nodes)
  then show ?case by (cases i) simp_all
qed simp_all

lemma merkleizeFixed_one [simp]: "merkleizeFixed [root] = Inr root"
  by (subst merkleizeFixed.simps) simp

lemma merkleizeFixed_level: "length nodes = 2 ^ Suc k \<Longrightarrow> merkleizeFixed nodes = merkleizeFixed (nextLevel nodes)"
  using power_increasing[of 1 "Suc k" "2 :: nat"] by (subst merkleizeFixed.simps) (auto simp del: power_Suc)

lemma branchRoot_siblings:
  "length nodes = 2 ^ levels \<Longrightarrow> index < 2 ^ levels \<Longrightarrow>
   merkleizeFixed nodes = Inr (branchRoot (nodes ! index) index (siblings levels index nodes))"
proof (induction levels arbitrary: nodes index)
  case 0
  then show ?case by (cases nodes) auto
next
  case (Suc levels)
  have half: "length (nextLevel nodes) = 2 ^ levels" "index div 2 < 2 ^ levels" using Suc.prems by simp_all
  have "nextLevel nodes ! (index div 2)
      = (if even index then hashPair (nodes ! index) (nodes ! (index + 1)) else hashPair (nodes ! (index - 1)) (nodes ! index))"
    using Suc.prems half by (subst nth_nextLevel) (auto elim!: evenE oddE)
  with Suc.IH[OF half] Suc.prems(1) show ?case by (auto simp: merkleizeFixed_level)
qed

lemma merkleizeFixed_tree: "length nodes = 2 ^ k \<Longrightarrow> merkleizeFixed nodes = Inr (treeRoot z k nodes)"
proof (induction k arbitrary: nodes z)
  case 0
  then show ?case by (cases nodes) auto
next
  case (Suc k)
  then have "padded z nodes = nodes" by (simp add: padded_def)
  with Suc show ?case by (simp add: merkleizeFixed_level treeRoot_level del: treeRoot.simps)
qed

lemma treeRoot_replicate: "length leaves \<le> 2 ^ depth \<Longrightarrow> treeRoot z depth (leaves @ replicate (2 ^ depth - length leaves) z) = treeRoot z depth leaves"
proof (induction depth arbitrary: leaves)
  case 0
  then show ?case by (cases leaves) auto
next
  case (Suc depth)
  show ?case
  proof (cases "length leaves \<le> 2 ^ depth")
    case True
    then have "2 ^ Suc depth - length leaves = (2 ^ depth - length leaves) + 2 ^ depth" by simp
    with True Suc.IH[of leaves] Suc.IH[of "[]"] show ?thesis by (simp add: replicate_add)
  next
    case False
    with Suc.prems Suc.IH[of "drop (2 ^ depth) leaves"] show ?thesis by (simp add: mult_2 le_diff_conv)
  qed
qed

lemma branchRoot_append:
  "branchRoot leaf index (path @ path') = branchRoot (branchRoot leaf index path) (index div 2 ^ length path) path'"
  by (induction path arbitrary: leaf index) (auto simp: div_mult2_eq)

lemma length_siblings [simp]: "length (siblings levels index nodes) = levels"
  by (induction levels arbitrary: index nodes) simp_all

lemma branchRoot_mod: "branchRoot leaf (index mod 2 ^ length path) path = branchRoot leaf index path"
proof (induction path arbitrary: leaf index)
  case (Cons s path)
  have "index mod (2 * 2 ^ length path) div 2 = index div 2 mod 2 ^ length path"
    by (simp add: mod_mult2_eq)
  moreover have "even (index mod (2 * 2 ^ length path)) = even index"
    by (simp add: dvd_mod_iff)
  ultimately show ?case using Cons[of _ "index div 2"] by simp
qed simp

end
