(* ===== verification/Actions.thy ===== *)
theory Actions
  imports Storage
begin

text \<open>
  Stateful code as actions.

  \<^item> An action takes the state and returns its result, an error or a value, together with the state it
    leaves behind, so that what a failing command changes is part of the model.
  \<^item> \<open>env\<close> is what the outside decides while a command runs: whether the context is cancelled at its
    \<open>i\<close>-th poll, which reads and writes of the store fail, and the commit hook of \<open>src/commit.go\<close>. A
    batch is written as a whole or not at all.
\<close>

section \<open>Actions\<close>

type_synonym ('s, 'a) act = "'s \<Rightarrow> (error + 'a) \<times> 's"

named_theorems act_simps \<open>running actions\<close>

definition returnA :: "'a \<Rightarrow> ('s, 'a) act" where
  "returnA a s = (Inr a, s)"

definition throwA :: "error \<Rightarrow> ('s, 'a) act" where
  "throwA e s = (Inl e, s)"

definition liftA :: "error + 'a \<Rightarrow> ('s, 'a) act" where
  "liftA r s = (r, s)"

definition getA :: "('s, 's) act" where
  "getA s = (Inr s, s)"

definition modifyA :: "('s \<Rightarrow> 's) \<Rightarrow> ('s, unit) act" where
  "modifyA f s = (Inr (), f s)"

definition bindA :: "('s, 'a) act \<Rightarrow> ('a \<Rightarrow> ('s, 'b) act) \<Rightarrow> ('s, 'b) act" where
  "bindA m k s = (case m s of (Inl e, s') \<Rightarrow> (Inl e, s') | (Inr a, s') \<Rightarrow> k a s')"

text \<open>\<open>if err := m(); err != nil { n.f(err); return wrap(err) }\<close>\<close>

definition catchA :: "(error \<Rightarrow> 's \<Rightarrow> 's) \<Rightarrow> (error \<Rightarrow> error) \<Rightarrow> ('s, 'a) act \<Rightarrow> ('s, 'a) act" where
  "catchA f wrap m s = (case m s of (Inl e, s') \<Rightarrow> (Inl (wrap e), f e s') | (Inr a, s') \<Rightarrow> (Inr a, s'))"

definition failWith :: "error option \<Rightarrow> ('s, unit) act" where
  "failWith f s = (case f of None \<Rightarrow> (Inr (), s) | Some e \<Rightarrow> (Inl e, s))"

fun foldA :: "('a \<Rightarrow> 'b \<Rightarrow> ('s, 'a) act) \<Rightarrow> 'a \<Rightarrow> 'b list \<Rightarrow> ('s, 'a) act" where
  "foldA f a [] = returnA a"
| "foldA f a (x # xs) = bindA (f a x) (\<lambda>a. foldA f a xs)"

lemma act_run [act_simps]:
  "returnA a s = (Inr a, s)" "throwA e s = (Inl e, s)" "liftA r s = (r, s)" "getA s = (Inr s, s)"
  "modifyA f s = (Inr (), f s)"
  "failWith None s = (Inr (), s)" "failWith (Some e) s = (Inl e, s)"
  by (simp_all add: returnA_def throwA_def liftA_def getA_def modifyA_def failWith_def)

lemma bindA_run [act_simps]:
  "m s = (Inr a, s') \<Longrightarrow> bindA m k s = k a s'"
  "m s = (Inl e, s') \<Longrightarrow> bindA m k s = (Inl e, s')"
  by (simp_all add: bindA_def)

lemma bindA_unit [act_simps]:
  "bindA (returnA a) k = k a" "bindA getA k s = k s s" "bindA (modifyA f) k s = k () (f s)"
  "bindA (throwA e) k = throwA e" "bindA (liftA (Inr a)) k = k a" "bindA (liftA (Inl e)) k = throwA e"
  by (simp_all add: bindA_def fun_eq_iff act_run)

lemma bindA_Inr: "bindA m k s = (Inr b, t) \<longleftrightarrow> (\<exists>a s'. m s = (Inr a, s') \<and> k a s' = (Inr b, t))"
  by (auto simp: bindA_def split: prod.splits sum.splits)

lemma bindA_Inl:
  "bindA m k s = (Inl e, t) \<longleftrightarrow> m s = (Inl e, t) \<or> (\<exists>a s'. m s = (Inr a, s') \<and> k a s' = (Inl e, t))"
  by (auto simp: bindA_def split: prod.splits sum.splits)

lemma catchA_Inr: "catchA f w m s = (Inr a, t) \<longleftrightarrow> m s = (Inr a, t)"
  by (auto simp: catchA_def split: prod.splits sum.splits)

lemma catchA_Inl: "catchA f w m s = (Inl e, t) \<longleftrightarrow> (\<exists>e' s'. m s = (Inl e', s') \<and> e = w e' \<and> t = f e' s')"
  by (auto simp: catchA_def split: prod.splits sum.splits)

lemma failWith_Inr: "failWith f s = (Inr u, t) \<longleftrightarrow> f = None \<and> t = s"
  by (auto simp: failWith_def split: option.splits)

lemma failWith_Inl: "failWith f s = (Inl e, t) \<longleftrightarrow> f = Some e \<and> t = s"
  by (auto simp: failWith_def split: option.splits)

lemma liftA_eq: "liftA r s = (q, t) \<longleftrightarrow> r = q \<and> t = s"
  by (auto simp: liftA_def)

lemmas act_inv = bindA_Inr bindA_Inl catchA_Inr catchA_Inl failWith_Inr failWith_Inl liftA_eq

section \<open>The environment\<close>

datatype commitStage = StagePrepared | StageExecution | StageAuxiliary

datatype dbWrite = WriteJournal | WriteState | WriteBlock | WriteFinal | WriteAuxiliary | WriteProjection
  | WriteDiscard | WriteCancel

record env =
  e_ctxErr :: "nat \<Rightarrow> error option"
  e_read :: "dbkey \<Rightarrow> error option"
  e_write :: "dbWrite \<Rightarrow> error option"
  e_commitHook :: "commitStage \<Rightarrow> error option"

definition calm :: env where
  "calm = \<lparr>e_ctxErr = (\<lambda>_. None), e_read = (\<lambda>_. None), e_write = (\<lambda>_. None), e_commitHook = (\<lambda>_. None)\<rparr>"

definition dbGet :: "env \<Rightarrow> database \<Rightarrow> dbkey \<Rightarrow> error + cell option" where
  "dbGet E db k = (case e_read E k of Some e \<Rightarrow> Inl e | None \<Rightarrow> Inr (map_of db k))"

lemma dbGet_calm [simp]: "dbGet calm db k = Inr (map_of db k)"
  by (simp add: dbGet_def calm_def)

end
