(* ===== verification/Consensus.thy ===== *)
theory Consensus
  imports Chain Merkle Actions
begin

text \<open>
  The synthetic Beacon chain beside the execution chain (\<open>src/consensus.go\<close>, \<open>src/projection.go\<close>,
  \<open>src/gloas.go\<close>): every execution block has a signed Beacon block, its projection, which is stored with it
  and checked at the next start.

  \<^item> The Beacon types are those of go-eth2-client and of \<open>src/gloas_types.go\<close>; pointers that the code
    checks are options. Deneb and Electra bodies share a record, a Deneb body has no requests.
    Elements of lists that are always empty here (slashings, attestations and so on) are their bytes.
  \<^item> SSZ hashing and encoding of these types, RLP, Keccak and BLS are libraries: \<open>codecs\<close>.
  \<^item> \<open>consensusModel\<close> has a cache of signed blocks, so building a block is an action on it.
\<close>

section \<open>Beacon types\<close>

record ETH1Data =
  e1_DepositRoot :: hash
  e1_DepositCount :: u64
  e1_BlockHash :: bytes

record SyncAggregate =
  sa_SyncCommitteeBits :: bytes
  sa_SyncCommitteeSignature :: signature

record ExecutionPayload =
  ep_ParentHash :: hash
  ep_FeeRecipient :: address
  ep_StateRoot :: hash
  ep_ReceiptsRoot :: hash
  ep_LogsBloom :: bytes
  ep_PrevRandao :: hash
  ep_BlockNumber :: u64
  ep_GasLimit :: u64
  ep_GasUsed :: u64
  ep_Timestamp :: u64
  ep_ExtraData :: bytes
  ep_BaseFeePerGas :: "nat option"
  ep_BlockHash :: hash
  ep_Transactions :: "bytes list"
  ep_Withdrawals :: "Withdrawal list"
  ep_BlobGasUsed :: u64
  ep_ExcessBlobGas :: u64

record BeaconBlockBody =
  bd_RANDAOReveal :: signature
  bd_ETH1Data :: ETH1Data
  bd_Graffiti :: hash
  bd_ProposerSlashings :: "bytes list"
  bd_AttesterSlashings :: "bytes list"
  bd_Attestations :: "bytes list"
  bd_Deposits :: "bytes list"
  bd_VoluntaryExits :: "bytes list"
  bd_SyncAggregate :: SyncAggregate
  bd_ExecutionPayload :: "ExecutionPayload option"
  bd_BLSToExecutionChanges :: "bytes list"
  bd_BlobKZGCommitments :: "pubkey list"
  bd_ExecutionRequests :: "executionRequests option"

record BeaconBlock =
  bm_Slot :: u64
  bm_ProposerIndex :: u64
  bm_ParentRoot :: hash
  bm_StateRoot :: hash
  bm_Body :: "BeaconBlockBody option"

record SignedBeaconBlock =
  sk_Message :: "BeaconBlock option"
  sk_Signature :: signature

record gloasExecutionPayload = ExecutionPayload +
  gp_BlockAccessList :: bytes
  gp_SlotNumber :: u64

record gloasPayloadBid =
  gb_ParentBlockHash :: hash
  gb_ParentBlockRoot :: hash
  gb_BlockHash :: hash
  gb_PrevRandao :: hash
  gb_FeeRecipient :: address
  gb_GasLimit :: u64
  gb_BuilderIndex :: u64
  gb_Slot :: u64
  gb_Value :: u64
  gb_ExecutionPayment :: u64
  gb_BlobKZGCommitments :: "pubkey list"
  gb_ExecutionRequestsRoot :: hash

record gloasSignedPayloadBid =
  gs_BidMessage :: "gloasPayloadBid option"
  gs_BidSignature :: signature

record gloasPayloadEnvelope =
  ge_Payload :: "gloasExecutionPayload option"
  ge_ExecutionRequests :: "executionRequests option"
  ge_BuilderIndex :: u64
  ge_BeaconBlockRoot :: hash
  ge_ParentBeaconBlockRoot :: hash

record gloasSignedPayloadEnvelope =
  gv_Message :: "gloasPayloadEnvelope option"
  gv_Signature :: signature

record gloasBeaconBody =
  gy_RANDAOReveal :: signature
  gy_ETH1Data :: ETH1Data
  gy_Graffiti :: hash
  gy_ProposerSlashings :: "bytes list"
  gy_AttesterSlashings :: "bytes list"
  gy_Attestations :: "bytes list"
  gy_Deposits :: "bytes list"
  gy_VoluntaryExits :: "bytes list"
  gy_SyncAggregate :: SyncAggregate
  gy_BLSToExecutionChanges :: "bytes list"
  gy_SignedExecutionPayloadBid :: "gloasSignedPayloadBid option"
  gy_PayloadAttestations :: "bytes list"
  gy_ParentExecutionRequests :: "executionRequests option"

record gloasBeaconBlock =
  gk_Slot :: u64
  gk_ProposerIndex :: u64
  gk_ParentRoot :: hash
  gk_StateRoot :: hash
  gk_Body :: "gloasBeaconBody option"

record gloasSignedBeaconBlock =
  gm_Message :: "gloasBeaconBlock option"
  gm_Signature :: signature

record consensusBlock =
  cb_gloas :: "gloasSignedBeaconBlock option"
  cb_envelope :: "gloasSignedPayloadEnvelope option"
  cb_deneb :: "SignedBeaconBlock option"
  cb_electra :: "SignedBeaconBlock option"

definition zeroConsensusBlock :: consensusBlock where
  "zeroConsensusBlock = \<lparr>cb_gloas = None, cb_envelope = None, cb_deneb = None, cb_electra = None\<rparr>"

record 'x codecs =
  z_MarshalTx :: "tx \<Rightarrow> error + bytes"
  z_EncodeAccessList :: "accountAccess list \<Rightarrow> error + bytes"
  z_ReadAccessList :: "'x \<Rightarrow> hash \<Rightarrow> u64 \<Rightarrow> accountAccess list option"
  z_Keccak256 :: "bytes \<Rightarrow> hash"
  z_ETH1Root :: "ETH1Data \<Rightarrow> error + hash"
  z_SyncRoot :: "SyncAggregate \<Rightarrow> error + hash"
  z_PayloadRoot :: "ExecutionPayload option \<Rightarrow> error + hash"
  z_RequestsRoot :: "executionRequests option \<Rightarrow> error + hash"
  z_DenebBodyRoot :: "BeaconBlockBody \<Rightarrow> error + hash"
  z_ElectraBodyRoot :: "BeaconBlockBody \<Rightarrow> error + hash"
  z_DenebRoot :: "BeaconBlock \<Rightarrow> error + hash"
  z_ElectraRoot :: "BeaconBlock \<Rightarrow> error + hash"
  z_GloasRequestsRoot :: "executionRequests \<Rightarrow> error + hash"
  z_GloasBodyRoot :: "gloasBeaconBody \<Rightarrow> error + hash"
  z_GloasRoot :: "gloasBeaconBlock \<Rightarrow> error + hash"
  z_EnvelopeRoot :: "gloasPayloadEnvelope \<Rightarrow> error + hash"
  z_MarshalDeneb :: "SignedBeaconBlock \<Rightarrow> error + bytes"
  z_MarshalElectra :: "SignedBeaconBlock \<Rightarrow> error + bytes"
  z_MarshalGloas :: "gloasSignedBeaconBlock \<Rightarrow> error + bytes"
  z_MarshalEnvelope :: "gloasSignedPayloadEnvelope \<Rightarrow> error + bytes"
  z_UnmarshalDeneb :: "bytes \<Rightarrow> error + SignedBeaconBlock"
  z_UnmarshalElectra :: "bytes \<Rightarrow> error + SignedBeaconBlock"
  z_UnmarshalGloas :: "bytes \<Rightarrow> error + gloasSignedBeaconBlock"
  z_UnmarshalEnvelope :: "bytes \<Rightarrow> error + gloasSignedPayloadEnvelope"
  z_ForkDataRoot :: "bytes \<Rightarrow> hash \<Rightarrow> error + hash"
  z_SigningRoot :: "hash \<Rightarrow> bytes \<Rightarrow> error + hash"
  z_Deserialize :: "hash \<Rightarrow> error + hash"
  z_SkToPk :: "hash \<Rightarrow> error + bytes"
  z_Sign :: "hash \<Rightarrow> bytes \<Rightarrow> signature"

record consensusModel =
  cm_keys :: "hash list"
  cm_pubkeys :: "bytes list"
  cm_withdrawalCredentials :: "hash list"
  cm_genesisValidatorsRoot :: hash
  cm_blocks :: "(hash \<times> consensusBlock) list"
  cm_forks :: ForkConfig
  cm_slotsPerEpoch :: u64

text \<open>Dereferencing a pointer.\<close>

definition deref :: "'a option \<Rightarrow> error + 'a" where
  "deref p = (case p of None \<Rightarrow> Inl (Panic ''nil pointer dereference'') | Some v \<Rightarrow> Inr v)"

section \<open>Reading a signed block\<close>

definition messageRoot :: "('x, 'y) codecs_scheme \<Rightarrow> consensusBlock \<Rightarrow> error + hash" where
  "messageRoot Z b =
     (case cb_gloas b of
        Some g \<Rightarrow> bindE (deref (gm_Message g)) (z_GloasRoot Z)
      | None \<Rightarrow>
          (case cb_deneb b of
             Some d \<Rightarrow> bindE (deref (sk_Message d)) (z_DenebRoot Z)
           | None \<Rightarrow> bindE (deref (cb_electra b)) (\<lambda>e. bindE (deref (sk_Message e)) (z_ElectraRoot Z))))"

definition marshalSSZ :: "('x, 'y) codecs_scheme \<Rightarrow> consensusBlock \<Rightarrow> error + bytes" where
  "marshalSSZ Z b =
     (case cb_gloas b of
        Some g \<Rightarrow> z_MarshalGloas Z g
      | None \<Rightarrow>
          (case cb_deneb b of
             Some d \<Rightarrow> z_MarshalDeneb Z d
           | None \<Rightarrow> bindE (deref (cb_electra b)) (z_MarshalElectra Z)))"

text \<open>The message of a Deneb or Electra block.\<close>

definition beaconMessage :: "consensusBlock \<Rightarrow> error + BeaconBlock" where
  "beaconMessage b = bindE (deref (case cb_deneb b of Some d \<Rightarrow> Some d | None \<Rightarrow> cb_electra b)) (\<lambda>signed. deref (sk_Message signed))"

definition commitments :: "consensusBlock \<Rightarrow> error + pubkey list" where
  "commitments b =
     (case cb_gloas b of
        Some g \<Rightarrow>
          bindE (deref (gm_Message g)) (\<lambda>message. bindE (deref (gk_Body message)) (\<lambda>body.
          bindE (deref (gy_SignedExecutionPayloadBid body)) (\<lambda>signed. bindE (deref (gs_BidMessage signed)) (\<lambda>bid.
          Inr (gb_BlobKZGCommitments bid)))))
      | None \<Rightarrow> bindE (beaconMessage b) (\<lambda>message. bindE (deref (bm_Body message)) (\<lambda>body. Inr (bd_BlobKZGCommitments body))))"

definition consensusBlock_slot :: "consensusBlock \<Rightarrow> error + u64" where
  "consensusBlock_slot b =
     (case cb_gloas b of
        Some g \<Rightarrow> bindE (deref (gm_Message g)) (\<lambda>message. Inr (gk_Slot message))
      | None \<Rightarrow> bindE (beaconMessage b) (\<lambda>message. Inr (bm_Slot message)))"

definition consensusBlock_parentRoot :: "consensusBlock \<Rightarrow> error + hash" where
  "consensusBlock_parentRoot b =
     (case cb_gloas b of
        Some g \<Rightarrow> bindE (deref (gm_Message g)) (\<lambda>message. Inr (gk_ParentRoot message))
      | None \<Rightarrow> bindE (beaconMessage b) (\<lambda>message. Inr (bm_ParentRoot message)))"

definition gloasComplete :: "gloasSignedBeaconBlock \<Rightarrow> bool" where
  "gloasComplete g =
     (case gm_Message g of None \<Rightarrow> False | Some message \<Rightarrow>
     (case gk_Body message of None \<Rightarrow> False | Some body \<Rightarrow>
        (case gy_SignedExecutionPayloadBid body of None \<Rightarrow> False | Some bid \<Rightarrow> gs_BidMessage bid \<noteq> None)
        \<and> gy_ParentExecutionRequests body \<noteq> None))"

definition validateGloasStructure :: "consensusBlock \<Rightarrow> error + unit" where
  "validateGloasStructure b =
     (if (case cb_gloas b of None \<Rightarrow> False | Some g \<Rightarrow> gloasComplete g)
         \<and> (case cb_envelope b of None \<Rightarrow> False | Some e \<Rightarrow>
             (case gv_Message e of None \<Rightarrow> False | Some message \<Rightarrow> ge_Payload message \<noteq> None \<and> ge_ExecutionRequests message \<noteq> None))
      then Inr () else Inl (Err ''gloas projection is structurally incomplete''))"

text \<open>The execution payload of a Deneb or Electra block, if the block is complete.\<close>

definition signedPayload :: "SignedBeaconBlock option \<Rightarrow> ExecutionPayload option" where
  "signedPayload sealed = Option.bind sealed (\<lambda>s. Option.bind (sk_Message s) (\<lambda>message.
     Option.bind (bm_Body message) bd_ExecutionPayload))"

definition executionHash :: "consensusBlock \<Rightarrow> error + hash" where
  "executionHash b =
     (if cb_gloas b \<noteq> None
      then bindE (validateGloasStructure b) (\<lambda>_.
        Inr (ep_BlockHash (the (ge_Payload (the (gv_Message (the (cb_envelope b))))))))
      else case signedPayload (cb_deneb b) of
        Some p \<Rightarrow> Inr (ep_BlockHash p)
      | None \<Rightarrow>
          (case signedPayload (cb_electra b) of
             Some p \<Rightarrow> Inr (ep_BlockHash p)
           | None \<Rightarrow> Inl (Err ''beacon projection has no execution payload'')))"

section \<open>Forks and signatures\<close>

definition forkVersion :: "consensusModel \<Rightarrow> u64 \<Rightarrow> bytes" where
  "forkVersion m slot =
     (let epoch = slot div cm_slotsPerEpoch m; forks = cm_forks m in
      if fk_AmsterdamEpoch forks \<ge> 0 \<and> epoch \<ge> word_of_int (fk_AmsterdamEpoch forks) then [7, 0, 0, 0]
      else if epoch \<ge> fk_OsakaEpoch forks then [6, 0, 0, 0]
      else if epoch \<ge> fk_PragueEpoch forks then [5, 0, 0, 0]
      else [4, 0, 0, 0])"

definition forkName :: "consensusModel \<Rightarrow> u64 \<Rightarrow> string" where
  "forkName m slot =
     (let version = forkVersion m slot in
      if version ! 0 = 4 then ''deneb'' else if version ! 0 = 5 then ''electra''
      else if version ! 0 = 7 then ''gloas'' else ''fulu'')"

definition consensus_domain :: "('x, 'y) codecs_scheme \<Rightarrow> consensusModel \<Rightarrow> bytes \<Rightarrow> bytes \<Rightarrow> error + bytes" where
  "consensus_domain Z m domainType version =
     bindE (z_ForkDataRoot Z version (cm_genesisValidatorsRoot m)) (\<lambda>root.
     Inr (domainType @ take 28 (arr_bytes root)))"

definition consensus_sign ::
  "('x, 'y) codecs_scheme \<Rightarrow> consensusModel \<Rightarrow> hash \<Rightarrow> bytes \<Rightarrow> u64 \<Rightarrow> u64 \<Rightarrow> error + signature" where
  "consensus_sign Z m objectRoot domainType validator slot =
     bindE (consensus_domain Z m domainType (forkVersion m slot)) (\<lambda>domain.
     bindE (z_SigningRoot Z objectRoot domain) (\<lambda>signingRoot.
     if unat validator \<ge> length (cm_keys m) then Inl (Panic ''index out of range'')
     else Inr (z_Sign Z (cm_keys m ! unat validator) (arr_bytes signingRoot))))"

definition syntheticStateRoot :: "block \<Rightarrow> u64 \<Rightarrow> hash" where
  "syntheticStateRoot b slot = Sum256 (arr_bytes (b_Root b) @ le_bytes 8 slot)"

definition syntheticProposer :: "consensusModel \<Rightarrow> u64 \<Rightarrow> u64" where
  "syntheticProposer m slot = slot mod of_nat (length (cm_keys m))"

section \<open>Building a signed block\<close>

definition denebBodyFromElectra :: "BeaconBlockBody \<Rightarrow> BeaconBlockBody" where
  "denebBodyFromElectra body = body\<lparr>bd_ProposerSlashings := [], bd_AttesterSlashings := [], bd_Attestations := [],
     bd_ExecutionRequests := None\<rparr>"

definition bodyTransaction ::
  "('x, 's, 'w) execution_scheme \<Rightarrow> ('x, 'y) codecs_scheme \<Rightarrow> ('x, 's) executionChain \<Rightarrow> bytes list \<times> pubkey list \<Rightarrow> tx \<Rightarrow> error + bytes list \<times> pubkey list" where
  "bodyTransaction X Z c = (\<lambda>(transactions, found) transaction.
     bindE (z_MarshalTx Z (transaction\<lparr>tx_Sidecar := None\<rparr>)) (\<lambda>raw.
     case blobSidecarForVersion X c (tx_Hash transaction) 1 of
       Some sidecar \<Rightarrow> Inr (transactions @ [raw], found @ sc_Commitments sidecar)
     | None \<Rightarrow>
         if tx_BlobHashes transaction \<noteq> []
         then Inl (Errf ''blob transaction %s has no valid retained bundle'' [ArgN (unat (tx_Hash transaction))])
         else Inr (transactions @ [raw], found)))"

definition executionPayload :: "block \<Rightarrow> bytes list \<Rightarrow> ExecutionPayload" where
  "executionPayload b transactions =
     (let h = b_Header b in
      \<lparr>ep_ParentHash = h_ParentHash h, ep_FeeRecipient = h_Coinbase h, ep_StateRoot = h_Root h,
       ep_ReceiptsRoot = h_ReceiptHash h, ep_LogsBloom = h_Bloom h, ep_PrevRandao = h_MixDigest h,
       ep_BlockNumber = h_Number h, ep_GasLimit = h_GasLimit h, ep_GasUsed = h_GasUsed h, ep_Timestamp = h_Time h,
       ep_ExtraData = h_Extra h, ep_BaseFeePerGas = h_BaseFee h, ep_BlockHash = b_Hash b,
       ep_Transactions = transactions, ep_Withdrawals = b_Withdrawals b,
       ep_BlobGasUsed = (case h_BlobGasUsed h of None \<Rightarrow> 0 | Some g \<Rightarrow> g),
       ep_ExcessBlobGas = (case h_ExcessBlobGas h of None \<Rightarrow> 0 | Some g \<Rightarrow> g)\<rparr>)"

definition consensus_body ::
  "('x, 's, 'w) execution_scheme \<Rightarrow> ('x, 'y) codecs_scheme \<Rightarrow> consensusModel \<Rightarrow> ('x, 's) executionChain \<Rightarrow> block \<Rightarrow> u64 \<Rightarrow> executionRequests option
   \<Rightarrow> error + BeaconBlockBody" where
  "consensus_body X Z m c b slot requests =
     bindE (foldE (bodyTransaction X Z c) ([], []) (b_Transactions b)) (\<lambda>(transactions, found).
     if (case h_BaseFee (b_Header b) of None \<Rightarrow> False | Some fee \<Rightarrow> fee \<ge> 2 ^ 256) then Inl (Panic ''overflow'') else
     bindE (consensus_sign Z m (uintChunk (slot div cm_slotsPerEpoch m)) [2, 0, 0, 0] (syntheticProposer m slot) slot) (\<lambda>randao.
     bindE (cloneElectraExecutionRequests requests) (\<lambda>cloned.
     Inr \<lparr>bd_RANDAOReveal = randao, bd_ETH1Data = \<lparr>e1_DepositRoot = 0, e1_DepositCount = 0, e1_BlockHash = arr_bytes (b_Hash b)\<rparr>,
       bd_Graffiti = 0, bd_ProposerSlashings = [], bd_AttesterSlashings = [], bd_Attestations = [], bd_Deposits = [],
       bd_VoluntaryExits = [], bd_SyncAggregate = \<lparr>sa_SyncCommitteeBits = replicate 64 0, sa_SyncCommitteeSignature = 0\<rparr>,
       bd_ExecutionPayload = Some (executionPayload b transactions), bd_BLSToExecutionChanges = [],
       bd_BlobKZGCommitments = found,
       bd_ExecutionRequests = Some (cloned\<lparr>BuilderDeposits := [], BuilderExits := []\<rparr>)\<rparr>)))"

definition blockAccessListBytes ::
  "('x, 'y) codecs_scheme \<Rightarrow> ('x, 's) executionChain \<Rightarrow> block \<Rightarrow> error + bytes" where
  "blockAccessListBytes Z c b =
     (case h_BlockAccessListHash (b_Header b) of
        None \<Rightarrow> Inr []
      | Some expected \<Rightarrow>
          bindE (case (case b_AccessList b of Some l \<Rightarrow> Some l
                       | None \<Rightarrow> z_ReadAccessList Z (ch_blockchain c) (b_Hash b) (b_Number b)) of
                   None \<Rightarrow> if b_Number b \<noteq> 0
                     then Inl (Errf ''block %s is missing its block access list'' [ArgN (unat (b_Hash b))]) else Inr [0xc0]
                 | Some l \<Rightarrow> z_EncodeAccessList Z l) (\<lambda>encoded.
          if z_Keccak256 Z encoded \<noteq> expected then Inl (Err ''block access list hash mismatch'') else Inr encoded))"

definition loadExecutionRequestRecord ::
  "env \<Rightarrow> ('x, 's) executionChain \<Rightarrow> hash \<Rightarrow> error + storedExecutionRequestRecord option" where
  "loadExecutionRequestRecord E c hash =
     bindE (dbGet E (ch_db c) (KRequestRecord hash)) (\<lambda>found.
     case found of
       None \<Rightarrow> Inr None
     | Some (Val (VRecord r)) \<Rightarrow>
         if er_Format r \<noteq> executionRequestRecordFormat
         then Inl (Errf ''unsupported execution request record format %d'' [ArgN (nat (er_Format r))])
         else bindE (wrapE ''validate execution request record %s: %w'' (validateExecutionRequestRecord r)) (\<lambda>_. Inr (Some r))
     | Some _ \<Rightarrow> Inl (Errf ''decode execution request record %s: %w'' [ArgN (unat hash)]))"

definition gloasPayload ::
  "('x, 'y) codecs_scheme \<Rightarrow> ('x, 's) executionChain \<Rightarrow> block \<Rightarrow> ExecutionPayload \<Rightarrow> error + gloasExecutionPayload" where
  "gloasPayload Z c b p =
     bindE (blockAccessListBytes Z c b) (\<lambda>accessList.
     bindE (deref (h_SlotNumber (b_Header b))) (\<lambda>slot.
     Inr (ExecutionPayload.extend p \<lparr>gp_BlockAccessList = accessList, gp_SlotNumber = slot\<rparr>)))"

text \<open>The requests a Gloas block repeats from its execution parent.\<close>

definition parentRequests ::
  "('x, 's, 'w) execution_scheme \<Rightarrow> env \<Rightarrow> ('x, 's) executionChain \<Rightarrow> block \<Rightarrow> error + executionRequests option" where
  "parentRequests X E c b =
     bindE (cloneElectraExecutionRequests None) (\<lambda>none.
     if b_Number b > 0 then
       (case x_GetBlockByHash X (ch_blockchain c) (b_ParentHash b) of
          None \<Rightarrow> Inl (Err ''gloas execution parent is missing'')
        | Some parent \<Rightarrow>
            if c_IsAmsterdam X (ch_config c) (b_Number parent) (b_Time parent) \<and> b_Number parent > 0 then
              bindE (loadExecutionRequestRecord E c (b_Hash parent)) (\<lambda>found.
              case found of
                None \<Rightarrow> Inl (Err ''gloas parent requests are missing'')
              | Some r \<Rightarrow> parseExecutionRequests (er_Requests r))
            else Inr (Some none))
     else Inr (Some none))"

definition infinitySignature :: signature where
  "infinitySignature = be_word (0xc0 # replicate 95 0)"

definition buildGloas ::
  "('x, 's, 'w) execution_scheme \<Rightarrow> ('x, 'y) codecs_scheme \<Rightarrow> env \<Rightarrow> consensusModel \<Rightarrow> ('x, 's) executionChain \<Rightarrow> block
   \<Rightarrow> BeaconBlockBody \<Rightarrow> executionRequests option \<Rightarrow> hash \<Rightarrow> hash \<Rightarrow> u64 \<Rightarrow> error + consensusBlock" where
  "buildGloas X Z E m c b body requests parentRoot stateRoot proposer =
     (let slot = slotOf c b in
      if h_SlotNumber (b_Header b) \<noteq> Some slot
      then Inl (Err ''amsterdam slotNumber disagrees with the Beacon timeline'') else
      bindE (cloneElectraExecutionRequests requests) (\<lambda>requests.
      bindE (parentRequests X E c b) (\<lambda>fromParent.
      bindE (z_GloasRequestsRoot Z requests) (\<lambda>requestRoot.
      bindE (deref (bd_ExecutionPayload body)) (\<lambda>p.
      let bid = \<lparr>gb_ParentBlockHash = b_ParentHash b, gb_ParentBlockRoot = parentRoot, gb_BlockHash = b_Hash b,
            gb_PrevRandao = h_MixDigest (b_Header b), gb_FeeRecipient = ep_FeeRecipient p, gb_GasLimit = h_GasLimit (b_Header b),
            gb_BuilderIndex = MaxUint64, gb_Slot = slot, gb_Value = 0, gb_ExecutionPayment = 0,
            gb_BlobKZGCommitments = bd_BlobKZGCommitments body, gb_ExecutionRequestsRoot = requestRoot\<rparr>;
          message = \<lparr>gk_Slot = slot, gk_ProposerIndex = proposer, gk_ParentRoot = parentRoot, gk_StateRoot = stateRoot,
            gk_Body = Some \<lparr>gy_RANDAOReveal = bd_RANDAOReveal body, gy_ETH1Data = bd_ETH1Data body,
              gy_Graffiti = bd_Graffiti body, gy_ProposerSlashings = bd_ProposerSlashings body, gy_AttesterSlashings = [],
              gy_Attestations = [], gy_Deposits = bd_Deposits body, gy_VoluntaryExits = bd_VoluntaryExits body,
              gy_SyncAggregate = bd_SyncAggregate body, gy_BLSToExecutionChanges = bd_BLSToExecutionChanges body,
              gy_SignedExecutionPayloadBid = Some \<lparr>gs_BidMessage = Some bid, gs_BidSignature = infinitySignature\<rparr>,
              gy_PayloadAttestations = [], gy_ParentExecutionRequests = fromParent\<rparr>\<rparr> in
      bindE (z_GloasRoot Z message) (\<lambda>root.
      bindE (consensus_sign Z m root [0, 0, 0, 0] proposer slot) (\<lambda>sig.
      bindE (gloasPayload Z c b p) (\<lambda>payload.
      let envelope = \<lparr>ge_Payload = Some payload, ge_ExecutionRequests = Some requests, ge_BuilderIndex = MaxUint64,
            ge_BeaconBlockRoot = root, ge_ParentBeaconBlockRoot = parentRoot\<rparr> in
      bindE (z_EnvelopeRoot Z envelope) (\<lambda>envelopeRoot.
      bindE (consensus_sign Z m envelopeRoot [0x0b, 0, 0, 0] proposer slot) (\<lambda>envelopeSig.
      Inr (zeroConsensusBlock\<lparr>cb_gloas := Some \<lparr>gm_Message = Some message, gm_Signature = sig\<rparr>,
        cb_envelope := Some \<lparr>gv_Message = Some envelope, gv_Signature = envelopeSig\<rparr>\<rparr>)))))))))))"

text \<open>A signed block for given slot, requests and Beacon parent, of the fork the slot is in.\<close>

definition buildSigned ::
  "('x, 's, 'w) execution_scheme \<Rightarrow> ('x, 'y) codecs_scheme \<Rightarrow> env \<Rightarrow> consensusModel \<Rightarrow> ('x, 's) executionChain \<Rightarrow> block
   \<Rightarrow> executionRequests option \<Rightarrow> hash \<Rightarrow> error + consensusBlock" where
  "buildSigned X Z E m c b requests parentRoot =
     (let slot = slotOf c b; proposer = syntheticProposer m slot; stateRoot = syntheticStateRoot b slot in
      bindE (consensus_body X Z m c b slot requests) (\<lambda>body.
      if forkName m slot = ''gloas'' then buildGloas X Z E m c b body requests parentRoot stateRoot proposer
      else
        (let deneb = (slot div cm_slotsPerEpoch m < fk_PragueEpoch (cm_forks m));
             message = \<lparr>bm_Slot = slot, bm_ProposerIndex = proposer, bm_ParentRoot = parentRoot, bm_StateRoot = stateRoot,
               bm_Body = Some (if deneb then denebBodyFromElectra body else body)\<rparr> in
         bindE (if deneb then z_DenebRoot Z message else z_ElectraRoot Z message) (\<lambda>objectRoot.
         bindE (consensus_sign Z m objectRoot [0, 0, 0, 0] proposer slot) (\<lambda>sig.
         let signed = \<lparr>sk_Message = Some message, sk_Signature = sig\<rparr> in
         Inr (if deneb then zeroConsensusBlock\<lparr>cb_deneb := Some signed\<rparr>
              else zeroConsensusBlock\<lparr>cb_electra := Some signed\<rparr>))))))"

section \<open>Stored projections\<close>

definition projectionFormat :: int where
  "projectionFormat = 2"

definition decodeProjection :: "('x, 'y) codecs_scheme \<Rightarrow> hash \<Rightarrow> storedProjection \<Rightarrow> error + consensusBlock" where
  "decodeProjection Z hash r =
     (if pj_Fork r = ''gloas'' then
        bindE (z_UnmarshalGloas Z (pj_SignedSSZ r)) (\<lambda>g.
        if pj_EnvelopeSSZ r = [] then Inl (Err ''gloas envelope is missing'') else
        bindE (z_UnmarshalEnvelope Z (pj_EnvelopeSSZ r)) (\<lambda>e.
        let b = zeroConsensusBlock\<lparr>cb_gloas := Some g, cb_envelope := Some e\<rparr> in
        bindE (validateGloasStructure b) (\<lambda>_. Inr b)))
      else if pj_Fork r = ''deneb'' then
        bindE (wrapE ''decode Deneb projection %s: %w'' (z_UnmarshalDeneb Z (pj_SignedSSZ r))) (\<lambda>s.
        if signedPayload (Some s) = None
        then Inl (Errf ''deneb projection %s is structurally incomplete'' [ArgN (unat hash)])
        else Inr (zeroConsensusBlock\<lparr>cb_deneb := Some s\<rparr>))
      else if pj_Fork r = ''electra'' \<or> pj_Fork r = ''fulu'' then
        bindE (wrapE ''decode %s projection %s: %w'' (z_UnmarshalElectra Z (pj_SignedSSZ r))) (\<lambda>s.
        if signedPayload (Some s) = None
        then Inl (Errf ''%s projection %s is structurally incomplete'' [ArgS (pj_Fork r), ArgN (unat hash)])
        else Inr (zeroConsensusBlock\<lparr>cb_electra := Some s\<rparr>))
      else Inl (Errf ''unsupported Beacon projection fork %q'' [ArgS (pj_Fork r)]))"

definition loadProjection ::
  "('x, 'y) codecs_scheme \<Rightarrow> env \<Rightarrow> ('x, 's) executionChain \<Rightarrow> hash \<Rightarrow> error + (consensusBlock \<times> storedProjection) option" where
  "loadProjection Z E c hash =
     bindE (dbGet E (ch_db c) (KProjection hash)) (\<lambda>found.
     case found of
       None \<Rightarrow> Inr None
     | Some (Val (VProjection r)) \<Rightarrow>
         if pj_Format r \<noteq> projectionFormat
         then Inl (Errf ''unsupported Beacon projection format %d'' [ArgN (nat (pj_Format r))]) else
         bindE (decodeProjection Z hash r) (\<lambda>b.
         bindE (messageRoot Z b) (\<lambda>root.
         bindE (consensusBlock_slot b) (\<lambda>slot.
         bindE (consensusBlock_parentRoot b) (\<lambda>parent.
         if root \<noteq> pj_Root r \<or> slot \<noteq> pj_Slot r \<or> parent \<noteq> pj_ParentRoot r
         then Inl (Err ''stored Beacon projection metadata does not match SSZ object'')
         else Inr (Some (b, r))))))
     | Some _ \<Rightarrow> Inl (Errf ''decode Beacon projection %s: %w'' [ArgN (unat hash)]))"

text \<open>
  \<open>signedBlockLocked\<close>: the cache, the store, or a new block on the projection of the execution
  parent. The recursion goes down the chain; the fuel is one more than the number of the block.
\<close>

fun signedBlockLocked ::
  "('x, 's, 'w) execution_scheme \<Rightarrow> ('x, 'y) codecs_scheme \<Rightarrow> env \<Rightarrow> nat \<Rightarrow> ('x, 's) executionChain \<Rightarrow> block
   \<Rightarrow> executionRequests option \<Rightarrow> (consensusModel, consensusBlock) act" where
  "signedBlockLocked X Z E 0 c b requests = throwA (Panic ''stack overflow'')"
| "signedBlockLocked X Z E (Suc fuel) c b requests =
     bindA getA (\<lambda>m.
     case map_of (cm_blocks m) (b_Hash b) of
       Some existing \<Rightarrow> returnA existing
     | None \<Rightarrow>
         bindA (liftA (loadProjection Z E c (b_Hash b))) (\<lambda>stored.
         case stored of
           Some (s, _) \<Rightarrow> bindA (modifyA (cm_blocks_update (AList.update (b_Hash b) s))) (\<lambda>_. returnA s)
         | None \<Rightarrow>
             if b_Number b \<noteq> 0 \<and> x_GetBlockByHash X (ch_blockchain c) (b_Hash b) \<noteq> None
             then throwA (Errf ''beacon projection for published block %s is missing'' [ArgN (unat (b_Hash b))])
             else
               bindA (if b_Number b \<noteq> 0 then
                        (case x_GetBlockByHash X (ch_blockchain c) (b_ParentHash b) of
                           None \<Rightarrow> throwA (Errf ''execution parent %s not found'' [ArgN (unat (b_ParentHash b))])
                         | Some parent \<Rightarrow>
                             bindA (signedBlockLocked X Z E fuel c parent None) (\<lambda>parentSigned.
                             liftA (messageRoot Z parentSigned)))
                      else returnA 0) (\<lambda>parentRoot.
               bindA getA (\<lambda>m.
               bindA (liftA (buildSigned X Z E m c b requests parentRoot)) (\<lambda>signed.
               bindA (modifyA (cm_blocks_update (AList.update (b_Hash b) signed))) (\<lambda>_.
               returnA signed))))))"

definition signedBlockWithRequests ::
  "('x, 's, 'w) execution_scheme \<Rightarrow> ('x, 'y) codecs_scheme \<Rightarrow> env \<Rightarrow> ('x, 's) executionChain \<Rightarrow> block
   \<Rightarrow> executionRequests option \<Rightarrow> (consensusModel, consensusBlock) act" where
  "signedBlockWithRequests X Z E c b requests = signedBlockLocked X Z E (unat (b_Number b) + 1) c b requests"

definition projectionRecord ::
  "('x, 's, 'w) execution_scheme \<Rightarrow> ('x, 'y) codecs_scheme \<Rightarrow> env \<Rightarrow> ('x, 's) executionChain \<Rightarrow> block
   \<Rightarrow> executionRequests option \<Rightarrow> (consensusModel, storedProjection) act" where
  "projectionRecord X Z E c b requests =
     bindA (signedBlockWithRequests X Z E c b requests) (\<lambda>signed.
     bindA (liftA (messageRoot Z signed)) (\<lambda>root.
     bindA (liftA (marshalSSZ Z signed)) (\<lambda>ssz.
     bindA (liftA (consensusBlock_parentRoot signed)) (\<lambda>parent.
     bindA getA (\<lambda>m.
     bindA (liftA (case cb_envelope signed of None \<Rightarrow> Inr [] | Some e \<Rightarrow> z_MarshalEnvelope Z e)) (\<lambda>envelope.
     returnA \<lparr>pj_Format = projectionFormat, pj_Fork = forkName m (slotOf c b), pj_Slot = slotOf c b, pj_Root = root,
       pj_ParentRoot = parent, pj_EnvelopeSSZ = envelope, pj_SignedSSZ = ssz\<rparr>))))))"

definition ensureProjection ::
  "('x, 's, 'w) execution_scheme \<Rightarrow> ('x, 'y) codecs_scheme \<Rightarrow> env \<Rightarrow> block
   \<Rightarrow> (('x, 's) executionChain \<times> consensusModel, storedProjection) act" where
  "ensureProjection X Z E b = (\<lambda>(c, m).
     case loadProjection Z E c (b_Hash b) of
       Inl e \<Rightarrow> (Inl e, (c, m))
     | Inr (Some (_, r)) \<Rightarrow> (Inr r, (c, m))
     | Inr None \<Rightarrow>
         if b_Number b \<noteq> 0
         then (Inl (Errf ''beacon projection for published block %s is missing'' [ArgN (unat (b_Hash b))]), (c, m))
         else
           (case projectionRecord X Z E c b None m of
              (Inl e, m) \<Rightarrow> (Inl e, (c, m))
            | (Inr r, m) \<Rightarrow>
                (case e_write E WriteProjection of
                   Some e \<Rightarrow> (Inl e, (c, m))
                 | None \<Rightarrow> (Inr r, (c\<lparr>ch_db := writeBatch [BPut (KProjection (b_Hash b)) (Val (VProjection r))] (ch_db c)\<rparr>, m)))))"

definition projectionPut ::
  "('x, 's, 'w) execution_scheme \<Rightarrow> ('x, 'y) codecs_scheme \<Rightarrow> env \<Rightarrow> ('x, 's) executionChain \<Rightarrow> block
   \<Rightarrow> executionRequests option \<Rightarrow> (consensusModel, journalKV) act" where
  "projectionPut X Z E c b requests =
     bindA (projectionRecord X Z E c b requests) (\<lambda>r.
     case map_of (ch_beaconBlockByRoot c) (pj_Root r) of
       Some previous \<Rightarrow>
         if previous \<noteq> b_Hash b
         then throwA (Errf ''beacon root %s already belongs to execution block %s'' [ArgN (unat (pj_Root r)), ArgN (unat previous)])
         else returnA \<lparr>kv_Key = KProjection (b_Hash b), kv_Value = VProjection r\<rparr>
     | None \<Rightarrow> returnA \<lparr>kv_Key = KProjection (b_Hash b), kv_Value = VProjection r\<rparr>)"

definition applyProjectionIndex :: "hash \<Rightarrow> journalKV \<Rightarrow> ('x, 's) executionChain \<Rightarrow> ('x, 's) executionChain" where
  "applyProjectionIndex execHash mutation c =
     (case kv_Value mutation of
        VProjection r \<Rightarrow> c\<lparr>ch_beaconBlockByRoot := AList.update (pj_Root r) execHash (ch_beaconBlockByRoot c)\<rparr>
      | _ \<Rightarrow> c)"

section \<open>Checking a projection\<close>

definition validateGloas ::
  "('x, 's, 'w) execution_scheme \<Rightarrow> ('x, 'y) codecs_scheme \<Rightarrow> env \<Rightarrow> consensusModel \<Rightarrow> ('x, 's) executionChain \<Rightarrow> block
   \<Rightarrow> consensusBlock \<Rightarrow> BeaconBlockBody \<Rightarrow> executionRequests option \<Rightarrow> hash \<Rightarrow> u64 \<Rightarrow> error + unit" where
  "validateGloas X Z E m c b projection body requests stateRoot proposer =
     bindE (validateGloasStructure projection) (\<lambda>_.
     bindE (consensusBlock_parentRoot projection) (\<lambda>parent.
     bindE (buildGloas X Z E m c b body requests parent stateRoot proposer) (\<lambda>expected.
     bindE (bindE (deref (cb_gloas expected)) (z_MarshalGloas Z)) (\<lambda>want.
     bindE (bindE (deref (cb_gloas projection)) (z_MarshalGloas Z)) (\<lambda>got.
     if want \<noteq> got then Inl (Err ''gloas block does not match its execution block'') else
     bindE (bindE (deref (cb_envelope expected)) (z_MarshalEnvelope Z)) (\<lambda>want.
     bindE (bindE (deref (cb_envelope projection)) (z_MarshalEnvelope Z)) (\<lambda>got.
     if want \<noteq> got then Inl (Err ''gloas envelope does not match its execution block'') else Inr ())))))))"

definition projectionRequests ::
  "env \<Rightarrow> ('x, 's) executionChain \<Rightarrow> block \<Rightarrow> error + executionRequests option" where
  "projectionRequests E c b =
     (if b_Number b \<noteq> 0 then
        bindE (loadExecutionRequestRecord E c (b_Hash b)) (\<lambda>found.
        case found of
          None \<Rightarrow> Inl (Err ''beacon projection has no execution request record'')
        | Some r \<Rightarrow> parseExecutionRequests (er_Requests r))
      else Inr None)"

definition validateProjectionObject ::
  "('x, 's, 'w) execution_scheme \<Rightarrow> ('x, 'y) codecs_scheme \<Rightarrow> env \<Rightarrow> consensusModel \<Rightarrow> ('x, 's) executionChain \<Rightarrow> block
   \<Rightarrow> consensusBlock \<Rightarrow> error + unit" where
  "validateProjectionObject X Z E m c b projection =
     bindE (projectionRequests E c b) (\<lambda>requests.
     let slot = slotOf c b; stateRoot = syntheticStateRoot b slot; proposer = syntheticProposer m slot in
     bindE (consensus_body X Z m c b slot requests) (\<lambda>expectedBody.
     if cb_gloas projection \<noteq> None
     then validateGloas X Z E m c b projection expectedBody requests stateRoot proposer
     else
       bindE (if cb_deneb projection \<noteq> None then
                bindE (z_DenebBodyRoot Z (denebBodyFromElectra expectedBody)) (\<lambda>expectedBodyRoot.
                bindE (beaconMessage projection) (\<lambda>message.
                bindE (bindE (deref (bm_Body message)) (z_DenebBodyRoot Z)) (\<lambda>actualBodyRoot.
                if expectedBodyRoot \<noteq> actualBodyRoot \<or> bm_Slot message \<noteq> slot \<or> bm_ProposerIndex message \<noteq> proposer
                   \<or> bm_StateRoot message \<noteq> stateRoot
                then Inl (Err ''deneb projection does not match its execution block'')
                else bindE (z_DenebRoot Z message) (\<lambda>root. Inr (root, sk_Signature (the (cb_deneb projection)))))))
              else
                bindE (z_ElectraBodyRoot Z expectedBody) (\<lambda>expectedBodyRoot.
                bindE (beaconMessage projection) (\<lambda>message.
                bindE (bindE (deref (bm_Body message)) (z_ElectraBodyRoot Z)) (\<lambda>actualBodyRoot.
                if expectedBodyRoot \<noteq> actualBodyRoot \<or> bm_Slot message \<noteq> slot \<or> bm_ProposerIndex message \<noteq> proposer
                   \<or> bm_StateRoot message \<noteq> stateRoot
                then Inl (Err ''electra/fulu projection does not match its execution block'')
                else bindE (z_ElectraRoot Z message) (\<lambda>root. Inr (root, sk_Signature (the (cb_electra projection)))))))) (\<lambda>(objectRoot, sig).
       bindE (consensus_sign Z m objectRoot [0, 0, 0, 0] proposer slot) (\<lambda>expectedSig.
       if sig \<noteq> expectedSig then Inl (Err ''beacon projection has an invalid synthetic proposer signature'') else Inr ()))))"

definition expectedFork :: "('x, 's, 'w) execution_scheme \<Rightarrow> ('x, 's) executionChain \<Rightarrow> block \<Rightarrow> string" where
  "expectedFork X c b =
     (if c_IsAmsterdam X (ch_config c) (b_Number b) (b_Time b) then ''gloas''
      else if c_IsOsaka X (ch_config c) (b_Number b) (b_Time b) then ''fulu''
      else if c_IsPrague X (ch_config c) (b_Number b) (b_Time b) then ''electra'' else ''deneb'')"

text \<open>The first loop of \<open>initializeBeaconRootIndex\<close>: one block's projection against its execution block.\<close>

definition indexProjection ::
  "('x, 's, 'w) execution_scheme \<Rightarrow> ('x, 'y) codecs_scheme \<Rightarrow> env \<Rightarrow> consensusModel \<Rightarrow> ('x, 's) executionChain
   \<Rightarrow> (hash \<times> hash) list \<times> (hash \<times> storedProjection) list \<Rightarrow> hash
   \<Rightarrow> error + (hash \<times> hash) list \<times> (hash \<times> storedProjection) list" where
  "indexProjection X Z E m c = (\<lambda>(index, records) hash.
     bindE (loadProjection Z E c hash) (\<lambda>found.
     case found of
       None \<Rightarrow> Inl (Errf ''execution block %s has no Beacon projection'' [ArgN (unat hash)])
     | Some (consensusBlock, projection) \<Rightarrow>
         (case x_GetBlockByHash X (ch_blockchain c) hash of
            None \<Rightarrow> Inl (Errf ''beacon projection %s has no execution block'' [ArgN (unat hash)])
          | Some b \<Rightarrow>
              if pj_Slot projection \<noteq> slotOf c b
              then Inl (Errf ''beacon projection %s has slot %d, want %d'' [ArgN (unat hash), ArgN (unat (pj_Slot projection)), ArgN (unat (slotOf c b))])
              else if pj_Fork projection \<noteq> expectedFork X c b
              then Inl (Errf ''beacon projection %s uses fork %q, want %q'' [ArgN (unat hash), ArgS (pj_Fork projection), ArgS (expectedFork X c b)])
              else if executionHash consensusBlock \<noteq> Inr hash
              then Inl (Errf ''beacon projection %s execution payload is inconsistent'' [ArgN (unat hash)])
              else
                bindE (wrapE ''validate Beacon projection %s: %w'' (validateProjectionObject X Z E m c b consensusBlock)) (\<lambda>_.
                case map_of index (pj_Root projection) of
                  Some previous \<Rightarrow>
                    if previous \<noteq> hash
                    then Inl (Errf ''beacon root %s maps to both %s and %s'' [ArgN (unat (pj_Root projection)), ArgN (unat previous), ArgN (unat hash)])
                    else Inr (AList.update (pj_Root projection) hash index, AList.update hash projection records)
                | None \<Rightarrow> Inr (AList.update (pj_Root projection) hash index, AList.update hash projection records)))))"

text \<open>The second loop: every projection names the Beacon root of its execution parent.\<close>

definition linkProjection ::
  "('x, 's, 'w) execution_scheme \<Rightarrow> ('x, 's) executionChain \<Rightarrow> (hash \<times> storedProjection) list \<Rightarrow> hash \<times> storedProjection
   \<Rightarrow> error + unit" where
  "linkProjection X c records = (\<lambda>(hash, projection).
     bindE (deref (x_GetBlockByHash X (ch_blockchain c) hash)) (\<lambda>b.
     if b_Number b = 0 then
       if pj_ParentRoot projection \<noteq> 0 then Inl (Err ''genesis Beacon projection has a nonzero parent root'') else Inr ()
     else case map_of records (b_ParentHash b) of
       None \<Rightarrow> Inl (Errf ''beacon projection %s does not reference its execution parent's Beacon root'' [ArgN (unat hash)])
     | Some parent \<Rightarrow>
         if pj_ParentRoot projection \<noteq> pj_Root parent
         then Inl (Errf ''beacon projection %s does not reference its execution parent's Beacon root'' [ArgN (unat hash)])
         else Inr ()))"

definition initializeBeaconRootIndex ::
  "('x, 's, 'w) execution_scheme \<Rightarrow> ('x, 'y) codecs_scheme \<Rightarrow> env \<Rightarrow> consensusModel \<Rightarrow> ('x, 's) executionChain
   \<Rightarrow> error + ('x, 's) executionChain" where
  "initializeBeaconRootIndex X Z E m c =
     bindE (foldE (indexProjection X Z E m c) ([], []) (map fst (ch_slotByHash c))) (\<lambda>(index, records).
     bindE (foldE (\<lambda>_. linkProjection X c records) () records) (\<lambda>_.
     Inr (c\<lparr>ch_beaconBlockByRoot := index\<rparr>)))"

section \<open>Validators\<close>

text \<open>\<open>%d\<close> and \<open>strconv.FormatUint(n, 10)\<close>.\<close>

fun decimal :: "nat \<Rightarrow> string" where
  "decimal n = (if n < 10 then [char_of (n + 48)] else decimal (n div 10) @ [char_of (n mod 10 + 48)])"

declare decimal.simps [simp del]

record validator =
  va_key :: hash
  va_pubkey :: bytes
  va_credentials :: hash
  va_root :: hash

definition newValidator :: "('x, 'y) codecs_scheme \<Rightarrow> address list \<Rightarrow> nat \<Rightarrow> error + validator" where
  "newValidator Z executionAddresses index =
     bindE (z_Deserialize Z (Sum256 (str_bytes (''ethertest-validator-'' @ decimal index)))) (\<lambda>key.
     bindE (z_SkToPk Z key) (\<lambda>pubkey.
     if executionAddresses = [] then Inl (Panic ''integer divide by zero'') else
     let credentials = be_word (1 # replicate 11 0 @ arr_bytes (executionAddresses ! (index mod length executionAddresses))) in
     bindE (validatorRoot pubkey credentials 32000000000) (\<lambda>root.
     Inr \<lparr>va_key = key, va_pubkey = pubkey, va_credentials = credentials, va_root = root\<rparr>)))"

definition validatorRegistryLimitDepth :: nat where
  "validatorRegistryLimitDepth = 40"

definition newConsensusModel :: "('x, 'y) codecs_scheme \<Rightarrow> Config \<Rightarrow> address list \<Rightarrow> error + consensusModel" where
  "newConsensusModel Z cfg executionAddresses =
     bindE (mapE (newValidator Z executionAddresses) [0..<unat (cg_Validators (cf_Chain cfg))]) (\<lambda>validators.
     bindE (merkleizeList (map va_root validators) validatorRegistryLimitDepth) (\<lambda>root.
     Inr \<lparr>cm_keys = map va_key validators, cm_pubkeys = map va_pubkey validators,
       cm_withdrawalCredentials = map va_credentials validators, cm_genesisValidatorsRoot = root, cm_blocks = [],
       cm_forks = cg_Forks (cf_Chain cfg), cm_slotsPerEpoch = cg_SlotsPerEpoch (cf_Chain cfg)\<rparr>))"

section \<open>Inclusion proofs of blob commitments\<close>

definition commitmentRoots :: "pubkey list \<Rightarrow> hash list" where
  "commitmentRoots found = map (\<lambda>commitment. case pubkeyChunks (arr_bytes commitment) of (left, right) \<Rightarrow> hashPair left right) found"

definition randaoRoot :: "signature \<Rightarrow> error + hash" where
  "randaoRoot reveal = merkleizeFixed (map (\<lambda>i. be_word (slice (i * 32) ((i + 1) * 32) (arr_bytes reveal))) [0..<3] @ [0])"

text \<open>The sixteen leaves of the body of an Electra and of a Deneb block.\<close>

definition electraLeaves :: "('x, 'y) codecs_scheme \<Rightarrow> BeaconBlockBody \<Rightarrow> error + hash list" where
  "electraLeaves Z body =
     bindE (randaoRoot (bd_RANDAOReveal body)) (\<lambda>randao.
     bindE (z_ETH1Root Z (bd_ETH1Data body)) (\<lambda>eth1.
     bindE (z_SyncRoot Z (bd_SyncAggregate body)) (\<lambda>sync.
     bindE (z_PayloadRoot Z (bd_ExecutionPayload body)) (\<lambda>payload.
     bindE (z_RequestsRoot Z (bd_ExecutionRequests body)) (\<lambda>requests.
     bindE (merkleizeList (commitmentRoots (bd_BlobKZGCommitments body)) 12) (\<lambda>commitmentsRoot.
     Inr [randao, eth1, bd_Graffiti body, emptyListRoot 16, emptyListRoot 1, emptyListRoot 8, emptyListRoot 16, emptyListRoot 16,
       sync, payload, emptyListRoot 16, commitmentsRoot, requests, 0, 0, 0]))))))"

definition denebLeaves :: "('x, 'y) codecs_scheme \<Rightarrow> BeaconBlockBody \<Rightarrow> error + hash list" where
  "denebLeaves Z body =
     bindE (randaoRoot (bd_RANDAOReveal body)) (\<lambda>randao.
     bindE (z_ETH1Root Z (bd_ETH1Data body)) (\<lambda>eth1.
     bindE (z_SyncRoot Z (bd_SyncAggregate body)) (\<lambda>sync.
     bindE (z_PayloadRoot Z (bd_ExecutionPayload body)) (\<lambda>payload.
     bindE (merkleizeList (commitmentRoots (bd_BlobKZGCommitments body)) 12) (\<lambda>commitmentsRoot.
     Inr [randao, eth1, bd_Graffiti body, emptyListRoot 16, emptyListRoot 2, emptyListRoot 128, emptyListRoot 16, emptyListRoot 16,
       sync, payload, emptyListRoot 16, commitmentsRoot, 0, 0, 0, 0])))))"

definition denebKZGCommitmentsInclusionProof :: "('x, 'y) codecs_scheme \<Rightarrow> BeaconBlockBody \<Rightarrow> error + hash list" where
  "denebKZGCommitmentsInclusionProof Z body =
     bindE (denebLeaves Z body) (\<lambda>leaves.
     bindE (merkleizeFixed leaves) (\<lambda>bodyRoot.
     bindE (z_DenebBodyRoot Z body) (\<lambda>want.
     if bodyRoot \<noteq> want then Inl (Err ''internal Deneb body proof tree does not match SSZ root'')
     else Inr (siblings 4 11 leaves))))"

definition kzgCommitmentsInclusionProof ::
  "('x, 's, 'w) execution_scheme \<Rightarrow> ('x, 'y) codecs_scheme \<Rightarrow> env \<Rightarrow> ('x, 's) executionChain \<Rightarrow> block
   \<Rightarrow> (consensusModel, hash list) act" where
  "kzgCommitmentsInclusionProof X Z E c b =
     bindA (signedBlockWithRequests X Z E c b None) (\<lambda>signed.
     bindA (liftA (beaconMessage signed)) (\<lambda>message.
     bindA (liftA (deref (bm_Body message))) (\<lambda>body.
     if cb_deneb signed \<noteq> None then liftA (denebKZGCommitmentsInclusionProof Z body)
     else liftA (
       bindE (electraLeaves Z body) (\<lambda>leaves.
       bindE (merkleizeFixed leaves) (\<lambda>bodyRoot.
       bindE (z_ElectraBodyRoot Z body) (\<lambda>want.
       if bodyRoot \<noteq> want then Inl (Err ''internal body proof tree does not match SSZ root'')
       else Inr (siblings 4 11 leaves))))))))"

definition blobCommitmentInclusionProof ::
  "('x, 's, 'w) execution_scheme \<Rightarrow> ('x, 'y) codecs_scheme \<Rightarrow> env \<Rightarrow> ('x, 's) executionChain \<Rightarrow> block \<Rightarrow> u64
   \<Rightarrow> (consensusModel, hash list) act" where
  "blobCommitmentInclusionProof X Z E c b commitmentIndex =
     bindA (signedBlockWithRequests X Z E c b None) (\<lambda>signed.
     bindA (liftA (commitments signed)) (\<lambda>found.
     if commitmentIndex \<ge> of_nat (length found)
     then throwA (Errf ''blob commitment index %d is out of range'' [ArgN (unat commitmentIndex)])
     else if length found > 2 ^ 12 then throwA (Panic ''index out of range'')
     else
       (let nodes = commitmentRoots found @ replicate (2 ^ 12 - length found) 0;
            path = siblings 12 (unat commitmentIndex) nodes @ [uintChunk (of_nat (length found))] in
        bindA (kzgCommitmentsInclusionProof X Z E c b) (\<lambda>bodyProof.
        returnA (path @ bodyProof)))))"

section \<open>The cache\<close>

lemma signedBlock_cached:
  "signedBlockLocked X Z E fuel c b requests m = (Inr sealed, m') \<Longrightarrow> map_of (cm_blocks m') (b_Hash b) = Some sealed"
  by (cases fuel)
     (auto simp: bindA_Inr act_run update_conv split: option.splits if_splits)

text \<open>A Gloas block is nothing else; the cache only ever holds such blocks.\<close>

definition oneFork :: "consensusBlock \<Rightarrow> bool" where
  "oneFork b \<longleftrightarrow> cb_gloas b \<noteq> None \<longrightarrow> cb_deneb b = None \<and> cb_electra b = None"

definition cacheOK :: "consensusModel \<Rightarrow> bool" where
  "cacheOK m \<longleftrightarrow> (\<forall>b \<in> snd ` set (cm_blocks m). oneFork b)"

lemma buildSigned_oneFork: "buildSigned X Z E m c b requests parent = Inr sealed \<Longrightarrow> oneFork sealed"
  by (auto simp: buildSigned_def buildGloas_def Let_def err_simps oneFork_def zeroConsensusBlock_def split: if_splits)

lemma loadProjection_Some:
  "loadProjection Z E c h = Inr (Some (sealed, r)) \<longleftrightarrow>
     e_read E (KProjection h) = None \<and> map_of (ch_db c) (KProjection h) = Some (Val (VProjection r))
     \<and> pj_Format r = projectionFormat \<and> decodeProjection Z h r = Inr sealed \<and> messageRoot Z sealed = Inr (pj_Root r)
     \<and> consensusBlock_slot sealed = Inr (pj_Slot r) \<and> consensusBlock_parentRoot sealed = Inr (pj_ParentRoot r)"
proof (cases "dbGet E (ch_db c) (KProjection h)")
  case (Inl e)
  then show ?thesis by (auto simp: loadProjection_def dbGet_def err_simps split: option.splits)
next
  case (Inr found)
  then have read: "e_read E (KProjection h) = None" "map_of (ch_db c) (KProjection h) = found"
    by (auto simp: dbGet_def split: option.splits)
  consider "found = None" | r' where "found = Some (Val (VProjection r'))"
    | v where "found = Some v" "\<And>r'. v \<noteq> Val (VProjection r')" by (cases found) auto
  then show ?thesis
  proof cases
    case 3
    then show ?thesis using Inr read by (cases v) (auto simp: loadProjection_def err_simps split: dbvalue.splits)
  qed (use Inr read in \<open>auto simp: loadProjection_def err_simps split: if_splits\<close>)
qed

lemma loadProjection_oneFork: "loadProjection Z E c h = Inr (Some (sealed, r)) \<Longrightarrow> oneFork sealed"
  by (auto simp: loadProjection_Some decodeProjection_def Let_def err_simps oneFork_def zeroConsensusBlock_def split: if_splits)

lemma set_update_subset: "set (AList.update k v al) \<subseteq> insert (k, v) (set al)"
  by (induction al) auto

lemma cacheOK_update: "cacheOK m \<Longrightarrow> oneFork s \<Longrightarrow> cacheOK (cm_blocks_update (AList.update h s) m)"
  using set_update_subset[of h s "cm_blocks m"] by (fastforce simp: cacheOK_def)

lemma signedBlock_oneFork:
  "signedBlockLocked X Z E fuel c b requests m = (Inr sealed, m') \<Longrightarrow> cacheOK m \<Longrightarrow> oneFork sealed"
  by (cases fuel)
     (auto simp: bindA_Inr act_run liftA_eq cacheOK_def split: option.splits if_splits
       dest!: map_of_SomeD intro: buildSigned_oneFork loadProjection_oneFork)

lemma signedBlock_cacheOK:
  "signedBlockLocked X Z E fuel c b requests m = (r, m') \<Longrightarrow> cacheOK m \<Longrightarrow> cacheOK m'"
proof (induction fuel arbitrary: b requests m m' r)
  case (Suc fuel)
  show ?case
  proof (cases "map_of (cm_blocks m) (b_Hash b)")
    case None
    show ?thesis
    proof (cases "loadProjection Z E c (b_Hash b)")
      case (Inl e)
      with None Suc.prems show ?thesis by (auto simp: bindA_def act_run)
    next
      case (Inr found)
      show ?thesis
      proof (cases found)
        case (Some x)
        with None Inr Suc.prems show ?thesis
          by (cases x) (auto simp: bindA_def act_run intro!: cacheOK_update loadProjection_oneFork)
      next
        case no: None
        then show ?thesis using None Inr Suc.prems Suc.IH
          by (auto simp: bindA_def act_run split: if_splits option.splits prod.splits sum.splits
              intro!: cacheOK_update buildSigned_oneFork[OF sym])
      qed
    qed
  qed (use Suc.prems in \<open>simp add: act_simps\<close>)
qed (simp add: act_run)

lemma signedBlock_hit:
  "map_of (cm_blocks m) (b_Hash b) = Some sealed \<Longrightarrow> fuel > 0 \<Longrightarrow> signedBlockLocked X Z E fuel c b requests m = (Inr sealed, m)"
  by (cases fuel) (simp_all add: act_simps)

text \<open>
  The lookup without recursion: a block is found in the cache or the store, or signed on a given parent root;
  a block of the execution chain is found or, for the genesis block only, signed on the zero root.
\<close>

definition foundBlock ::
  "('x, 'y) codecs_scheme \<Rightarrow> env \<Rightarrow> ('x, 's) executionChain \<Rightarrow> hash \<Rightarrow> (consensusModel, consensusBlock option) act" where
  "foundBlock Z E c h = bindA getA (\<lambda>m.
     case map_of (cm_blocks m) h of
       Some existing \<Rightarrow> returnA (Some existing)
     | None \<Rightarrow> bindA (liftA (loadProjection Z E c h)) (\<lambda>stored.
         case stored of
           None \<Rightarrow> returnA None
         | Some (s, _) \<Rightarrow> bindA (modifyA (cm_blocks_update (AList.update h s))) (\<lambda>_. returnA (Some s))))"

definition newlySigned ::
  "('x, 's, 'w) execution_scheme \<Rightarrow> ('x, 'y) codecs_scheme \<Rightarrow> env \<Rightarrow> ('x, 's) executionChain \<Rightarrow> block
   \<Rightarrow> executionRequests option \<Rightarrow> hash \<Rightarrow> (consensusModel, consensusBlock) act" where
  "newlySigned X Z E c b requests parentRoot = bindA getA (\<lambda>m.
     bindA (liftA (buildSigned X Z E m c b requests parentRoot)) (\<lambda>signed.
     bindA (modifyA (cm_blocks_update (AList.update (b_Hash b) signed))) (\<lambda>_. returnA signed)))"

definition publishedBlock ::
  "('x, 's, 'w) execution_scheme \<Rightarrow> ('x, 'y) codecs_scheme \<Rightarrow> env \<Rightarrow> ('x, 's) executionChain \<Rightarrow> block
   \<Rightarrow> (consensusModel, consensusBlock) act" where
  "publishedBlock X Z E c p = bindA (foundBlock Z E c (b_Hash p)) (\<lambda>found.
     case found of
       Some s \<Rightarrow> returnA s
     | None \<Rightarrow>
         if b_Number p \<noteq> 0
         then throwA (Errf ''beacon projection for published block %s is missing'' [ArgN (unat (b_Hash p))])
         else newlySigned X Z E c p None 0)"

definition signedBlockReference ::
  "('x, 's, 'w) execution_scheme \<Rightarrow> ('x, 'y) codecs_scheme \<Rightarrow> env \<Rightarrow> ('x, 's) executionChain \<Rightarrow> block
   \<Rightarrow> executionRequests option \<Rightarrow> (consensusModel, consensusBlock) act" where
  "signedBlockReference X Z E c b requests = bindA (foundBlock Z E c (b_Hash b)) (\<lambda>found.
     case found of
       Some s \<Rightarrow> returnA s
     | None \<Rightarrow>
         if b_Number b \<noteq> 0 \<and> x_GetBlockByHash X (ch_blockchain c) (b_Hash b) \<noteq> None
         then throwA (Errf ''beacon projection for published block %s is missing'' [ArgN (unat (b_Hash b))])
         else if b_Number b = 0 then newlySigned X Z E c b requests 0
         else
           (case x_GetBlockByHash X (ch_blockchain c) (b_ParentHash b) of
              None \<Rightarrow> throwA (Errf ''execution parent %s not found'' [ArgN (unat (b_ParentHash b))])
            | Some parent \<Rightarrow>
                bindA (publishedBlock X Z E c parent) (\<lambda>parentSigned.
                bindA (liftA (messageRoot Z parentSigned)) (newlySigned X Z E c b requests))))"

lemma signedBlockLocked_published:
  assumes "x_GetBlockByHash X (ch_blockchain c) (b_Hash p) \<noteq> None"
  shows "signedBlockLocked X Z E (Suc fuel) c p None = publishedBlock X Z E c p"
  using assms
  by (auto simp: publishedBlock_def foundBlock_def newlySigned_def fun_eq_iff bindA_def act_run split: option.splits sum.splits)

lemma signedBlockLocked_reference:
  assumes hashes: "\<And>h p. x_GetBlockByHash X (ch_blockchain c) h = Some p \<Longrightarrow> b_Hash p = h"
    and number: "b_Number b = 0 \<or> fuel \<ge> 1"
  shows "signedBlockLocked X Z E (Suc fuel) c b requests = signedBlockReference X Z E c b requests"
proof (cases "b_Number b = 0")
  case True
  then show ?thesis
    by (auto simp: signedBlockReference_def foundBlock_def newlySigned_def fun_eq_iff bindA_def act_run split: option.splits sum.splits)
next
  case False
  with number obtain k where k: "fuel = Suc k" by (cases fuel) auto
  show ?thesis
  proof (cases "x_GetBlockByHash X (ch_blockchain c) (b_ParentHash b)")
    case None
    show ?thesis using False unfolding k signedBlockLocked.simps(2) [of X Z E "Suc k"] None
      by (auto simp: signedBlockReference_def foundBlock_def newlySigned_def fun_eq_iff bindA_def act_run None
          simp del: signedBlockLocked.simps split: option.splits sum.splits)
  next
    case (Some p)
    then have "signedBlockLocked X Z E (Suc k) c p None = publishedBlock X Z E c p"
      using hashes by (intro signedBlockLocked_published) auto
    then show ?thesis using False unfolding k signedBlockLocked.simps(2) [of X Z E "Suc k"] Some
      by (auto simp: signedBlockReference_def foundBlock_def newlySigned_def fun_eq_iff bindA_def act_run Some
          simp del: signedBlockLocked.simps split: option.splits sum.splits prod.splits)
  qed
qed

text \<open>
  C14: The lookup of the Beacon block of an execution block never recurses further than to the parent, however
  long the chain is: a published parent without a projection is an error and is not rebuilt. With the fuel the
  model gives it, the number of the block, and with any fuel that reaches the parent, it is a reference without
  recursion and without fuel, so the code always returns: the block found in the cache or the store; an error
  for a published block that has none; a block signed on the zero root at genesis, and otherwise on the root of
  the parent's block, found the same way.
\<close>

theorem projection_recursion_bounded:
  assumes "\<And>h p. x_GetBlockByHash X (ch_blockchain c) h = Some p \<Longrightarrow> b_Hash p = h"
    and "b_Number b = 0 \<or> fuel \<ge> 1"
  shows "signedBlockLocked X Z E (Suc fuel) c b requests m = signedBlockReference X Z E c b requests m
    \<and> signedBlockWithRequests X Z E c b requests m = signedBlockReference X Z E c b requests m"
proof -
  have reference: "signedBlockLocked X Z E (Suc k) c b requests = signedBlockReference X Z E c b requests"
    if "b_Number b = 0 \<or> k \<ge> 1" for k
    by (rule signedBlockLocked_reference [OF _ that]) (rule assms(1))
  have "b_Number b = 0 \<or> unat (b_Number b) \<ge> 1" by (auto simp: Suc_le_eq unat_gt_0)
  then show ?thesis using reference [OF assms(2)] reference [of "unat (b_Number b)"]
    by (simp add: signedBlockWithRequests_def del: signedBlockLocked.simps)
qed

section \<open>Proofs of inclusion\<close>

lemma nth_commitmentNodes:
  "i < length found \<Longrightarrow> (commitmentRoots found @ replicate k 0) ! i = commitmentRoots found ! i"
  by (simp add: nth_append commitmentRoots_def)

lemma commitment_path:
  assumes len: "length found \<le> 2 ^ 12" "i < length found"
    and list: "merkleizeList (commitmentRoots found) 12 = Inr listRoot"
    and leaves: "length leaves = 16" "leaves ! 11 = listRoot" "merkleizeFixed leaves = Inr bodyRoot"
  shows "branchRoot (commitmentRoots found ! i) (i + 2 ^ 13 * 11)
      ((siblings 12 i (commitmentRoots found @ replicate (2 ^ 12 - length found) 0) @ [uintChunk (of_nat (length found))])
       @ siblings 4 11 leaves) = bodyRoot"
proof -
  let ?roots = "commitmentRoots found"
  let ?nodes = "?roots @ replicate (2 ^ 12 - length found) 0"
  have roots: "length ?roots = length found" by (simp add: commitmentRoots_def)
  have nodes: "length ?nodes = 2 ^ 12" using len roots by simp
  have "merkleizeFixed ?nodes = Inr (treeRoot 0 12 ?nodes)" by (rule merkleizeFixed_tree[OF nodes])
  also have "treeRoot 0 12 ?nodes = treeRoot 0 12 ?roots"
    using treeRoot_replicate[of ?roots 12 0] len roots by simp
  finally have "branchRoot (?roots ! i) i (siblings 12 i ?nodes) = treeRoot 0 12 ?roots"
    using branchRoot_siblings[OF nodes, of i] len by (simp add: nth_commitmentNodes)
  moreover have "(i + 2 ^ 13 * 11) mod 2 ^ length (siblings 12 i ?nodes) = i"
    using mod_mult_self2[of i "2 ^ 12" 22] len by simp
  ultimately have list_part: "branchRoot (?roots ! i) (i + 2 ^ 13 * 11) (siblings 12 i ?nodes) = treeRoot 0 12 ?roots"
    using branchRoot_mod[of "?roots ! i" "i + 2 ^ 13 * 11" "siblings 12 i ?nodes"] by simp
  have up: "(i + 2 ^ 13 * 11) div 2 ^ 12 = 22" using len by simp
  have "hashPair (treeRoot 0 12 ?roots) (uintChunk (of_nat (length found))) = listRoot"
    using merkleizeList_tree[of ?roots 12] list len roots by simp
  moreover have "branchRoot listRoot 11 (siblings 4 11 leaves) = bodyRoot"
    using branchRoot_siblings[of leaves 4 11] leaves by simp
  moreover have "branchRoot leaf I ((A @ [s]) @ B)
      = branchRoot (branchRoot (branchRoot leaf I A) (I div 2 ^ length A) [s]) (I div 2 ^ length A div 2) B" for leaf I A s B
    by (simp add: branchRoot_append div_mult2_eq mult.commute)
  ultimately show ?thesis by (simp only: list_part length_siblings up) simp
qed

lemma electraLeaves_parts:
  "electraLeaves Z body = Inr leaves \<Longrightarrow> length leaves = 16
   \<and> merkleizeList (commitmentRoots (bd_BlobKZGCommitments body)) 12 = Inr (leaves ! 11)"
  by (auto simp: electraLeaves_def err_simps)

lemma denebLeaves_parts:
  "denebLeaves Z body = Inr leaves \<Longrightarrow> length leaves = 16
   \<and> merkleizeList (commitmentRoots (bd_BlobKZGCommitments body)) 12 = Inr (leaves ! 11)"
  by (auto simp: denebLeaves_def err_simps)

text \<open>The root of the body of a Deneb or Electra block.\<close>

definition bodyRootOf :: "('x, 'y) codecs_scheme \<Rightarrow> consensusBlock \<Rightarrow> error + hash" where
  "bodyRootOf Z b = bindE (beaconMessage b) (\<lambda>message. bindE (deref (bm_Body message)) (\<lambda>body.
     if cb_deneb b \<noteq> None then z_DenebBodyRoot Z body else z_ElectraBodyRoot Z body))"

text \<open>
  C5: An inclusion proof for a blob commitment verifies. Whenever the proof for commitment
  \<open>i\<close> of a block is produced it has seventeen hashes, and hashing up from the commitment along
  the path of its generalised index (twelve levels of the list, the length, and leaf eleven of the
  body) gives exactly the SSZ root of the body of the block that is served.
\<close>

theorem blob_inclusion_proof_verifies:
  assumes cache: "cacheOK m"
    and run: "blobCommitmentInclusionProof X Z E c b i m = (Inr path, m')"
  shows "cacheOK m' \<and> (\<exists>sealed found root. signedBlockWithRequests X Z E c b None m = (Inr sealed, m') \<and> commitments sealed = Inr found
    \<and> unat i < length found \<and> bodyRootOf Z sealed = Inr root \<and> length path = 17
    \<and> branchRoot (commitmentRoots found ! unat i) (unat i + 2 ^ 13 * 11) path = root)"
proof -
  obtain sealed found bodyPath m1 where sealed: "signedBlockWithRequests X Z E c b None m = (Inr sealed, m1)"
    and found: "commitments sealed = Inr found"
    and range: "\<not> i \<ge> of_nat (length found)" "\<not> length found > 2 ^ 12"
    and kzg: "kzgCommitmentsInclusionProof X Z E c b m1 = (Inr bodyPath, m')"
    and path: "path = (siblings 12 (unat i) (commitmentRoots found @ replicate (2 ^ 12 - length found) 0)
        @ [uintChunk (of_nat (length found))]) @ bodyPath"
    using run by (auto simp: blobCommitmentInclusionProof_def act_inv act_run Let_def simp del: siblings.simps split: if_splits)
  have again: "signedBlockWithRequests X Z E c b None m1 = (Inr sealed, m1)"
    using signedBlock_cached[OF sealed[unfolded signedBlockWithRequests_def]]
    unfolding signedBlockWithRequests_def by (rule signedBlock_hit) simp
  obtain message body leaves root where body: "beaconMessage sealed = Inr message" "deref (bm_Body message) = Inr body"
    and same: "m' = m1" and bodyPath: "bodyPath = siblings 4 11 leaves"
    and leaves: "length leaves = 16" "merkleizeList (commitmentRoots (bd_BlobKZGCommitments body)) 12 = Inr (leaves ! 11)"
      "merkleizeFixed leaves = Inr root" "bodyRootOf Z sealed = Inr root"
  proof -
    obtain message body where body: "beaconMessage sealed = Inr message" "deref (bm_Body message) = Inr body"
      and rest: "(if cb_deneb sealed \<noteq> None then liftA (denebKZGCommitmentsInclusionProof Z body)
        else liftA (bindE (electraLeaves Z body) (\<lambda>leaves. bindE (merkleizeFixed leaves) (\<lambda>bodyRoot.
          bindE (z_ElectraBodyRoot Z body) (\<lambda>want.
          if bodyRoot \<noteq> want then Inl (Err ''internal body proof tree does not match SSZ root'')
          else Inr (siblings 4 11 leaves)))))) m1 = (Inr bodyPath, m')"
      using kzg unfolding kzgCommitmentsInclusionProof_def bindA_Inr again liftA_eq by auto
    show ?thesis
    proof (cases "cb_deneb sealed = None")
      case True
      with rest obtain leaves root where "electraLeaves Z body = Inr leaves" "merkleizeFixed leaves = Inr root"
        "z_ElectraBodyRoot Z body = Inr root" "bodyPath = siblings 4 11 leaves" "m' = m1"
        by (auto simp: liftA_eq err_simps simp del: siblings.simps split: if_splits)
      then show ?thesis using that[of message body leaves root] body electraLeaves_parts True
        by (auto simp: bodyRootOf_def err_simps simp del: siblings.simps)
    next
      case False
      with rest obtain leaves root where "denebLeaves Z body = Inr leaves" "merkleizeFixed leaves = Inr root"
        "z_DenebBodyRoot Z body = Inr root" "bodyPath = siblings 4 11 leaves" "m' = m1"
        by (auto simp: liftA_eq err_simps denebKZGCommitmentsInclusionProof_def simp del: siblings.simps split: if_splits)
      then show ?thesis using that[of message body leaves root] body denebLeaves_parts False
        by (auto simp: bodyRootOf_def err_simps simp del: siblings.simps)
    qed
  qed
  have same_commitments: "bd_BlobKZGCommitments body = found"
    using found body signedBlock_oneFork[OF sealed[unfolded signedBlockWithRequests_def] cache]
    by (auto simp: commitments_def beaconMessage_def deref_def oneFork_def err_simps split: option.splits)
  have small: "unat i < length found"
    using range by (simp add: not_le word_less_nat_alt unat_of_nat take_bit_nat_eq_self)
  have "branchRoot (commitmentRoots found ! unat i) (unat i + 2 ^ 13 * 11) path = root"
    unfolding path bodyPath
    using commitment_path[OF _ small leaves(2)[unfolded same_commitments] leaves(1) refl leaves(3)] range by simp
  moreover have "length path = 17" unfolding path bodyPath by simp
  ultimately show ?thesis
    using sealed found small leaves(4) same signedBlock_cacheOK[OF sealed[unfolded signedBlockWithRequests_def] cache] by blast
qed

section \<open>An instance\<close>

definition plainCodecs :: "memChain codecs" where
  "plainCodecs = \<lparr>z_MarshalTx = (\<lambda>t. Inr (arr_bytes (tx_Hash t))), z_EncodeAccessList = (\<lambda>_. Inr [0xc0]),
     z_ReadAccessList = (\<lambda>_ _ _. None), z_Keccak256 = (\<lambda>_. 0), z_ETH1Root = (\<lambda>_. Inr 1), z_SyncRoot = (\<lambda>_. Inr 2),
     z_PayloadRoot = (\<lambda>_. Inr 3), z_RequestsRoot = (\<lambda>_. Inr 4), z_DenebBodyRoot = (\<lambda>_. Inr 5),
     z_ElectraBodyRoot = (\<lambda>_. Inr 6), z_DenebRoot = (\<lambda>_. Inr 7), z_ElectraRoot = (\<lambda>_. Inr 8),
     z_GloasRequestsRoot = (\<lambda>_. Inr 9), z_GloasBodyRoot = (\<lambda>_. Inr 10), z_GloasRoot = (\<lambda>_. Inr 11), z_EnvelopeRoot = (\<lambda>_. Inr 12),
     z_MarshalDeneb = (\<lambda>_. Inl (Err ''size'')), z_MarshalElectra = (\<lambda>_. Inl (Err ''size'')),
     z_MarshalGloas = (\<lambda>_. Inl (Err ''size'')), z_MarshalEnvelope = (\<lambda>_. Inl (Err ''size'')),
     z_UnmarshalDeneb = (\<lambda>_. Inl (Err ''size'')), z_UnmarshalElectra = (\<lambda>_. Inl (Err ''size'')),
     z_UnmarshalGloas = (\<lambda>_. Inl (Err ''size'')), z_UnmarshalEnvelope = (\<lambda>_. Inl (Err ''size'')),
     z_ForkDataRoot = (\<lambda>_ _. Inr 13), z_SigningRoot = (\<lambda>_ _. Inr 14), z_Deserialize = Inr,
     z_SkToPk = (\<lambda>_. Inr (replicate 48 0)), z_Sign = (\<lambda>_ _. 15)\<rparr>"

text \<open>Codecs whose body root is the one of the container.\<close>

definition treeCodecs :: "memChain codecs" where
  "treeCodecs = plainCodecs\<lparr>z_ElectraBodyRoot := (\<lambda>body. bindE (electraLeaves plainCodecs body) merkleizeFixed)\<rparr>"

definition exampleBody :: BeaconBlockBody where
  "exampleBody = \<lparr>bd_RANDAOReveal = 15, bd_ETH1Data = \<lparr>e1_DepositRoot = 0, e1_DepositCount = 0, e1_BlockHash = []\<rparr>,
     bd_Graffiti = 0, bd_ProposerSlashings = [], bd_AttesterSlashings = [], bd_Attestations = [], bd_Deposits = [],
     bd_VoluntaryExits = [], bd_SyncAggregate = \<lparr>sa_SyncCommitteeBits = [], sa_SyncCommitteeSignature = 0\<rparr>,
     bd_ExecutionPayload = None, bd_BLSToExecutionChanges = [], bd_BlobKZGCommitments = [21, 22, 23],
     bd_ExecutionRequests = None\<rparr>"

definition exampleSealed :: consensusBlock where
  "exampleSealed = zeroConsensusBlock\<lparr>cb_electra := Some \<lparr>sk_Message = Some \<lparr>bm_Slot = 0, bm_ProposerIndex = 0,
     bm_ParentRoot = 0, bm_StateRoot = 0, bm_Body = Some exampleBody\<rparr>, sk_Signature = 15\<rparr>\<rparr>"

definition exampleModel :: consensusModel where
  "exampleModel = \<lparr>cm_keys = [1], cm_pubkeys = [replicate 48 0], cm_withdrawalCredentials = [0], cm_genesisValidatorsRoot = 0,
     cm_blocks = [], cm_forks = \<lparr>fk_AmsterdamEpoch = - 1, fk_CancunEpoch = 0, fk_PragueEpoch = 0, fk_OsakaEpoch = 0\<rparr>,
     cm_slotsPerEpoch = 8\<rparr>"

definition exampleChild :: block where
  "exampleChild = emptyBlock\<lparr>b_Hash := 101, b_Header := zeroHeader\<lparr>h_ParentHash := 100, h_Number := 1, h_Time := 1012\<rparr>\<rparr>"

theorem projection_recursion_bounded_witness:
  "\<exists>message. let m = exampleModel\<lparr>cm_blocks := [(100, exampleSealed)]\<rparr>;
       sealed = zeroConsensusBlock\<lparr>cb_electra := Some \<lparr>sk_Message = Some message, sk_Signature = 15\<rparr>\<rparr> in
     signedBlockLocked memExecution plainCodecs calm (Suc 9) exampleChain exampleChild (Some emptyRequests) m
       = signedBlockWithRequests memExecution plainCodecs calm exampleChain exampleChild (Some emptyRequests) m
     \<and> fst (signedBlockWithRequests memExecution plainCodecs calm exampleChain exampleChild (Some emptyRequests) m) = Inr sealed
     \<and> bm_Slot message = 1 \<and> bm_ParentRoot message = 8"
proof -
  let ?m = "exampleModel\<lparr>cm_blocks := [(100, exampleSealed)]\<rparr>"
  have hashes: "x_GetBlockByHash memExecution (ch_blockchain exampleChain) h = Some p \<Longrightarrow> b_Hash p = h" for h p
    by (auto simp: memExecution_def memBlock_def find_Some_iff)
  have child: "b_Hash exampleChild = 101" "b_Number exampleChild = 1" "b_ParentHash exampleChild = 100"
    "b_Transactions exampleChild = []" "h_BaseFee (b_Header exampleChild) = None"
    by (simp_all add: exampleChild_def emptyBlock_def zeroHeader_def)
  have stored: "x_GetBlockByHash memExecution (ch_blockchain exampleChain) 101 = None"
    "x_GetBlockByHash memExecution (ch_blockchain exampleChain) 100 = Some exampleGenesis"
    "b_Hash exampleGenesis = 100"
    by (simp_all add: memExecution_def memBlock_def exampleChain_def genesisChain_def exampleGenesis_def)
  have new: "foundBlock plainCodecs calm exampleChain 101 ?m = (Inr None, ?m)"
    by (simp add: foundBlock_def loadProjection_def exampleChain_def act_simps)
  have parent: "publishedBlock memExecution plainCodecs calm exampleChain exampleGenesis ?m = (Inr exampleSealed, ?m)"
    by (simp add: publishedBlock_def foundBlock_def stored act_simps)
  have root: "messageRoot plainCodecs exampleSealed = Inr 8"
    by (simp add: messageRoot_def exampleSealed_def zeroConsensusBlock_def beaconMessage_def deref_def plainCodecs_def)
  have slot: "slotOf exampleChain exampleChild = 1"
    by (simp add: slotOf_def exampleChain_def exampleChild_def)
  have sign: "consensus_sign plainCodecs ?m object domainType 0 1 = Inr 15" for object domainType
    by (simp add: consensus_sign_def consensus_domain_def plainCodecs_def exampleModel_def)
  have model: "forkName ?m 1 = ''fulu''" "syntheticProposer ?m 1 = 0" "fk_PragueEpoch (cm_forks exampleModel) = 0"
    by (simp_all add: forkName_def forkVersion_def exampleModel_def syntheticProposer_def)
  have "\<exists>body. consensus_body memExecution plainCodecs ?m exampleChain exampleChild 1 (Some emptyRequests) = Inr body"
    by (simp add: consensus_body_def child model sign cloneElectraExecutionRequests_def emptyRequests_def)
  then obtain body where body: "consensus_body memExecution plainCodecs ?m exampleChain exampleChild 1 (Some emptyRequests) = Inr body" ..
  let ?message = "\<lparr>bm_Slot = 1, bm_ProposerIndex = 0, bm_ParentRoot = 8, bm_StateRoot = syntheticStateRoot exampleChild 1, bm_Body = Some body\<rparr>"
  have "z_ElectraRoot plainCodecs ?message = Inr 8" by (simp add: plainCodecs_def)
  then have built: "buildSigned memExecution plainCodecs calm ?m exampleChain exampleChild (Some emptyRequests) 8
      = Inr (zeroConsensusBlock\<lparr>cb_electra := Some \<lparr>sk_Message = Some ?message, sk_Signature = 15\<rparr>\<rparr>)"
    by (simp add: buildSigned_def slot model body sign Let_def)
  have "fst (signedBlockReference memExecution plainCodecs calm exampleChain exampleChild (Some emptyRequests) ?m)
      = Inr (zeroConsensusBlock\<lparr>cb_electra := Some \<lparr>sk_Message = Some ?message, sk_Signature = 15\<rparr>\<rparr>)"
    using new parent root built by (simp add: signedBlockReference_def newlySigned_def child stored act_simps)
  then show ?thesis
    using projection_recursion_bounded [of memExecution exampleChain exampleChild 9 plainCodecs calm "Some emptyRequests" ?m, OF hashes]
    by (intro exI [of _ ?message]) (simp add: Let_def del: signedBlockLocked.simps)
qed

lemma electraLeaves_ok:
  "length (bd_BlobKZGCommitments body) \<le> 2 ^ 12 \<Longrightarrow> \<exists>leaves. electraLeaves plainCodecs body = Inr leaves \<and> length leaves = 16"
  using merkleizeFixed_tree[of "map (\<lambda>i. be_word (slice (i * 32) ((i + 1) * 32) (arr_bytes (bd_RANDAOReveal body)))) [0..<3] @ [0]" 2 0]
    merkleizeList_tree[of "commitmentRoots (bd_BlobKZGCommitments body)" 12]
  by (simp add: electraLeaves_def randaoRoot_def plainCodecs_def commitmentRoots_def)

lemma electraLeaves_tree:
  "electraLeaves treeCodecs body = electraLeaves plainCodecs body"
  "z_ElectraBodyRoot treeCodecs body = bindE (electraLeaves plainCodecs body) merkleizeFixed"
  by (simp_all add: electraLeaves_def treeCodecs_def)

theorem blob_inclusion_proof_verifies_witness:
  "\<exists>path m'. blobCommitmentInclusionProof memExecution treeCodecs calm exampleChain exampleGenesis 1
       (exampleModel\<lparr>cm_blocks := [(100, exampleSealed)]\<rparr>) = (Inr path, m')
     \<and> cacheOK (exampleModel\<lparr>cm_blocks := [(100, exampleSealed)]\<rparr>)
     \<and> (\<exists>sealed found root. commitments sealed = Inr found \<and> bodyRootOf treeCodecs sealed = Inr root \<and> length path = 17
          \<and> branchRoot (commitmentRoots found ! 1) (1 + 2 ^ 13 * 11) path = root)"
proof -
  let ?m = "exampleModel\<lparr>cm_blocks := [(100, exampleSealed)]\<rparr>"
  have cache: "cacheOK ?m" by (simp add: cacheOK_def oneFork_def exampleSealed_def zeroConsensusBlock_def)
  have hit: "signedBlockWithRequests memExecution treeCodecs calm exampleChain exampleGenesis None ?m = (Inr exampleSealed, ?m)"
    unfolding signedBlockWithRequests_def by (rule signedBlock_hit) (simp_all add: exampleGenesis_def)
  obtain leaves where leaves: "electraLeaves plainCodecs exampleBody = Inr leaves" "length leaves = 16"
    using electraLeaves_ok[of exampleBody] by (auto simp: exampleBody_def)
  then have root: "merkleizeFixed leaves = Inr (treeRoot 0 4 leaves)" by (simp add: merkleizeFixed_tree)
  have found: "commitments exampleSealed = Inr [21, 22, 23]" "beaconMessage exampleSealed = Inr \<lparr>bm_Slot = 0,
      bm_ProposerIndex = 0, bm_ParentRoot = 0, bm_StateRoot = 0, bm_Body = Some exampleBody\<rparr>" "cb_deneb exampleSealed = None"
    by (simp_all add: commitments_def beaconMessage_def deref_def exampleSealed_def zeroConsensusBlock_def exampleBody_def)
  have kzg: "kzgCommitmentsInclusionProof memExecution treeCodecs calm exampleChain exampleGenesis ?m
      = (Inr (siblings 4 11 leaves), ?m)"
    using hit found leaves root
    by (simp add: kzgCommitmentsInclusionProof_def bindA_run act_run deref_def electraLeaves_tree
        del: siblings.simps)
  have "\<exists>path. blobCommitmentInclusionProof memExecution treeCodecs calm exampleChain exampleGenesis 1 ?m = (Inr path, ?m)"
    using hit found kzg by (simp add: blobCommitmentInclusionProof_def bindA_run act_run Let_def word_le_nat_alt del: siblings.simps)
  then obtain path where run: "blobCommitmentInclusionProof memExecution treeCodecs calm exampleChain exampleGenesis 1 ?m
      = (Inr path, ?m)" by blast
  from blob_inclusion_proof_verifies[OF cache run] run cache show ?thesis by auto
qed

end
