(* ===== verification/Node.thy ===== *)
theory Node
  imports Safety Consensus
begin

text \<open>
  The node and its commits: the state of \<open>Node\<close> (\<open>src/node.go\<close>), the recovery journal and the two
  ways to commit (\<open>src/commit.go\<close>, \<open>src/state_metadata.go\<close>).

  \<^item> A command of the single writer is an action on the node.
  \<^item> Logging is left out.
\<close>

section \<open>State\<close>

record chainPoint =
  cp_hash :: hash
  cp_number :: u64
  cp_slot :: u64
  cp_tainted :: bool
  cp_used :: bool

record branch =
  br_name :: string
  br_base :: hash
  br_head :: hash
  br_tainted :: bool

record WithdrawalRequest =
  wr_ValidatorIndex :: u64
  wr_Address :: address
  wr_Amount :: u64

record ('x, 's) Node =
  nd_cfg :: Config
  nd_chain :: "('x, 's) executionChain"
  nd_consensus :: consensusModel
  nd_events :: eventLog
  nd_pendingEvents :: pendingHashLog
  nd_nextSnapshot :: u64
  nd_snapshots :: "(u64 \<times> chainPoint) list"
  nd_checkpoints :: "(string \<times> chainPoint) list"
  nd_branches :: "(string \<times> branch) list"
  nd_miningMode :: string
  nd_resumeMiningMode :: string
  nd_miningInterval :: int
  nd_miningEmpty :: bool
  nd_pendingWithdrawals :: "WithdrawalRequest list"
  nd_pendingExecutionRequests :: executionRequestQueue
  nd_writeErr :: "error option"

abbreviation onChain :: "(('x, 's) executionChain \<Rightarrow> ('x, 's) executionChain) \<Rightarrow> ('x, 's) Node \<Rightarrow> ('x, 's) Node" where
  "onChain f n \<equiv> n\<lparr>nd_chain := f (nd_chain n)\<rparr>"

abbreviation onDB :: "(database \<Rightarrow> database) \<Rightarrow> ('x, 's) executionChain \<Rightarrow> ('x, 's) executionChain" where
  "onDB f c \<equiv> c\<lparr>ch_db := f (ch_db c)\<rparr>"

abbreviation onBlockchain :: "('x \<Rightarrow> 'x) \<Rightarrow> ('x, 's) executionChain \<Rightarrow> ('x, 's) executionChain" where
  "onBlockchain f c \<equiv> c\<lparr>ch_blockchain := f (ch_blockchain c)\<rparr>"

section \<open>Mining mode and disabled writes\<close>

definition setMiningMode :: "string \<Rightarrow> ('x, 's) Node \<Rightarrow> ('x, 's) Node" where
  "setMiningMode mode n = (let n = n\<lparr>nd_miningMode := mode\<rparr> in
     if mode \<noteq> ''manual'' then n\<lparr>nd_resumeMiningMode := mode\<rparr> else n)"

definition disableWrites :: "error \<Rightarrow> ('x, 's) Node \<Rightarrow> ('x, 's) Node" where
  "disableWrites e n = setMiningMode ''manual''
     (if nd_writeErr n = None then n\<lparr>nd_writeErr := Some e\<rparr> else n)"

definition executeWrite :: "(('x, 's) Node, 'a) act \<Rightarrow> (('x, 's) Node, 'a) act" where
  "executeWrite fn n =
     (case nd_writeErr n of
        Some e \<Rightarrow> (Inl (Errf ''node writes are disabled after a persistence failure: %w'' [ArgE e]), n)
      | None \<Rightarrow> fn n)"

section \<open>The recovery journal\<close>

definition currentMetadataFormat :: int where
  "currentMetadataFormat = 3"

definition writePreparedOperation ::
  "env \<Rightarrow> preparedOperation \<Rightarrow> (('x, 's) executionChain, unit) act" where
  "writePreparedOperation E operation =
     bindA (failWith (e_write E WriteJournal)) (\<lambda>_.
     modifyA (onDB (writeBatch [BPut KJournal (JournalCell (operation\<lparr>op_Version := currentMetadataFormat\<rparr>))])))"

definition finalOps :: "preparedOperation \<Rightarrow> batchOp list" where
  "finalOps operation = putOps (op_ExecutionPuts operation) @ putOps (op_Puts operation)
     @ map BDelete (op_Deletes operation) @ [BDelete KJournal]"

definition finalizePreparedOperation ::
  "env \<Rightarrow> preparedOperation \<Rightarrow> (('x, 's) executionChain, unit) act" where
  "finalizePreparedOperation E operation =
     bindA (failWith (e_write E WriteFinal)) (\<lambda>_. modifyA (onDB (writeBatch (finalOps operation))))"

definition cancelPreparedOperation ::
  "env \<Rightarrow> preparedOperation \<Rightarrow> (('x, 's) executionChain, unit) act" where
  "cancelPreparedOperation E operation =
     bindA (failWith (e_write E WriteCancel)) (\<lambda>_.
     modifyA (onDB (writeBatch (map BDelete (op_RollbackDeletes operation) @ [BDelete KJournal]))))"

definition discardTarget :: "('x, 's, 'z) execution_scheme \<Rightarrow> hash \<Rightarrow> u64 \<Rightarrow> 'x \<Rightarrow> 'x" where
  "discardTarget X hash number x =
     (let lookups = (case x_GetBlock X x hash number of
            None \<Rightarrow> []
          | Some b \<Rightarrow> filter (\<lambda>t. x_ReadTxLookupEntry X x t = Some number) (map tx_Hash (b_Transactions b)));
          x' = fold (x_DeleteTxLookupEntry X) lookups x;
          x' = (if x_GetCanonicalHash X x number = hash then x_DeleteCanonicalHash X number x' else x')
      in x_DeleteBlock X hash number x')"

definition discardPreparedTarget ::
  "('x, 's, 'z) execution_scheme \<Rightarrow> env \<Rightarrow> hash \<Rightarrow> u64 \<Rightarrow> (('x, 's) executionChain, unit) act" where
  "discardPreparedTarget X E hash number =
     bindA (failWith (e_write E WriteDiscard)) (\<lambda>_. modifyA (onBlockchain (discardTarget X hash number)))"

definition recoverPreparedOperation ::
  "('x, 's, 'z) execution_scheme \<Rightarrow> env \<Rightarrow> (('x, 's) executionChain, unit) act" where
  "recoverPreparedOperation X E =
     bindA (catchA (\<lambda>_ c. c) (\<lambda>e. Errf ''check recovery journal: %w'' [ArgE e]) (failWith (e_read E KJournal))) (\<lambda>_.
     bindA getA (\<lambda>c.
     case map_of (ch_db c) KJournal of
       None \<Rightarrow> returnA ()
     | Some (Val _) \<Rightarrow> throwA (Err ''decode recovery journal'')
     | Some (JournalCell operation) \<Rightarrow>
         if op_Version operation \<noteq> currentMetadataFormat
         then throwA (Errf ''unsupported recovery journal version %d'' [ArgN (nat (op_Version operation))])
         else if op_Kind operation = ''head'' then
           (let head = fst (x_CurrentBlock X (ch_blockchain c)) in
            if head = op_NewHead operation then finalizePreparedOperation E operation
            else if head = op_OldHead operation then
              bindA (if op_DiscardTargetOnCancel operation
                     then discardPreparedTarget X E (op_NewHead operation) (op_TargetNumber operation)
                     else returnA ()) (\<lambda>_.
              cancelPreparedOperation E operation)
            else throwA (Err ''recovery journal head mismatch''))
         else if op_Kind operation = ''block'' then
           (if x_GetBlockByHash X (ch_blockchain c) (op_TargetBlock operation) \<noteq> None
            then finalizePreparedOperation E operation
            else
              bindA (if op_TargetBlock operation \<noteq> 0
                     then discardPreparedTarget X E (op_TargetBlock operation) (op_TargetNumber operation)
                     else returnA ()) (\<lambda>_.
              cancelPreparedOperation E operation))
         else throwA (Errf ''unsupported recovery journal kind %q'' [ArgS (op_Kind operation)])))"

section \<open>Commits\<close>

text \<open>Running a step of the chain within the node.\<close>

definition chainA :: "(('x, 's) executionChain, 'a) act \<Rightarrow> (('x, 's) Node, 'a) act" where
  "chainA m n = (case m (nd_chain n) of (r, c) \<Rightarrow> (r, n\<lparr>nd_chain := c\<rparr>))"

abbreviation wrapFmt :: "string \<Rightarrow> error \<Rightarrow> error" where
  "wrapFmt fmt e \<equiv> Errf fmt [ArgE e]"

definition commitPrepared ::
  "env \<Rightarrow> preparedOperation \<Rightarrow> Event list \<Rightarrow> (('x, 's) executionChain, unit) act
   \<Rightarrow> (('x, 's) Node \<Rightarrow> ('x, 's) Node) \<Rightarrow> (('x, 's) Node, unit) act" where
  "commitPrepared E operation events mutate apply =
     bindA getA (\<lambda>n.
     bindA (liftA (case nd_writeErr n of None \<Rightarrow> Inr ()
         | Some e \<Rightarrow> Inl (wrapFmt ''node writes are disabled after a persistence failure: %w'' e))) (\<lambda>_.
     bindA (catchA disableWrites id (failWith (e_read E KJournal))) (\<lambda>_.
     if map_of (ch_db (nd_chain n)) KJournal \<noteq> None then throwA (Err ''a prepared operation is already pending'') else
     bindA (liftA (eventLog_plan (nd_events n) events)) (\<lambda>plan.
     let operation = operation\<lparr>op_Puts := op_Puts operation @ pl_puts plan,
           op_Deletes := op_Deletes operation @ pl_deletes plan\<rparr> in
     bindA (catchA disableWrites id (chainA (writePreparedOperation E operation))) (\<lambda>_.
     bindA (catchA disableWrites (wrapFmt ''failure after recovery journal preparation: %w'')
       (failWith (e_commitHook E StagePrepared))) (\<lambda>_.
     bindA (catchA disableWrites (wrapFmt ''execution mutation failed with recovery journal retained: %w'')
       (chainA mutate)) (\<lambda>_.
     bindA (catchA disableWrites (wrapFmt ''failure after execution mutation: %w'')
       (failWith (e_commitHook E StageExecution))) (\<lambda>_.
     bindA (catchA disableWrites id (chainA (finalizePreparedOperation E operation))) (\<lambda>_.
     bindA (catchA disableWrites (wrapFmt ''failure after auxiliary commit: %w'')
       (failWith (e_commitHook E StageAuxiliary))) (\<lambda>_.
     modifyA (\<lambda>n. let n = apply n in n\<lparr>nd_events := eventLog_apply (nd_events n) plan\<rparr>)))))))))))"

definition executionPutsForJournal ::
  "env \<Rightarrow> database \<Rightarrow> journalKV list \<Rightarrow> error + journalKV list \<times> dbkey list" where
  "executionPutsForJournal E db puts =
     bindE (foldE (\<lambda>rollback item.
       case e_read E (kv_Key item) of
         Some e \<Rightarrow> Inl e
       | None \<Rightarrow> Inr (if map_of db (kv_Key item) = None then rollback @ [kv_Key item] else rollback)) [] puts) (\<lambda>rollback.
     Inr (puts, rollback))"

definition planExecutionPuts ::
  "env \<Rightarrow> journalKV list \<Rightarrow> (('x, 's) Node, journalKV list \<times> dbkey list) act" where
  "planExecutionPuts E puts =
     bindA getA (\<lambda>n. catchA disableWrites id (liftA (executionPutsForJournal E (ch_db (nd_chain n)) puts)))"

definition writeJournalPuts :: "env \<Rightarrow> journalKV list \<Rightarrow> (('x, 's) executionChain, unit) act" where
  "writeJournalPuts E puts = bindA (failWith (e_write E WriteState)) (\<lambda>_. modifyA (onDB (writeBatch (putOps puts))))"

definition persistBuiltBlock ::
  "('x, 's, 'z) execution_scheme \<Rightarrow> env \<Rightarrow> block \<Rightarrow> receipt list \<Rightarrow> (('x, 's) executionChain, unit) act" where
  "persistBuiltBlock X E b receipts =
     bindA (failWith (e_write E WriteBlock)) (\<lambda>_. modifyA (onBlockchain (x_WriteBlock X b receipts)))"

definition setCanonical :: "('x, 's, 'z) execution_scheme \<Rightarrow> block \<Rightarrow> (('x, 's) executionChain, unit) act" where
  "setCanonical X b c =
     (case x_SetCanonical X b (ch_blockchain c) of
        (x, None) \<Rightarrow> (Inr (), c\<lparr>ch_blockchain := x\<rparr>)
      | (x, Some e) \<Rightarrow> (Inl e, c\<lparr>ch_blockchain := x\<rparr>))"

definition commitAuxiliary ::
  "env \<Rightarrow> journalKV list \<Rightarrow> dbkey list \<Rightarrow> Event list \<Rightarrow> (('x, 's) Node \<Rightarrow> ('x, 's) Node)
   \<Rightarrow> (('x, 's) Node, unit) act" where
  "commitAuxiliary E puts deletes events apply =
     bindA getA (\<lambda>n.
     bindA (liftA (case nd_writeErr n of None \<Rightarrow> Inr ()
         | Some e \<Rightarrow> Inl (wrapFmt ''node writes are disabled after a persistence failure: %w'' e))) (\<lambda>_.
     bindA (liftA (eventLog_plan (nd_events n) events)) (\<lambda>plan.
     bindA (catchA disableWrites id (failWith (e_write E WriteAuxiliary))) (\<lambda>_.
     modifyA (\<lambda>n.
       let n = onChain (onDB (writeBatch (putOps (puts @ pl_puts plan) @ map BDelete (deletes @ pl_deletes plan)))) n;
           n = apply n
       in n\<lparr>nd_events := eventLog_apply (nd_events n) plan\<rparr>)))))"

definition branchPut :: "branch \<Rightarrow> journalKV" where
  "branchPut item = \<lparr>kv_Key = KBranch (br_name item),
     kv_Value = VBranch \<lparr>sb_Name = br_name item, sb_Base = br_base item, sb_Head = br_head item, sb_Tainted = br_tainted item\<rparr>\<rparr>"

definition checkpointPut :: "string \<Rightarrow> chainPoint \<Rightarrow> journalKV" where
  "checkpointPut name point = \<lparr>kv_Key = KCheckpoint name,
     kv_Value = VChainPoint \<lparr>sp_Hash = cp_hash point, sp_Number = cp_number point, sp_Slot = cp_slot point, sp_Tainted = cp_tainted point\<rparr>\<rparr>"

end
