(* ===== verification/Recovery.thy ===== *)
theory Recovery
  imports Node
begin

text \<open>
  Crash safety of the recovery journal: whatever read, write, hook or chain operation fails while a
  prepared operation is committed, the recovery at the next start leads to the old state or to the
  complete new state.
\<close>

section \<open>What go-ethereum promises\<close>

text \<open>
  The documented behaviour of go-ethereum's block store and head that the journal relies on: a stored
  block can be read back, making a stored block canonical moves the head to it or, on an error,
  leaves the head on one of the two, and writing or deleting other data does not move the head.
\<close>

definition lawfulExecution :: "('x, 's, 'z) execution_scheme \<Rightarrow> bool" where
  "lawfulExecution X \<longleftrightarrow>
     (\<forall>b x x'. x_GetBlockByHash X x (b_Hash b) = Some b \<longrightarrow> x_SetCanonical X b x = (x', None)
        \<longrightarrow> x_CurrentBlock X x' = (b_Hash b, b_Header b))
     \<and> (\<forall>b x x' e. x_GetBlockByHash X x (b_Hash b) = Some b \<longrightarrow> x_SetCanonical X b x = (x', Some e)
        \<longrightarrow> x_CurrentBlock X x' = x_CurrentBlock X x \<or> x_CurrentBlock X x' = (b_Hash b, b_Header b))
     \<and> (\<forall>b x h. x_GetBlockByHash X (fst (x_SetCanonical X b x)) h = x_GetBlockByHash X x h)
     \<and> (\<forall>b rs x h. x_GetBlockByHash X (x_WriteBlock X b rs x) h = (if h = b_Hash b then Some b else x_GetBlockByHash X x h))
     \<and> (\<forall>b rs x. b_Hash b \<noteq> fst (x_CurrentBlock X x) \<longrightarrow> x_CurrentBlock X (x_WriteBlock X b rs x) = x_CurrentBlock X x)
     \<and> (\<forall>t x. x_CurrentBlock X (x_DeleteTxLookupEntry X t x) = x_CurrentBlock X x)
     \<and> (\<forall>k x. x_CurrentBlock X (x_DeleteCanonicalHash X k x) = x_CurrentBlock X x)
     \<and> (\<forall>h k x. h \<noteq> fst (x_CurrentBlock X x) \<longrightarrow> x_CurrentBlock X (x_DeleteBlock X h k x) = x_CurrentBlock X x)
     \<and> (\<forall>h k x. x_GetBlockByHash X (x_DeleteBlock X h k x) h = None)"

lemma lawfulD:
  assumes "lawfulExecution X"
  shows "x_GetBlockByHash X x (b_Hash b) = Some b \<Longrightarrow> x_SetCanonical X b x = (x', None)
      \<Longrightarrow> x_CurrentBlock X x' = (b_Hash b, b_Header b)"
    and "x_GetBlockByHash X x (b_Hash b) = Some b \<Longrightarrow> x_SetCanonical X b x = (x', Some e)
      \<Longrightarrow> x_CurrentBlock X x' = x_CurrentBlock X x \<or> x_CurrentBlock X x' = (b_Hash b, b_Header b)"
    and "x_GetBlockByHash X (fst (x_SetCanonical X b x)) h = x_GetBlockByHash X x h"
    and "x_GetBlockByHash X (x_WriteBlock X b rs x) h = (if h = b_Hash b then Some b else x_GetBlockByHash X x h)"
    and "b_Hash b \<noteq> fst (x_CurrentBlock X x) \<Longrightarrow> x_CurrentBlock X (x_WriteBlock X b rs x) = x_CurrentBlock X x"
    and "x_CurrentBlock X (x_DeleteTxLookupEntry X t x) = x_CurrentBlock X x"
    and "x_CurrentBlock X (x_DeleteCanonicalHash X k x) = x_CurrentBlock X x"
    and "g \<noteq> fst (x_CurrentBlock X x) \<Longrightarrow> x_CurrentBlock X (x_DeleteBlock X g k x) = x_CurrentBlock X x"
    and "x_GetBlockByHash X (x_DeleteBlock X g k x) g = None"
  using assms unfolding lawfulExecution_def by (elim conjE, (metis | simp))+

lemma memBlock_filter:
  "find (\<lambda>b. b_Hash b = h) (filter (\<lambda>b. b_Hash b \<noteq> h') xs) = (if h = h' then None else find (\<lambda>b. b_Hash b = h) xs)"
  by (induction xs) auto

lemma memExecution_lawful: "lawfulExecution memExecution"
proof -
  have sc: "memSetCanonical b x = (x', e) \<Longrightarrow> mc_blocks x' = mc_blocks x \<and> mc_head x' = b_Hash b \<and> e = None" for b x x' e
    by (auto simp: memSetCanonical_def Let_def)
  have ok: "memHead x' = (b_Hash b, b_Header b)" if "memBlock x (b_Hash b) = Some b" "memSetCanonical b x = (x', e)" for b x x' e
    using that sc [OF that(2)] by (simp add: memHead_def memBlock_def)
  have err: "memSetCanonical b x \<noteq> (x', Some e)" for b x x' e using sc by blast
  have blk: "memBlock (fst (memSetCanonical b x)) h = memBlock x h" for b x h
    by (simp add: memSetCanonical_def Let_def memBlock_def)
  have wr: "memBlock (x\<lparr>mc_blocks := b # filter (\<lambda>b'. b_Hash b' \<noteq> b_Hash b) (mc_blocks x)\<rparr>) h
      = (if h = b_Hash b then Some b else memBlock x h)" for b x h
    by (simp add: memBlock_def memBlock_filter)
  have del: "memBlock (x\<lparr>mc_blocks := filter (\<lambda>b. b_Hash b \<noteq> g) (mc_blocks x)\<rparr>) h
      = (if h = g then None else memBlock x h)" for g x h
    by (simp add: memBlock_def memBlock_filter)
  have rest: "memBlock (x\<lparr>mc_lookup := l\<rparr>) h = memBlock x h" "memBlock (x\<lparr>mc_canonical := k\<rparr>) h = memBlock x h" for x l k h
    by (simp_all add: memBlock_def)
  have fst: "fst (memHead x) = mc_head x" for x by (simp add: memHead_def)
  show ?thesis
    unfolding lawfulExecution_def memExecution_def execution.simps
    by (intro conjI allI impI; (rule ok; assumption)?; simp add: err blk wr del rest memHead_def fst split: option.splits)
qed

section \<open>Database lemmas\<close>

lemma writeBatch_covered:
  "k \<in> opKey ` set ops \<Longrightarrow> map_of (writeBatch ops db) k = map_of (writeBatch ops db') k"
proof -
  assume "k \<in> opKey ` set ops"
  then have "map_of (rev (map (\<lambda>x. (opKey x, effect x)) ops)) k \<noteq> None"
    by (auto simp: map_of_eq_None_iff image_image)
  then show ?thesis by (auto simp: map_of_writeBatch)
qed

lemma writeBatch_absorb:
  assumes "\<And>k. k \<notin> opKey ` set ops \<Longrightarrow> map_of db k = map_of db' k"
  shows "map_of (writeBatch ops db) = map_of (writeBatch ops db')"
proof
  fix k
  show "map_of (writeBatch ops db) k = map_of (writeBatch ops db') k"
    by (cases "k \<in> opKey ` set ops") (metis writeBatch_covered, metis assms writeBatch_cong)
qed

text \<open>Values that are already there: writing them changes nothing.\<close>

lemma writeBatch_present:
  assumes "\<And>item. item \<in> set puts \<Longrightarrow> kv_Key item = k \<Longrightarrow> map_of db k = Some (Val (kv_Value item))"
  shows "map_of (writeBatch (putOps puts) db) k = map_of db k"
  using assms
proof (induction puts rule: rev_induct)
  case (snoc item puts)
  have "map_of (writeBatch (putOps puts) db) k = map_of db k" using snoc by simp
  moreover have "map_of db k = Some (Val (kv_Value item))" if "kv_Key item = k" using snoc.prems [of item] that by simp
  ultimately show ?case
    by (cases "kv_Key item = k") (auto simp: putOps_def writeBatch_append writeBatch_Cons update_conv')
qed (simp add: putOps_def)

section \<open>Publishing a block\<close>

text \<open>The mutation of a block that extends the canonical chain.\<close>

definition publishBlock ::
  "('x, 's, 'z) execution_scheme \<Rightarrow> env \<Rightarrow> journalKV list \<Rightarrow> block \<Rightarrow> receipt list \<Rightarrow> (('x, 's) executionChain, unit) act" where
  "publishBlock X E executionPuts b receipts =
     bindA (writeJournalPuts E executionPuts) (\<lambda>_.
     bindA (persistBuiltBlock X E b receipts) (\<lambda>_.
     setCanonical X b))"

lemma setCanonical_eq:
  "setCanonical X b c = (r, c') \<longleftrightarrow> (\<exists>x f. x_SetCanonical X b (ch_blockchain c) = (x, f) \<and> c' = c\<lparr>ch_blockchain := x\<rparr>
     \<and> r = (case f of None \<Rightarrow> Inr () | Some e \<Rightarrow> Inl e))"
  by (auto simp: setCanonical_def split: prod.splits option.splits)

lemma publishBlock_cases:
  assumes X: "lawfulExecution X" and new: "b_Hash b \<noteq> fst (x_CurrentBlock X (ch_blockchain c))"
    and run: "publishBlock X E puts b rs c = (r, c')"
  shows "\<exists>db x. c' = c\<lparr>ch_db := db, ch_blockchain := x\<rparr>
    \<and> (db = ch_db c \<or> db = writeBatch (putOps puts) (ch_db c))
    \<and> (x_CurrentBlock X x = x_CurrentBlock X (ch_blockchain c) \<or> x_CurrentBlock X x = (b_Hash b, b_Header b))
    \<and> (r = Inr () \<longrightarrow> db = writeBatch (putOps puts) (ch_db c) \<and> x_CurrentBlock X x = (b_Hash b, b_Header b))"
proof -
  let ?x = "ch_blockchain c" and ?db = "writeBatch (putOps puts) (ch_db c)"
  let ?w = "x_WriteBlock X b rs ?x"
  have w: "x_GetBlockByHash X ?w (b_Hash b) = Some b" "x_CurrentBlock X ?w = x_CurrentBlock X ?x"
    using new by (simp_all add: lawfulD [OF X])
  note ok = lawfulD(1) [OF X w(1)] and err = lawfulD(2) [OF X w(1), unfolded w(2)]
  show ?thesis
  proof (cases "e_write E WriteState")
    case (Some e)
    then have "c' = c" "r = Inl e"
      using run by (simp_all add: publishBlock_def writeJournalPuts_def bindA_def act_simps)
    then show ?thesis by (intro exI [of _ "ch_db c"] exI [of _ ?x]) simp
  next
    case None
    note ws = this
    show ?thesis
    proof (cases "e_write E WriteBlock")
      case (Some e)
      then have "c' = c\<lparr>ch_db := ?db\<rparr>" "r = Inl e"
        using run ws by (simp_all add: publishBlock_def writeJournalPuts_def persistBuiltBlock_def bindA_def act_simps)
      then show ?thesis by (intro exI [of _ ?db] exI [of _ ?x]) simp
    next
      case None
      obtain x' f where s: "x_SetCanonical X b ?w = (x', f)" by (cases "x_SetCanonical X b ?w")
      have "setCanonical X b (c\<lparr>ch_db := ?db, ch_blockchain := ?w\<rparr>) = (r, c')"
        using run ws None by (simp add: publishBlock_def writeJournalPuts_def persistBuiltBlock_def bindA_def act_simps)
      then have "c' = c\<lparr>ch_db := ?db, ch_blockchain := x'\<rparr>" "r = (case f of None \<Rightarrow> Inr () | Some e \<Rightarrow> Inl e)"
        using s by (auto simp: setCanonical_eq)
      then show ?thesis using s ok err by (intro exI [of _ ?db] exI [of _ x']) (cases f, auto)
    qed
  qed
qed

section \<open>The stages of a commit\<close>

definition plannedOperation :: "preparedOperation \<Rightarrow> eventPlan \<Rightarrow> preparedOperation" where
  "plannedOperation operation plan = operation\<lparr>op_Puts := op_Puts operation @ pl_puts plan,
     op_Deletes := op_Deletes operation @ pl_deletes plan\<rparr>"

abbreviation journalled :: "preparedOperation \<Rightarrow> ('x, 's) executionChain \<Rightarrow> ('x, 's) executionChain" where
  "journalled operation c \<equiv> onDB (writeBatch [BPut KJournal (JournalCell (operation\<lparr>op_Version := currentMetadataFormat\<rparr>))]) c"

text \<open>The chain of the node is untouched, journalled and maybe mutated, or complete.\<close>

datatype progress = Untouched | Underway | Complete

definition commitProgress ::
  "preparedOperation \<Rightarrow> (('x, 's) executionChain, unit) act \<Rightarrow> ('x, 's) executionChain \<Rightarrow> progress \<Rightarrow> ('x, 's) executionChain \<Rightarrow> bool" where
  "commitProgress operation mutate c p c' \<longleftrightarrow>
     (case p of
        Untouched \<Rightarrow> c' = c
      | Underway \<Rightarrow> c' = journalled operation c \<or> (\<exists>r. mutate (journalled operation c) = (r, c'))
      | Complete \<Rightarrow> \<exists>c1. mutate (journalled operation c) = (Inr (), c1) \<and> c' = onDB (writeBatch (finalOps operation)) c1)"

lemma disableWrites_chain [simp]: "nd_chain (disableWrites e n) = nd_chain n"
  by (simp add: disableWrites_def setMiningMode_def)

lemma catch_fail [act_simps]:
  "bindA (catchA f w (failWith None)) k s = k () s"
  "bindA (catchA f w (failWith (Some e))) k s = (Inl (w e), f e s)"
  by (simp_all add: bindA_def catchA_def act_run)

lemma catch_chain [act_simps]:
  "m (nd_chain n) = (Inr a, c) \<Longrightarrow> bindA (catchA f w (chainA m)) k n = k a (n\<lparr>nd_chain := c\<rparr>)"
  "m (nd_chain n) = (Inl e, c) \<Longrightarrow> bindA (catchA f w (chainA m)) k n = (Inl (w e), f e (n\<lparr>nd_chain := c\<rparr>))"
  by (simp_all add: bindA_def catchA_def chainA_def)

lemma chainA_eq: "chainA m n = (r, n') \<longleftrightarrow> (\<exists>c. m (nd_chain n) = (r, c) \<and> n' = n\<lparr>nd_chain := c\<rparr>)"
  by (auto simp: chainA_def split: prod.splits)

lemma write_finalize:
  "writePreparedOperation E operation c = (r, c') \<longleftrightarrow>
     (case e_write E WriteJournal of Some e \<Rightarrow> r = Inl e \<and> c' = c | None \<Rightarrow> r = Inr () \<and> c' = journalled operation c)"
  "finalizePreparedOperation E operation c = (r, c') \<longleftrightarrow>
     (case e_write E WriteFinal of Some e \<Rightarrow> r = Inl e \<and> c' = c
      | None \<Rightarrow> r = Inr () \<and> c' = onDB (writeBatch (finalOps operation)) c)"
  by (auto simp: writePreparedOperation_def finalizePreparedOperation_def bindA_def act_simps split: option.splits)

lemma commitPrepared_progress:
  assumes run: "commitPrepared E operation events mutate apply n = (r, n')"
    and plan: "eventLog_plan (nd_events n) events = Inr plan"
    and keep: "\<And>n. ch_db (nd_chain (apply n)) = ch_db (nd_chain n) \<and> ch_blockchain (nd_chain (apply n)) = ch_blockchain (nd_chain n)"
  shows "\<exists>p c'. commitProgress (plannedOperation operation plan) mutate (nd_chain n) p c'
    \<and> ch_db (nd_chain n') = ch_db c' \<and> ch_blockchain (nd_chain n') = ch_blockchain c' \<and> (r = Inr () \<longrightarrow> p = Complete)"
proof -
  let ?op = "plannedOperation operation plan" and ?c = "nd_chain n"
  have untouched: ?thesis if "nd_chain n' = ?c" "r \<noteq> Inr ()"
    using that by (intro exI [of _ Untouched] exI [of _ ?c]) (simp add: commitProgress_def)
  have underway: ?thesis if "nd_chain n' = c'" "c' = journalled ?op ?c \<or> (\<exists>r. mutate (journalled ?op ?c) = (r, c'))" "r \<noteq> Inr ()" for c'
    using that by (intro exI [of _ Underway] exI [of _ c']) (simp add: commitProgress_def)
  show ?thesis
  proof (cases "nd_writeErr n = None \<and> e_read E KJournal = None \<and> map_of (ch_db ?c) KJournal = None \<and> e_write E WriteJournal = None")
    case False
    consider e where "nd_writeErr n = Some e" | e where "nd_writeErr n = None" "e_read E KJournal = Some e"
      | "nd_writeErr n = None" "e_read E KJournal = None" "map_of (ch_db ?c) KJournal \<noteq> None"
      | e where "nd_writeErr n = None" "e_read E KJournal = None" "map_of (ch_db ?c) KJournal = None" "e_write E WriteJournal = Some e"
      using False by (metis not_None_eq)
    then have "nd_chain n' = ?c \<and> r \<noteq> Inr ()"
    proof cases
      case (4 e)
      then have "writePreparedOperation E ?op ?c = (Inl e, ?c)" by (simp add: write_finalize)
      then show ?thesis using 4 run plan unfolding commitPrepared_def Let_def plannedOperation_def [symmetric]
        by (auto simp: act_simps)
    qed (use run in \<open>auto simp: commitPrepared_def act_simps\<close>)
    then show ?thesis using untouched by blast
  next
    case True
    let ?n0 = "n\<lparr>nd_chain := journalled ?op ?c\<rparr>"
    have w: "writePreparedOperation E ?op ?c = (Inr (), journalled ?op ?c)" using True by (simp add: write_finalize)
    define rest where "rest =
     bindA (catchA disableWrites (wrapFmt ''failure after recovery journal preparation: %w'')
       (failWith (e_commitHook E StagePrepared))) (\<lambda>_.
     bindA (catchA disableWrites (wrapFmt ''execution mutation failed with recovery journal retained: %w'')
       (chainA mutate)) (\<lambda>_.
     bindA (catchA disableWrites (wrapFmt ''failure after execution mutation: %w'')
       (failWith (e_commitHook E StageExecution))) (\<lambda>_.
     bindA (catchA disableWrites id (chainA (finalizePreparedOperation E ?op))) (\<lambda>_.
     bindA (catchA disableWrites (wrapFmt ''failure after auxiliary commit: %w'')
       (failWith (e_commitHook E StageAuxiliary))) (\<lambda>_.
     modifyA (\<lambda>n. let n = apply n in n\<lparr>nd_events := eventLog_apply (nd_events n) plan\<rparr>))))))"
    have "rest ?n0 = (r, n')"
      using run plan True w unfolding commitPrepared_def rest_def Let_def plannedOperation_def [symmetric]
      by (simp add: act_simps)
    note rest = this [unfolded rest_def]
    show ?thesis
    proof (cases "e_commitHook E StagePrepared")
      case (Some e)
      then have "nd_chain n' = journalled ?op ?c" "r \<noteq> Inr ()"
        using rest by (auto simp: act_simps)
      then show ?thesis using underway by blast
    next
      case None
      obtain r1 c1 where m: "mutate (journalled ?op ?c) = (r1, c1)" by (cases "mutate (journalled ?op ?c)")
      show ?thesis
      proof (cases "r1 \<noteq> Inr () \<or> e_commitHook E StageExecution \<noteq> None \<or> e_write E WriteFinal \<noteq> None")
        case True
        then consider e where "r1 = Inl e" | "r1 = Inr ()" "e_commitHook E StageExecution \<noteq> None"
          | "r1 = Inr ()" "e_commitHook E StageExecution = None" "e_write E WriteFinal \<noteq> None"
          by (metis (full_types) old.sum.exhaust old.unit.exhaust)
        then have "nd_chain n' = c1 \<and> r \<noteq> Inr ()"
        proof cases
          case 3
          then obtain e where "finalizePreparedOperation E ?op c1 = (Inl e, c1)" by (auto simp: write_finalize)
          then show ?thesis using rest None m 3 by (auto simp: act_simps)
        qed (use rest None m in \<open>auto simp: act_simps\<close>)
        then show ?thesis using underway m by blast
      next
        case False
        then have m': "mutate (journalled ?op ?c) = (Inr (), c1)"
          and f: "finalizePreparedOperation E ?op c1 = (Inr (), onDB (writeBatch (finalOps ?op)) c1)"
          and h: "e_commitHook E StageExecution = None"
          using m by (simp_all add: write_finalize)
        let ?c2 = "onDB (writeBatch (finalOps ?op)) c1"
        have fin: "commitProgress ?op mutate ?c Complete ?c2" using m' by (simp add: commitProgress_def)
        have "ch_db (nd_chain n') = ch_db ?c2 \<and> ch_blockchain (nd_chain n') = ch_blockchain ?c2"
          using rest None m' f h keep
          by (cases "e_commitHook E StageAuxiliary") (auto simp: act_simps Let_def)
        then show ?thesis using fin by blast
      qed
    qed
  qed
qed

section \<open>Recovery\<close>

lemma calm_simps [simp]:
  "e_ctxErr calm i = None" "e_read calm k = None" "e_write calm w = None" "e_commitHook calm st = None"
  by (simp_all add: calm_def)

lemma finalOps_version [simp]: "finalOps (operation\<lparr>op_Version := v\<rparr>) = finalOps operation"
  by (simp add: finalOps_def)

lemma discardTarget_head:
  assumes "lawfulExecution X" and "h \<noteq> fst (x_CurrentBlock X x)"
  shows "x_CurrentBlock X (discardTarget X h k x) = x_CurrentBlock X x"
    and "x_GetBlockByHash X (discardTarget X h k x) h = None"
proof -
  have f: "x_CurrentBlock X (fold (x_DeleteTxLookupEntry X) ts x) = x_CurrentBlock X x" for ts
    by (induction ts arbitrary: x) (simp_all add: lawfulD [OF assms(1)])
  show "x_CurrentBlock X (discardTarget X h k x) = x_CurrentBlock X x"
    unfolding discardTarget_def Let_def using assms(2)
    by (subst lawfulD(8) [OF assms(1)]) (simp_all add: lawfulD(7) [OF assms(1)] f)
  show "x_GetBlockByHash X (discardTarget X h k x) h = None"
    unfolding discardTarget_def Let_def by (rule lawfulD(9) [OF assms(1)])
qed

text \<open>The states recovery may lead to from a journal over the chain \<open>c\<close>.\<close>

definition rolledBack :: "('x, 's, 'z) execution_scheme \<Rightarrow> ('x, 's) executionChain \<Rightarrow> ('x, 's) executionChain \<Rightarrow> bool" where
  "rolledBack X c c' \<longleftrightarrow> map_of (ch_db c') = map_of (ch_db c)
     \<and> x_CurrentBlock X (ch_blockchain c') = x_CurrentBlock X (ch_blockchain c)"

definition committed ::
  "('x, 's, 'z) execution_scheme \<Rightarrow> preparedOperation \<Rightarrow> hash \<times> header \<Rightarrow> ('x, 's) executionChain \<Rightarrow> ('x, 's) executionChain \<Rightarrow> bool" where
  "committed X operation head c c' \<longleftrightarrow> map_of (ch_db c') = map_of (writeBatch (finalOps operation) (ch_db c))
     \<and> x_CurrentBlock X (ch_blockchain c') = head"

text \<open>
  What the code puts into a prepared operation: the keys of new state nodes as rollback, and
  state nodes under the hash of their content, so that a node that is already stored has the
  value that is written again.
\<close>

definition rollbackKeys :: "database \<Rightarrow> journalKV list \<Rightarrow> dbkey list" where
  "rollbackKeys db puts = filter (\<lambda>k. map_of db k = None) (map kv_Key puts)"

definition contentAddressed :: "database \<Rightarrow> journalKV list \<Rightarrow> bool" where
  "contentAddressed db puts \<longleftrightarrow> (\<forall>item \<in> set puts. kv_Key item \<noteq> KJournal
     \<and> (map_of db (kv_Key item) = None \<or> map_of db (kv_Key item) = Some (Val (kv_Value item))))"

lemma executionPutsForJournal_calm:
  "executionPutsForJournal calm db puts = Inr (puts, rollbackKeys db puts)"
proof -
  have "foldE (\<lambda>rollback item. case e_read calm (kv_Key item) of Some e \<Rightarrow> Inl e
       | None \<Rightarrow> Inr (if map_of db (kv_Key item) = None then rollback @ [kv_Key item] else rollback)) acc puts
     = Inr (acc @ rollbackKeys db puts)" for acc
    by (induction puts arbitrary: acc) (simp_all add: rollbackKeys_def)
  then show ?thesis by (simp add: executionPutsForJournal_def)
qed

lemma executionPutsForJournal_ok:
  assumes "executionPutsForJournal E db puts = Inr (executionPuts, rollback)"
  shows "executionPuts = puts \<and> rollback = rollbackKeys db puts"
proof -
  have "foldE (\<lambda>rollback item. case e_read E (kv_Key item) of Some e \<Rightarrow> Inl e
       | None \<Rightarrow> Inr (if map_of db (kv_Key item) = None then rollback @ [kv_Key item] else rollback)) acc ps = Inr r
     \<Longrightarrow> r = acc @ rollbackKeys db ps" for acc ps r
  proof (induction ps arbitrary: acc)
    case (Cons a ps)
    have "e_read E (kv_Key a) = None" using Cons.prems by (auto split: option.splits)
    then have "r = (if map_of db (kv_Key a) = None then acc @ [kv_Key a] else acc) @ rollbackKeys db ps"
      using Cons by simp
    then show ?case by (simp add: rollbackKeys_def)
  qed (simp add: rollbackKeys_def)
  then show ?thesis using assms by (fastforce simp: executionPutsForJournal_def err_simps)
qed

lemma journalled_db:
  "map_of (ch_db (journalled operation c)) = (map_of (ch_db c))(KJournal \<mapsto> JournalCell (operation\<lparr>op_Version := currentMetadataFormat\<rparr>))"
  by (simp add: writeBatch_Cons update_conv')

lemma cancel_restores:
  assumes "contentAddressed (ch_db c) puts" and "map_of (ch_db c) KJournal = None"
    and "db = ch_db (journalled operation c) \<or> db = writeBatch (putOps puts) (ch_db (journalled operation c))"
  shows "map_of (writeBatch (map BDelete (rollbackKeys (ch_db c) puts) @ [BDelete KJournal]) db) = map_of (ch_db c)"
proof
  fix k
  let ?ops = "map BDelete (rollbackKeys (ch_db c) puts @ [KJournal])"
  have ops: "map BDelete (rollbackKeys (ch_db c) puts) @ [BDelete KJournal] = ?ops" by simp
  show "map_of (writeBatch (map BDelete (rollbackKeys (ch_db c) puts) @ [BDelete KJournal]) db) k = map_of (ch_db c) k"
  proof (cases "k \<in> set (rollbackKeys (ch_db c) puts @ [KJournal])")
    case True
    then have "map_of (ch_db c) k = None" using assms(2) by (auto simp: rollbackKeys_def)
    then show ?thesis unfolding ops using writeBatch_delete [OF True] by simp
  next
    case False
    then have k: "k \<noteq> KJournal" by simp
    have "map_of (writeBatch ?ops db) k = map_of db k"
      using False by (intro writeBatch_other) (simp only: opKey_deletes not_False_eq_True)
    moreover have j: "map_of (ch_db (journalled operation c)) k = map_of (ch_db c) k" unfolding journalled_db using k by simp
    moreover have "map_of (writeBatch (putOps puts) (ch_db (journalled operation c))) k = map_of (ch_db (journalled operation c)) k"
    proof (rule writeBatch_present)
      fix item assume i: "item \<in> set puts" "kv_Key item = k"
      have "map_of (ch_db c) k \<noteq> None" using False i by (force simp: rollbackKeys_def)
      then show "map_of (ch_db (journalled operation c)) k = Some (Val (kv_Value item))"
        using assms(1) i j unfolding contentAddressed_def by auto
    qed
    ultimately show ?thesis unfolding ops using assms(3) by auto
  qed
qed

lemma final_absorbs:
  assumes "puts = op_ExecutionPuts operation"
    and "db = ch_db (journalled operation c) \<or> db = writeBatch (putOps puts) (ch_db (journalled operation c))"
  shows "map_of (writeBatch (finalOps operation) db) = map_of (writeBatch (finalOps operation) (ch_db c))"
proof (rule writeBatch_absorb)
  fix k assume k: "k \<notin> opKey ` set (finalOps operation)"
  then have "k \<noteq> KJournal" and "k \<notin> opKey ` set (putOps puts)"
    using assms(1) by (auto simp: finalOps_def opKey_def image_Un)
  then show "map_of db k = map_of (ch_db c) k"
    using assms(2) journalled_db [of operation c] by (auto simp: writeBatch_other)
qed

lemma calm_runs [act_simps]:
  "discardPreparedTarget X calm h k c = (Inr (), onBlockchain (discardTarget X h k) c)"
  "cancelPreparedOperation calm operation c
     = (Inr (), onDB (writeBatch (map BDelete (op_RollbackDeletes operation) @ [BDelete KJournal])) c)"
  "finalizePreparedOperation calm operation c = (Inr (), onDB (writeBatch (finalOps operation)) c)"
  by (simp_all add: discardPreparedTarget_def cancelPreparedOperation_def finalizePreparedOperation_def bindA_def act_run)

lemma recover_finalize:
  assumes "map_of (ch_db c) KJournal = Some (JournalCell (operation\<lparr>op_Version := currentMetadataFormat\<rparr>))"
    and "op_Kind operation = ''head''" and "fst (x_CurrentBlock X (ch_blockchain c)) = op_NewHead operation"
  shows "recoverPreparedOperation X calm c = (Inr (), onDB (writeBatch (finalOps operation)) c)"
  using assms
  by (simp add: recoverPreparedOperation_def act_simps Let_def)

lemma recover_cancel:
  assumes "map_of (ch_db c) KJournal = Some (JournalCell (operation\<lparr>op_Version := currentMetadataFormat\<rparr>))"
    and "op_Kind operation = ''head''" and "fst (x_CurrentBlock X (ch_blockchain c)) = op_OldHead operation"
    and "op_OldHead operation \<noteq> op_NewHead operation" and "op_DiscardTargetOnCancel operation"
  shows "recoverPreparedOperation X calm c = (Inr (),
    onDB (writeBatch (map BDelete (op_RollbackDeletes operation) @ [BDelete KJournal]))
      (onBlockchain (discardTarget X (op_NewHead operation) (op_TargetNumber operation)) c))"
  using assms
  by (simp add: recoverPreparedOperation_def act_simps Let_def)

lemma recover_none:
  "map_of (ch_db c) KJournal = None \<Longrightarrow> recoverPreparedOperation X calm c = (Inr (), c)"
  by (simp add: recoverPreparedOperation_def act_simps)

lemma final_no_journal: "map_of (writeBatch (finalOps operation) db) KJournal = None"
proof -
  have "finalOps operation = (putOps (op_ExecutionPuts operation) @ putOps (op_Puts operation) @ map BDelete (op_Deletes operation)) @ map BDelete [KJournal]"
    by (simp add: finalOps_def)
  then show ?thesis by (simp only: writeBatch_append) (rule writeBatch_delete, simp)
qed

lemma plannedOperation_fields [simp]:
  "op_ExecutionPuts (plannedOperation operation plan) = op_ExecutionPuts operation"
  "op_RollbackDeletes (plannedOperation operation plan) = op_RollbackDeletes operation"
  "op_Kind (plannedOperation operation plan) = op_Kind operation"
  "op_OldHead (plannedOperation operation plan) = op_OldHead operation"
  "op_NewHead (plannedOperation operation plan) = op_NewHead operation"
  "op_TargetNumber (plannedOperation operation plan) = op_TargetNumber operation"
  "op_TargetBlock (plannedOperation operation plan) = op_TargetBlock operation"
  "op_DiscardTargetOnCancel (plannedOperation operation plan) = op_DiscardTargetOnCancel operation"
  by (simp_all add: plannedOperation_def)

text \<open>
  C1: Committing a block is atomic across crashes. Whatever reads, writes, hooks and chain
  operations fail while a block that extends the head is committed, the recovery at the next start
  succeeds and leaves either exactly the stored data and the head from before, or exactly the data
  of the whole commit, events included, with the new block as head. A commit that reports success
  is never rolled back.
\<close>

theorem block_commit_crash_atomic:
  assumes X: "lawfulExecution X"
    and journal: "map_of (ch_db (nd_chain n)) KJournal = None"
    and plan: "eventLog_plan (nd_events n) events = Inr plan"
    and kind: "op_Kind operation = ''head''" "op_DiscardTargetOnCancel operation"
    and heads: "op_OldHead operation = fst (x_CurrentBlock X (ch_blockchain (nd_chain n)))"
      "op_NewHead operation = b_Hash b" "b_Hash b \<noteq> fst (x_CurrentBlock X (ch_blockchain (nd_chain n)))"
    and rollback: "op_RollbackDeletes operation = rollbackKeys (ch_db (nd_chain n)) (op_ExecutionPuts operation)"
    and content: "contentAddressed (ch_db (nd_chain n)) (op_ExecutionPuts operation)"
    and memory: "\<And>n. ch_db (nd_chain (apply n)) = ch_db (nd_chain n) \<and> ch_blockchain (nd_chain (apply n)) = ch_blockchain (nd_chain n)"
    and run: "commitPrepared E operation events (publishBlock X E (op_ExecutionPuts operation) b receipts) apply n = (r, n')"
  shows "\<exists>c'. recoverPreparedOperation X calm (nd_chain n') = (Inr (), c')
    \<and> (rolledBack X (nd_chain n) c' \<and> r \<noteq> Inr ()
       \<or> committed X (plannedOperation operation plan) (b_Hash b, b_Header b) (nd_chain n) c')"
proof -
  let ?c = "nd_chain n" and ?op = "plannedOperation operation plan" and ?puts = "op_ExecutionPuts operation"
  let ?m = "publishBlock X E ?puts b receipts" and ?new = "(b_Hash b, b_Header b)"
  have jx: "ch_blockchain (journalled ?op ?c) = ch_blockchain ?c" by simp
  obtain p c' where p: "commitProgress ?op ?m ?c p c'" and db: "ch_db (nd_chain n') = ch_db c'"
    and bc: "ch_blockchain (nd_chain n') = ch_blockchain c'" and r: "r = Inr () \<longrightarrow> p = Complete"
    using commitPrepared_progress [OF run plan memory] by blast
  have mutated: "(ch_db c1 = ch_db (journalled ?op ?c) \<or> ch_db c1 = writeBatch (putOps ?puts) (ch_db (journalled ?op ?c)))
    \<and> (x_CurrentBlock X (ch_blockchain c1) = x_CurrentBlock X (ch_blockchain ?c) \<or> x_CurrentBlock X (ch_blockchain c1) = ?new)
    \<and> (r1 = Inr () \<longrightarrow> ch_db c1 = writeBatch (putOps ?puts) (ch_db (journalled ?op ?c)) \<and> x_CurrentBlock X (ch_blockchain c1) = ?new)"
    if "?m (journalled ?op ?c) = (r1, c1)" for r1 c1
    using publishBlock_cases [OF X _ that] heads(3) unfolding jx by auto
  show ?thesis
  proof (cases p)
    case Untouched
    then have "recoverPreparedOperation X calm (nd_chain n') = (Inr (), nd_chain n')" "rolledBack X ?c (nd_chain n')"
      using p db bc journal by (simp_all add: commitProgress_def recover_none rolledBack_def)
    then show ?thesis using r Untouched by blast
  next
    case Complete
    then obtain c1 where c1: "?m (journalled ?op ?c) = (Inr (), c1)" "c' = onDB (writeBatch (finalOps ?op)) c1"
      using p by (auto simp: commitProgress_def)
    note m = mutated [OF c1(1)]
    have "map_of (ch_db (nd_chain n')) KJournal = None" using db c1 by (simp add: final_no_journal)
    moreover have "committed X ?op ?new ?c (nd_chain n')"
      using m db bc c1 final_absorbs [of ?puts ?op "ch_db c1" ?c] by (simp add: committed_def)
    ultimately show ?thesis using recover_none by blast
  next
    case Underway
    then have st: "(ch_db c' = ch_db (journalled ?op ?c) \<or> ch_db c' = writeBatch (putOps ?puts) (ch_db (journalled ?op ?c)))
      \<and> (x_CurrentBlock X (ch_blockchain c') = x_CurrentBlock X (ch_blockchain ?c) \<or> x_CurrentBlock X (ch_blockchain c') = ?new)"
      using p mutated unfolding commitProgress_def by auto
    have "KJournal \<notin> opKey ` set (putOps ?puts)" using content by (auto simp: contentAddressed_def)
    then have j: "map_of (ch_db (nd_chain n')) KJournal = Some (JournalCell (?op\<lparr>op_Version := currentMetadataFormat\<rparr>))"
      using st db journalled_db [of ?op ?c] by (auto simp: writeBatch_other)
    show ?thesis
    proof (cases "x_CurrentBlock X (ch_blockchain c') = ?new")
      case True
      have "recoverPreparedOperation X calm (nd_chain n') = (Inr (), onDB (writeBatch (finalOps ?op)) (nd_chain n'))"
        using recover_finalize [OF j, of X] kind heads True bc by simp
      moreover have "committed X ?op ?new ?c (onDB (writeBatch (finalOps ?op)) (nd_chain n'))"
        using st db bc True final_absorbs [of ?puts ?op "ch_db c'" ?c] by (simp add: committed_def)
      ultimately show ?thesis by blast
    next
      case False
      then have h: "x_CurrentBlock X (ch_blockchain (nd_chain n')) = x_CurrentBlock X (ch_blockchain ?c)" using st bc by simp
      let ?d = "onDB (writeBatch (map BDelete (op_RollbackDeletes ?op) @ [BDelete KJournal]))
        (onBlockchain (discardTarget X (op_NewHead ?op) (op_TargetNumber ?op)) (nd_chain n'))"
      have "recoverPreparedOperation X calm (nd_chain n') = (Inr (), ?d)"
        using recover_cancel [OF j, of X] kind heads h by simp
      moreover have "rolledBack X ?c ?d"
        using cancel_restores [OF content journal, of "ch_db c'" ?op] st db rollback heads h
          discardTarget_head [OF X, of "b_Hash b" "ch_blockchain (nd_chain n')"] by (simp add: rolledBack_def)
      ultimately show ?thesis using r Underway by blast
    qed
  qed
qed

definition exampleNode :: "(memChain, (address \<times> u64) list) Node" where
  "exampleNode = \<lparr>nd_cfg = DefaultConfig, nd_chain = exampleChain,
     nd_consensus = exampleModel, nd_events = \<lparr>el_capacity = 4096, el_next = 1, el_events = []\<rparr>, nd_pendingEvents = newPendingHashLog 4096,
     nd_nextSnapshot = 0, nd_snapshots = [], nd_checkpoints = [], nd_branches = [], nd_miningMode = ''transaction'',
     nd_resumeMiningMode = ''transaction'', nd_miningInterval = 0, nd_miningEmpty = False,
     nd_pendingWithdrawals = [], nd_pendingExecutionRequests = newExecutionRequestQueue, nd_writeErr = None\<rparr>"

definition exampleChild :: block where
  "exampleChild = emptyBlock\<lparr>b_Hash := 101, b_Header := zeroHeader\<lparr>h_ParentHash := 100, h_Number := 1, h_Time := 1012\<rparr>\<rparr>"

definition exampleOperation :: preparedOperation where
  "exampleOperation = zeroOperation\<lparr>op_Kind := ''head'', op_OldHead := 100, op_NewHead := 101, op_TargetNumber := 1,
     op_DiscardTargetOnCancel := True, op_ExecutionPuts := [\<lparr>kv_Key = KState [1], kv_Value = Raw [2]\<rparr>],
     op_RollbackDeletes := [KState [1]], op_Puts := [blockSlotPut 101 1]\<rparr>"

definition crashingHook :: env where
  "crashingHook = calm\<lparr>e_commitHook := (\<lambda>stage. if stage = StageExecution then Some (Err ''crash'') else None)\<rparr>"

lemma block_commit_crash_atomic_witness:
  "lawfulExecution memExecution \<and> (\<exists>r n' c'. commitPrepared crashingHook exampleOperation []
       (publishBlock memExecution crashingHook (op_ExecutionPuts exampleOperation) exampleChild []) id exampleNode = (r, n')
     \<and> recoverPreparedOperation memExecution calm (nd_chain n') = (Inr (), c')
     \<and> (rolledBack memExecution exampleChain c' \<or> map_of (ch_db c') (KBlockSlot 101) = Some (Val (Raw (be_bytes 8 (1 :: u64))))))"
proof -
  let ?run = "commitPrepared crashingHook exampleOperation []
       (publishBlock memExecution crashingHook (op_ExecutionPuts exampleOperation) exampleChild []) id exampleNode"
  obtain plan where plan: "eventLog_plan (nd_events exampleNode) [] = Inr plan" "pl_puts plan = [\<lparr>kv_Key = KEventNext, kv_Value = Raw (be_bytes 8 (1 :: u64))\<rparr>]"
    "pl_deletes plan = []"
    by (simp add: eventLog_plan_def exampleNode_def Let_def)
  have head: "x_CurrentBlock memExecution (ch_blockchain (nd_chain exampleNode)) = (100, b_Header exampleGenesis)"
    by (simp add: exampleNode_def exampleChain_def memExecution_def memHead_def memBlock_def genesisChain_def exampleGenesis_def)
  obtain r n' where run: "?run = (r, n')" by (cases ?run)
  have "map_of (ch_db (nd_chain exampleNode)) KJournal = None" by (simp add: exampleNode_def exampleChain_def)
  moreover have "op_RollbackDeletes exampleOperation = rollbackKeys (ch_db (nd_chain exampleNode)) (op_ExecutionPuts exampleOperation)"
    "contentAddressed (ch_db (nd_chain exampleNode)) (op_ExecutionPuts exampleOperation)"
    by (simp_all add: exampleOperation_def rollbackKeys_def contentAddressed_def exampleNode_def exampleChain_def)
  ultimately obtain c' where c': "recoverPreparedOperation memExecution calm (nd_chain n') = (Inr (), c')"
    "rolledBack memExecution (nd_chain exampleNode) c' \<and> r \<noteq> Inr ()
       \<or> committed memExecution (plannedOperation exampleOperation plan) (b_Hash exampleChild, b_Header exampleChild) (nd_chain exampleNode) c'"
    using block_commit_crash_atomic [OF memExecution_lawful _ plan(1) _ _ _ _ _ _ _ _ run]
    by (auto simp: exampleOperation_def exampleChild_def head)
  have "map_of (writeBatch (finalOps (plannedOperation exampleOperation plan)) []) (KBlockSlot 101) = Some (Val (Raw (be_bytes 8 (1 :: u64))))"
    by (simp add: plannedOperation_def plan finalOps_def exampleOperation_def putOps_def blockSlotPut_def zeroOperation_def writeBatch_Cons)
  then show ?thesis
    using c' run memExecution_lawful
    by (auto simp: committed_def exampleNode_def exampleChain_def)
qed

end
