(* ===== verification/Builder.thy ===== *)
theory Builder
  imports Recovery "HOL-Library.Sublist"
begin

text \<open>
  Building a block: withdrawals (\<open>src/withdrawal.go\<close>), the isolated candidate state
  (\<open>src/candidate_state.go\<close>), and block generation (\<open>generateBlock\<close>, \<open>buildBlockAtSlot\<close>,
  \<open>buildBlock\<close> of \<open>src/chain.go\<close>).

  \<^item> The EVM and go-ethereum's consensus engine are the further functions of \<open>evm\<close>, over an abstract
    account state, gas pool \<open>'g\<close> and access list under construction \<open>'al\<close>. Where go-ethereum mutates
    its argument the function returns the new value.
  \<^item> A transaction that fails leaves state and gas as they were, since the code restores both.
  \<^item> A panic of the block builder is recovered by the code; the model has no panicking calls there.
\<close>

section \<open>The EVM\<close>

record ('x, 's, 'g, 'al) evm = "('x, 's) execution" +
  v_CalcBaseFee :: "paramsConfig \<Rightarrow> header \<Rightarrow> nat"
  v_ElasticityMultiplier :: "paramsConfig \<Rightarrow> u64"
  v_CalcGasLimit :: "u64 \<Rightarrow> u64 \<Rightarrow> u64"
  v_CalcExcessBlobGas :: "paramsConfig \<Rightarrow> header \<Rightarrow> u64 \<Rightarrow> u64"
  v_CalcBlobFee :: "paramsConfig \<Rightarrow> header \<Rightarrow> nat"
  v_Prepare :: "'x \<Rightarrow> header \<Rightarrow> error + header"
  v_OpenState :: "(bytes \<Rightarrow> bytes option) \<Rightarrow> hash \<Rightarrow> error + 's"
  v_NewAccessList :: 'al
  v_Merge :: "'al \<Rightarrow> 'al \<Rightarrow> 'al"
  v_PreExecution :: "'x \<Rightarrow> header \<Rightarrow> header \<Rightarrow> 's \<Rightarrow> 's \<times> 'al"
  v_NewGasPool :: "u64 \<Rightarrow> 'g"
  v_GasUsed :: "'g \<Rightarrow> u64"
  v_TransactionToMessage :: "paramsConfig \<Rightarrow> header \<Rightarrow> tx \<Rightarrow> error + unit"
  v_ApplyTransaction :: "'x \<Rightarrow> header \<Rightarrow> nat \<Rightarrow> tx \<Rightarrow> 'g \<Rightarrow> 's \<Rightarrow> error + receipt \<times> 'al \<times> 'g \<times> 's"
  v_PostExecution :: "'x \<Rightarrow> header \<Rightarrow> log list \<Rightarrow> nat \<Rightarrow> 's \<Rightarrow> error + bytes list option \<times> 'al \<times> 's"
  v_CalcRequestsHash :: "bytes list \<Rightarrow> hash"
  v_HeaderHash :: "header \<Rightarrow> hash"
  v_Finalize :: "'x \<Rightarrow> header \<Rightarrow> tx list \<Rightarrow> Withdrawal list option \<Rightarrow> nat \<Rightarrow> 'al \<Rightarrow> 's \<Rightarrow> 's \<times> 'al"
  v_StateError :: "'s \<Rightarrow> error option"
  v_AssembleBlock :: "'x \<Rightarrow> header \<Rightarrow> 's \<Rightarrow> tx list \<Rightarrow> Withdrawal list option \<Rightarrow> receipt list \<Rightarrow> 'al \<Rightarrow> block"
  v_ValidateAccessList :: "accountAccess list \<Rightarrow> u64 \<Rightarrow> nat \<Rightarrow> error + unit"
  v_DeriveFields :: "paramsConfig \<Rightarrow> block \<Rightarrow> nat option \<Rightarrow> receipt list \<Rightarrow> error + receipt list"
  v_Commit :: "'s \<Rightarrow> header \<Rightarrow> error + hash \<times> (bytes \<times> bytes) list"
  v_TrieCommit :: "'s \<Rightarrow> hash \<Rightarrow> error + (bytes \<times> bytes) list"

section \<open>Withdrawals\<close>

abbreviation "maxWithdrawalsPerBlock \<equiv> (16 :: nat)"

definition ErrWithdrawalAmountZero :: error where
  "ErrWithdrawalAmountZero = Err ''withdrawal amount must be greater than zero''"
definition ErrWithdrawalQueueFull :: error where
  "ErrWithdrawalQueueFull = Err ''next block already has 16 withdrawals''"
definition ErrWithdrawalIndexOverflow :: error where
  "ErrWithdrawalIndexOverflow = Err ''withdrawal index overflow''"

text \<open>The walk to the last block with withdrawals; the fuel is the number of the block.\<close>

fun lastWithdrawalIndex ::
  "('x, 's, 'z) execution_scheme \<Rightarrow> 'x \<Rightarrow> nat \<Rightarrow> block option \<Rightarrow> error + u64" where
  "lastWithdrawalIndex X x fuel None = Inr 0"
| "lastWithdrawalIndex X x fuel (Some b) =
     (if b_Withdrawals b \<noteq> [] then
        let index = wd_Index (last (b_Withdrawals b)) in
        if index = MaxUint64 then Inl ErrWithdrawalIndexOverflow else Inr (index + 1)
      else if b_Number b = 0 then Inr 0
      else (case fuel of
          0 \<Rightarrow> Inl (Panic ''withdrawal index loop'')
        | Suc fuel' \<Rightarrow> lastWithdrawalIndex X x fuel' (x_GetBlock X x (b_ParentHash b) (b_Number b - 1))))"

definition nextWithdrawalIndex :: "('x, 's, 'z) execution_scheme \<Rightarrow> 'x \<Rightarrow> block option \<Rightarrow> error + u64" where
  "nextWithdrawalIndex X x parent =
     lastWithdrawalIndex X x (case parent of None \<Rightarrow> 0 | Some b \<Rightarrow> unat (b_Number b)) parent"

definition assignedWithdrawals ::
  "('x, 's, 'z) execution_scheme \<Rightarrow> 'x \<Rightarrow> block option \<Rightarrow> WithdrawalRequest list \<Rightarrow> error + Withdrawal list option" where
  "assignedWithdrawals X x parent requests =
     (if requests = [] then Inr None
      else bindE (nextWithdrawalIndex X x parent) (\<lambda>next.
        if of_nat (length requests - 1) > MaxUint64 - next then Inl ErrWithdrawalIndexOverflow
        else Inr (Some (map (\<lambda>(index, request). \<lparr>wd_Index = next + of_nat index, wd_Validator = wr_ValidatorIndex request,
               wd_Address = wr_Address request, wd_Amount = wr_Amount request\<rparr>) (enumerate 0 requests)))))"

section \<open>The candidate state\<close>

text \<open>Reading the raw bytes of a key of go-ethereum's state from the store.\<close>

definition stateBytes :: "database \<Rightarrow> bytes \<Rightarrow> bytes option" where
  "stateBytes db k = (case map_of db (KState k) of Some (Val (Raw v)) \<Rightarrow> Some v | _ \<Rightarrow> None)"

definition readThrough_Get :: "(bytes \<times> bytes) list \<Rightarrow> (bytes \<Rightarrow> bytes option) \<Rightarrow> bytes \<Rightarrow> bytes option" where
  "readThrough_Get overlay base k = (case map_of overlay k of Some v \<Rightarrow> Some v | None \<Rightarrow> base k)"

definition readThrough_Has :: "(bytes \<times> bytes) list \<Rightarrow> (bytes \<Rightarrow> bytes option) \<Rightarrow> bytes \<Rightarrow> bool" where
  "readThrough_Has overlay base k \<longleftrightarrow> map_of overlay k \<noteq> None \<or> base k \<noteq> None"

text \<open>
  The iterator of an in-memory store: the entries with the prefix, from \<open>prefix + start\<close> on, in key order.
  The merged iterator copies the range of the base and then that of the overlay; \<open>None\<close> is a base
  iterator that fails.
\<close>

definition memIterator :: "(bytes \<times> bytes) list \<Rightarrow> bytes \<Rightarrow> bytes \<Rightarrow> (bytes \<times> bytes) list" where
  "memIterator entries pre start =
     sort_key fst (filter (\<lambda>(k, _). take (length pre) k = pre \<and> pre @ start \<le> k) entries)"

definition readThrough_NewIterator ::
  "(bytes \<times> bytes) list \<Rightarrow> (bytes \<times> bytes) list option \<Rightarrow> bytes \<Rightarrow> bytes \<Rightarrow> (bytes \<times> bytes) list" where
  "readThrough_NewIterator overlay base pre start =
     (case base of
        None \<Rightarrow> []
      | Some entries \<Rightarrow>
          memIterator (fold (\<lambda>(k, v). AList.update k v) (memIterator entries pre start @ memIterator overlay pre start) []) pre start)"

definition newCandidateState ::
  "('x, 's, 'g, 'al, 'z) evm_scheme \<Rightarrow> database \<Rightarrow> hash \<Rightarrow> error + 's" where
  "newCandidateState X db root =
     wrapE ''open candidate state %s: %w'' (v_OpenState X (readThrough_Get [] (stateBytes db)) root)"

text \<open>Committing writes code and trie nodes into the overlay and opens the state again.\<close>

definition candidate_commit ::
  "('x, 's, 'g, 'al, 'z) evm_scheme \<Rightarrow> database \<Rightarrow> 's \<Rightarrow> header \<Rightarrow> error + 's \<times> hash \<times> (bytes \<times> bytes) list" where
  "candidate_commit X db s h =
     bindE (v_Commit X s h) (\<lambda>(root, code).
     bindE (v_TrieCommit X s root) (\<lambda>nodes.
     let overlay = fold (\<lambda>(k, v). AList.update k v) nodes code in
     bindE (v_OpenState X (readThrough_Get overlay (stateBytes db)) root) (\<lambda>stable.
     Inr (stable, root, overlay))))"

definition candidate_puts :: "(bytes \<times> bytes) list \<Rightarrow> journalKV list" where
  "candidate_puts overlay = map (\<lambda>(k, v). \<lparr>kv_Key = KState k, kv_Value = Raw v\<rparr>) (memIterator overlay [] [])"

section \<open>Block generation\<close>

definition deriveReceiptFields ::
  "('x, 's, 'g, 'al, 'z) evm_scheme \<Rightarrow> ('x, 's) executionChain \<Rightarrow> block \<Rightarrow> receipt list \<Rightarrow> error + receipt list" where
  "deriveReceiptFields X c b receipts =
     v_DeriveFields X (ch_config c) b
       (if h_ExcessBlobGas (b_Header b) \<noteq> None then Some (v_CalcBlobFee X (ch_config c) (b_Header b)) else None) receipts"

definition newHeader ::
  "('x, 's, 'g, 'al, 'z) evm_scheme \<Rightarrow> ('x, 's) executionChain \<Rightarrow> block \<Rightarrow> u64 \<Rightarrow> hash \<Rightarrow> bytes \<Rightarrow> address option \<Rightarrow> header" where
  "newHeader X c parent targetTime parentBeaconRoot extra feeRecipient =
     (let h = zeroHeader\<lparr>h_ParentHash := b_Hash parent,
            h_Coinbase := (case feeRecipient of None \<Rightarrow> ch_feeRecipient c | Some a \<Rightarrow> a),
            h_Number := b_Number parent + 1, h_GasLimit := h_GasLimit (b_Header parent),
            h_Time := targetTime, h_Extra := extra\<rparr>;
          h = (if c_IsAmsterdam X (ch_config c) (h_Number h) (h_Time h)
               then h\<lparr>h_SlotNumber := Some ((targetTime - ch_genesisTime c) div ch_slotDuration c)\<rparr> else h);
          h = (if c_IsLondon X (ch_config c) (h_Number h)
               then let h = h\<lparr>h_BaseFee := Some (v_CalcBaseFee X (ch_config c) (b_Header parent))\<rparr> in
                 if \<not> c_IsLondon X (ch_config c) (b_Number parent)
                 then let parentGasLimit = h_GasLimit (b_Header parent) * v_ElasticityMultiplier X (ch_config c) in
                   h\<lparr>h_GasLimit := v_CalcGasLimit X parentGasLimit parentGasLimit\<rparr>
                 else h
               else h)
      in if c_IsCancun X (ch_config c) (h_Number h) (h_Time h)
         then h\<lparr>h_ExcessBlobGas := Some (v_CalcExcessBlobGas X (ch_config c) (b_Header parent) targetTime),
                h_BlobGasUsed := Some 0, h_ParentBeaconRoot := Some parentBeaconRoot\<rparr>
         else h)"

record ('s, 'g, 'al) genState =
  gs_state :: 's
  gs_gas :: 'g
  gs_header :: header
  gs_accepted :: "tx list"
  gs_receipts :: "receipt list"
  gs_logs :: "log list"
  gs_accessList :: 'al
  gs_blocked :: "address list"

text \<open>One round of the transaction loop.\<close>

definition executeOne ::
  "('x, 's, 'g, 'al, 'z) evm_scheme \<Rightarrow> env \<Rightarrow> ('x, 's) executionChain \<Rightarrow> bool \<Rightarrow> ('s, 'g, 'al) genState
   \<Rightarrow> nat \<times> tx \<Rightarrow> error + ('s, 'g, 'al) genState" where
  "executeOne X E c skipInvalid g = (\<lambda>(i, transaction).
     bindE (case e_ctxErr E i of Some e \<Rightarrow> Inl e | None \<Rightarrow> Inr ()) (\<lambda>_.
     let tx = transaction\<lparr>tx_Sidecar := None\<rparr>; h = gs_header g in
     case t_Sender X (ch_config c) (h_Number h) (h_Time h) tx of
       Inl senderErr \<Rightarrow> if skipInvalid then Inr g else Inl senderErr
     | Inr from \<Rightarrow>
         if from \<in> set (gs_blocked g) then Inr g
         else
           (case v_TransactionToMessage X (ch_config c) h tx of
              Inl messageErr \<Rightarrow>
                if skipInvalid then Inr (g\<lparr>gs_blocked := from # gs_blocked g\<rparr>) else Inl messageErr
            | Inr _ \<Rightarrow>
                (case v_ApplyTransaction X (ch_blockchain c) h (length (gs_accepted g)) tx (gs_gas g) (gs_state g) of
                   Inl applyErr \<Rightarrow>
                     if skipInvalid then Inr (g\<lparr>gs_blocked := from # gs_blocked g\<rparr>) else Inl applyErr
                 | Inr (receipt, accessList, gas, state) \<Rightarrow>
                     Inr (g\<lparr>gs_state := state, gs_gas := gas,
                       gs_header := h\<lparr>h_BlobGasUsed := map_option (\<lambda>used. used + rc_BlobGasUsed receipt) (h_BlobGasUsed h)\<rparr>,
                       gs_accepted := gs_accepted g @ [tx], gs_receipts := gs_receipts g @ [receipt],
                       gs_logs := gs_logs g @ rc_Logs receipt,
                       gs_accessList := v_Merge X (gs_accessList g) accessList\<rparr>)))))"

definition executeTransactions ::
  "('x, 's, 'g, 'al, 'z) evm_scheme \<Rightarrow> env \<Rightarrow> ('x, 's) executionChain \<Rightarrow> bool \<Rightarrow> ('s, 'g, 'al) genState
   \<Rightarrow> tx list \<Rightarrow> error + ('s, 'g, 'al) genState" where
  "executeTransactions X E c skipInvalid g txs = foldE (executeOne X E c skipInvalid) g (enumerate 1 txs)"

record 's generated =
  ge_block :: block
  ge_receipts :: "receipt list"
  ge_state :: 's
  ge_requests :: "bytes list option"

text \<open>The part of \<open>generateBlock\<close> after the transaction loop.\<close>

definition finishBlock ::
  "('x, 's, 'g, 'al, 'z) evm_scheme \<Rightarrow> ('x, 's) executionChain \<Rightarrow> ('s, 'g, 'al) genState \<Rightarrow> Withdrawal list option
   \<Rightarrow> error + 's generated" where
  "finishBlock X c g withdrawals =
     (let h = (gs_header g)\<lparr>h_GasUsed := v_GasUsed X (gs_gas g)\<rparr>; index = length (gs_accepted g) + 1 in
      bindE (v_PostExecution X (ch_blockchain c) h (gs_logs g) index (gs_state g)) (\<lambda>(requests, requestAccess, s).
      let accessList = v_Merge X (gs_accessList g) requestAccess;
          h = (case requests of None \<Rightarrow> h | Some rs \<Rightarrow> h\<lparr>h_RequestsHash := Some (v_CalcRequestsHash X rs)\<rparr>);
          body = (if c_IsShanghai X (ch_config c) (h_Number h) (h_Time h) \<and> withdrawals = None then Some [] else withdrawals);
          (s, accessList) = v_Finalize X (ch_blockchain c) h (gs_accepted g) body index accessList s in
      bindE (case v_StateError X s of Some e \<Rightarrow> Inl e | None \<Rightarrow> Inr ()) (\<lambda>_.
      let block = v_AssembleBlock X (ch_blockchain c) h s (gs_accepted g) body (gs_receipts g) accessList in
      bindE (case b_AccessList block of
               None \<Rightarrow> Inr ()
             | Some l \<Rightarrow> v_ValidateAccessList X l (h_GasLimit (b_Header block)) (length (b_Transactions block))) (\<lambda>_.
      bindE (deriveReceiptFields X c block (gs_receipts g)) (\<lambda>receipts.
      bindE (verifyExecutionRequestsHash (v_CalcRequestsHash X) block requests) (\<lambda>_.
      Inr \<lparr>ge_block = block, ge_receipts = receipts, ge_state = s, ge_requests = requests\<rparr>))))))"

definition generateBlock ::
  "('x, 's, 'g, 'al, 'z) evm_scheme \<Rightarrow> env \<Rightarrow> ('x, 's) executionChain \<Rightarrow> block \<Rightarrow> u64 \<Rightarrow> hash \<Rightarrow> tx list
   \<Rightarrow> Withdrawal list option \<Rightarrow> bool \<Rightarrow> bytes \<Rightarrow> 's option \<Rightarrow> address option \<Rightarrow> error + 's generated" where
  "generateBlock X E c parent targetTime parentBeaconRoot txs withdrawals skipInvalid extra initialState feeRecipient =
     bindE (case e_ctxErr E 0 of Some e \<Rightarrow> Inl e | None \<Rightarrow> Inr ()) (\<lambda>_.
     if b_Number parent = MaxUint64 then Inl (Err ''next block number overflows uint64'')
     else if c_IsAmsterdam X (ch_config c) (b_Number parent + 1) targetTime \<and> ch_slotDuration c = 0
     then Inl (Errf ''block generation failed: %v'' [ArgS ''integer divide by zero'']) else
     bindE (v_Prepare X (ch_blockchain c) (newHeader X c parent targetTime parentBeaconRoot extra feeRecipient)) (\<lambda>h.
     bindE (case initialState of Some s \<Rightarrow> Inr s | None \<Rightarrow> x_StateAt X (ch_blockchain c) (b_Header parent)) (\<lambda>s.
     let (s, pre) = v_PreExecution X (ch_blockchain c) h (b_Header parent) s in
     bindE (executeTransactions X E c skipInvalid
        \<lparr>gs_state = s, gs_gas = v_NewGasPool X (h_GasLimit h), gs_header = h, gs_accepted = [], gs_receipts = [],
         gs_logs = [], gs_accessList = v_Merge X (v_NewAccessList X) pre, gs_blocked = []\<rparr> txs) (\<lambda>g.
     finishBlock X c g withdrawals))))"

definition buildBlockAtSlot ::
  "('x, 's, 'g, 'al, 'z) evm_scheme \<Rightarrow> env \<Rightarrow> ('x, 's) executionChain \<Rightarrow> u64 \<Rightarrow> bool \<Rightarrow> hash
   \<Rightarrow> WithdrawalRequest list \<Rightarrow> u64 \<Rightarrow> error + 's generated" where
  "buildBlockAtSlot X E c slotDuration noTxs parentBeaconRoot withdrawalRequests targetSlot =
     (let (parentHash, parentHeader) = x_CurrentBlock X (ch_blockchain c);
          parent = x_GetBlock X (ch_blockchain c) parentHash (h_Number parentHeader) in
      bindE (assignedWithdrawals X (ch_blockchain c) parent withdrawalRequests) (\<lambda>withdrawals.
      bindE (executableTransactions X c) (\<lambda>txs.
      if targetSlot = 0 \<or> targetSlot \<le> ch_slot c
      then Inl (Err ''target block slot must advance the current slot'')
      else if slotDuration \<noteq> 0 \<and> targetSlot > (MaxUint64 - ch_genesisTime c) div slotDuration
      then Inl (Err ''next block timestamp overflows uint64'')
      else
        (case parent of
           None \<Rightarrow> Inl (Panic ''nil parent'')
         | Some p \<Rightarrow>
             bindE (newCandidateState X (ch_db c) (b_Root p)) (\<lambda>initialState.
             generateBlock X E c p (ch_genesisTime c + targetSlot * slotDuration) parentBeaconRoot
               (if noTxs then [] else txs) withdrawals True [] (Some initialState) None)))))"

definition buildBlock ::
  "('x, 's, 'g, 'al, 'z) evm_scheme \<Rightarrow> env \<Rightarrow> ('x, 's) executionChain \<Rightarrow> u64 \<Rightarrow> bool \<Rightarrow> hash
   \<Rightarrow> WithdrawalRequest list \<Rightarrow> error + u64 \<times> 's generated" where
  "buildBlock X E c slotDuration noTxs parentBeaconRoot withdrawalRequests =
     (let targetSlot = ch_slot c + 1 in
      if targetSlot = 0 then Inl (Err ''next block slot overflows uint64'')
      else bindE (buildBlockAtSlot X E c slotDuration noTxs parentBeaconRoot withdrawalRequests targetSlot) (\<lambda>g.
        Inr (targetSlot, g)))"

section \<open>Reading through\<close>

lemma map_of_sort_key: "distinct (map fst al) \<Longrightarrow> map_of (sort_key fst al) = map_of al"
  by (rule map_of_eqI) (auto simp: distinct_map)

lemma distinct_fold_update: "distinct (map fst al) \<Longrightarrow> distinct (map fst (fold (\<lambda>(k, v). AList.update k v) kvs al))"
  by (induction kvs arbitrary: al) (auto simp: distinct_update)

lemma map_of_fold_update:
  "map_of (fold (\<lambda>(k, v). AList.update k v) kvs al) = map_of al ++ map_of (rev kvs)"
proof (induction kvs arbitrary: al)
  case (Cons kv kvs)
  then show ?case by (cases kv) (auto simp: update_conv' map_add_def fun_eq_iff split: option.splits)
qed simp

abbreviation inRange :: "bytes \<Rightarrow> bytes \<Rightarrow> bytes \<Rightarrow> bool" where
  "inRange pre start k \<equiv> take (length pre) k = pre \<and> pre @ start \<le> k"

lemma map_of_memIterator:
  assumes "distinct (map fst entries)"
  shows "map_of (memIterator entries pre start) k = (if inRange pre start k then map_of entries k else None)"
proof -
  have "map_of (filter (\<lambda>(k, _). inRange pre start k) entries) k = (if inRange pre start k then map_of entries k else None)"
    by (induction entries) auto
  moreover have "distinct (map fst (filter (\<lambda>(k, _). inRange pre start k) entries))"
    using assms by (rule distinct_map_filter)
  ultimately show ?thesis by (simp add: memIterator_def map_of_sort_key)
qed

lemma distinct_memIterator: "distinct (map fst entries) \<Longrightarrow> distinct (map fst (memIterator entries pre start))"
  by (simp add: memIterator_def distinct_map_filter distinct_map inj_on_def)

lemma map_of_rev: "distinct (map fst al) \<Longrightarrow> map_of (rev al) = map_of al"
  by (rule map_of_eqI) (auto simp: distinct_map)

text \<open>
  C33: The merged iterator of the candidate state agrees with its point reads: for a range given
  by prefix and start it yields exactly the keys in the range that a read finds, each with the value
  the read returns (the overlay wins over the base), in increasing order and without repetition.
\<close>

theorem candidate_iterator_agrees:
  assumes "distinct (map fst overlay)" "distinct (map fst entries)"
  shows "map_of (readThrough_NewIterator overlay (Some entries) pre start) k
      = (if inRange pre start k then readThrough_Get overlay (map_of entries) k else None)
    \<and> sorted (map fst (readThrough_NewIterator overlay (Some entries) pre start))
    \<and> distinct (map fst (readThrough_NewIterator overlay (Some entries) pre start))"
proof -
  let ?merged = "fold (\<lambda>(k, v). AList.update k v) (memIterator entries pre start @ memIterator overlay pre start) []"
  have dist: "distinct (map fst ?merged)" by (rule distinct_fold_update) simp
  have "map_of ?merged = map_of (memIterator entries pre start) ++ map_of (memIterator overlay pre start)"
    using assms by (simp add: map_of_fold_update map_of_rev distinct_memIterator)
  then have "inRange pre start k \<Longrightarrow> map_of ?merged k = readThrough_Get overlay (map_of entries) k"
    using assms by (auto simp: map_of_memIterator readThrough_Get_def map_add_def split: option.splits)
  then show ?thesis
    using map_of_memIterator[OF dist] distinct_memIterator[OF dist]
    by (simp add: readThrough_NewIterator_def) (simp add: memIterator_def)
qed

theorem candidate_iterator_agrees_witness:
  "distinct (map fst [([1, 2], [9]), ([1 :: byte, 4], [8 :: byte])]) \<and> distinct (map fst [([1, 2], [7 :: byte]), ([1 :: byte, 3], [6]), ([2], [5])])
   \<and> map_of (readThrough_NewIterator [([1, 2], [9]), ([1, 4], [8])] (Some [([1, 2], [7]), ([1, 3], [6]), ([2], [5])]) [1] []) [1, 3] = Some [6]"
  using candidate_iterator_agrees[of "[([1, 2], [9]), ([1, 4], [8])]" "[([1, 2], [7]), ([1, 3], [6]), ([2], [5])]" "[1]" "[]" "[1, 3]"]
  by (simp add: readThrough_Get_def)

section \<open>Withdrawal indices\<close>

lemma lastWithdrawalIndex_fuel:
  assumes numbers: "\<And>h n b. x_GetBlock X x h n = Some b \<Longrightarrow> b_Number b = n"
  shows "unat (b_Number b) \<le> fuel \<Longrightarrow> lastWithdrawalIndex X x fuel (Some b) = lastWithdrawalIndex X x (unat (b_Number b)) (Some b)"
proof (induction fuel arbitrary: b rule: less_induct)
  case (less fuel)
  show ?case
  proof (cases "b_Withdrawals b = [] \<and> b_Number b \<noteq> 0")
    case True
    then have pos: "unat (b_Number b) = Suc (unat (b_Number b - 1))" by (simp add: unat_minus_one unat_gt_0)
    with less.prems obtain k where k: "fuel = Suc k" by (cases fuel) auto
    show ?thesis
    proof (cases "x_GetBlock X x (b_ParentHash b) (b_Number b - 1)")
      case (Some p)
      then have "b_Number p = b_Number b - 1" by (rule numbers)
      then show ?thesis using True Some less.IH[of k p] less.prems pos k by (simp add: pos)
    qed (use True pos k in \<open>simp add: pos\<close>)
  qed auto
qed

lemma unat_of_nat_small: "n < 2 ^ 64 \<Longrightarrow> unat (of_nat n :: u64) = n"
  by (simp add: unat_of_nat take_bit_nat_eq_self)

text \<open>A chain of blocks, newest first, each with withdrawals assigned on top of its parent.\<close>

inductive assignedChain :: "('x, 's, 'z) execution_scheme \<Rightarrow> 'x \<Rightarrow> block list \<Rightarrow> bool" for X x where
  genesis: "b_Number g = 0 \<Longrightarrow> b_Withdrawals g = [] \<Longrightarrow> assignedChain X x [g]"
| extend: "assignedChain X x (p # bs) \<Longrightarrow> b_Number b = b_Number p + 1 \<Longrightarrow> b_Number b \<noteq> 0
    \<Longrightarrow> x_GetBlock X x (b_ParentHash b) (b_Number p) = Some p \<Longrightarrow> length requests \<le> maxWithdrawalsPerBlock
    \<Longrightarrow> assignedWithdrawals X x (Some p) requests = Inr ws \<Longrightarrow> b_Withdrawals b = (case ws of None \<Rightarrow> [] | Some l \<Rightarrow> l)
    \<Longrightarrow> assignedChain X x (b # p # bs)"

definition allWithdrawals :: "block list \<Rightarrow> Withdrawal list" where
  "allWithdrawals bs = concat (map b_Withdrawals (rev bs))"

lemma allWithdrawals_Cons [simp]: "allWithdrawals (b # bs) = allWithdrawals bs @ b_Withdrawals b" "allWithdrawals [] = []"
  by (simp_all add: allWithdrawals_def)

definition indexedFrom :: "nat \<Rightarrow> Withdrawal list \<Rightarrow> bool" where
  "indexedFrom n ws \<longleftrightarrow> map (\<lambda>w. unat (wd_Index w)) ws = [n..<n + length ws] \<and> n + length ws \<le> 2 ^ 64"

lemma indexedFrom_append: "indexedFrom n (as @ bs) \<longleftrightarrow> indexedFrom n as \<and> indexedFrom (n + length as) bs"
proof -
  have "[n..<n + length (as @ bs)] = [n..<n + length as] @ [n + length as..<n + length as + length bs]"
    using upt_add_eq_append[of n "n + length as" "length bs"] by (simp add: add.assoc)
  then show ?thesis by (auto simp: indexedFrom_def add.assoc)
qed

lemma assigned_indexed:
  assumes run: "assignedWithdrawals X x parent requests = Inr (Some ws)" and len: "length requests \<le> maxWithdrawalsPerBlock"
    and start: "nextWithdrawalIndex X x parent = Inr index"
  shows "indexedFrom (unat index) ws \<and> length ws = length requests \<and> requests \<noteq> []
    \<and> map (\<lambda>w. (wd_Validator w, wd_Address w, wd_Amount w)) ws = map (\<lambda>r. (wr_ValidatorIndex r, wr_Address r, wr_Amount r)) requests"
proof -
  have ne: "requests \<noteq> []" and room: "\<not> of_nat (length requests - 1) > MaxUint64 - index"
    and ws: "ws = map (\<lambda>(i, request). \<lparr>wd_Index = index + of_nat i, wd_Validator = wr_ValidatorIndex request,
          wd_Address = wr_Address request, wd_Amount = wr_Amount request\<rparr>) (enumerate 0 requests)"
    using run start by (auto simp: assignedWithdrawals_def split: if_splits)
  have small: "unat (of_nat k :: u64) = k" if "k \<le> 16" for k
    using that by (simp add: unat_of_nat take_bit_nat_eq_self)
  have fits: "unat index + (length requests - 1) \<le> 2 ^ 64 - 1"
  proof -
    have "unat (of_nat (length requests - 1) :: u64) \<le> unat (MaxUint64 - index)"
      using room by (simp add: word_le_nat_alt not_less)
    moreover have "unat (MaxUint64 - index) = 2 ^ 64 - 1 - unat index"
      by (simp add: unat_sub[OF word_n1_ge] unat_MaxUint64)
    moreover have "unat index \<le> 2 ^ 64 - 1" using word_n1_ge[of index] by (simp add: word_le_nat_alt unat_MaxUint64)
    ultimately show ?thesis using small[of "length requests - 1"] len by simp
  qed
  have "unat (index + of_nat i) = unat index + i" if "i < length requests" for i
    using that fits small[of i] len by (subst unat_add_lem[THEN iffD1]) auto
  then have "map (\<lambda>w. unat (wd_Index w)) ws = [unat index..<unat index + length ws]"
    by (intro nth_equalityI) (auto simp: ws nth_enumerate_eq)
  moreover have "length ws = length requests" by (simp add: ws)
  moreover have "unat index + length requests \<le> 2 ^ 64" using fits ne by (cases requests) auto
  moreover have "map (\<lambda>w. (wd_Validator w, wd_Address w, wd_Amount w)) ws = map (\<lambda>r. (wr_ValidatorIndex r, wr_Address r, wr_Amount r)) requests"
    by (intro nth_equalityI) (auto simp: ws nth_enumerate_eq)
  ultimately show ?thesis using ne by (simp add: indexedFrom_def)
qed

lemma assignedChain_next:
  "assignedChain X x bs \<Longrightarrow> indexedFrom 0 (allWithdrawals bs) \<and> (let n = length (allWithdrawals bs) in
     nextWithdrawalIndex X x (Some (hd bs)) = (if n = 2 ^ 64 then Inl ErrWithdrawalIndexOverflow else Inr (of_nat n)))"
proof (induction rule: assignedChain.induct)
  case (genesis g)
  then show ?case by (simp add: indexedFrom_def nextWithdrawalIndex_def)
next
  case (extend p bs b requests ws)
  let ?n = "length (allWithdrawals (p # bs))"
  note IH = extend.IH[unfolded Let_def list.sel]
  have step: "unat (b_Number b) = Suc (unat (b_Number p))" proof -
    have "b_Number p \<noteq> - 1" using extend.hyps(2,3) by auto
    then show ?thesis using extend.hyps(2) by (simp add: unat_inc)
  qed
  show ?case
  proof (cases "b_Withdrawals b = []")
    case True
    have "nextWithdrawalIndex X x (Some b) = nextWithdrawalIndex X x (Some p)"
      using True extend.hyps step by (simp add: nextWithdrawalIndex_def)
    with IH True show ?thesis by simp
  next
    case False
    then obtain l where l: "ws = Some l" "b_Withdrawals b = l" "l \<noteq> []" using extend.hyps by (cases ws) auto
    have bound: "?n < 2 ^ 64" and index: "nextWithdrawalIndex X x (Some p) = Inr (of_nat ?n)"
      using extend.hyps l IH by (auto simp: assignedWithdrawals_def indexedFrom_def split: if_splits)
    have unat: "unat (of_nat ?n :: u64) = ?n" by (rule unat_of_nat_small[OF bound])
    have indexed: "indexedFrom ?n l"
      using assigned_indexed[OF _ extend.hyps(5) index] extend.hyps l unat by auto
    have "last (map (\<lambda>w. unat (wd_Index w)) l) = ?n + length l - 1"
      using indexed l(3) by (simp add: indexedFrom_def last_upt)
    then have lastIndex: "unat (wd_Index (last l)) = ?n + length l - 1" using l(3) by (simp add: last_map)
    have "wd_Index (last l) = MaxUint64 \<longleftrightarrow> ?n + length l = 2 ^ 64"
      using lastIndex l(3) by (cases l) (auto simp: unsigned_word_eqI unat_MaxUint64 word_unat_eq_iff)
    moreover have "wd_Index (last l) + 1 = of_nat (?n + length l)"
    proof -
      have "of_nat (unat (wd_Index (last l))) = wd_Index (last l)" by simp
      then have "wd_Index (last l) = of_nat (?n + length l - 1)" unfolding lastIndex ..
      then show ?thesis using l(3) by (cases l) simp_all
    qed
    ultimately have "nextWithdrawalIndex X x (Some b)
        = (if ?n + length l = 2 ^ 64 then Inl ErrWithdrawalIndexOverflow else Inr (of_nat (?n + length l)))"
      using l by (simp add: nextWithdrawalIndex_def Let_def)
    then show ?thesis using IH indexed l by (simp add: indexedFrom_append)
  qed
qed

text \<open>
  C34: Withdrawal indices are global and contiguous. On any chain whose blocks had their withdrawals
  assigned on top of their parents, the indices of all withdrawals from the genesis on are exactly 0,
  1, 2 and so on, none repeated and none skipped; when all indices of 64 bits are used the next
  assignment is an error and never wraps around.
\<close>

theorem withdrawal_indices_contiguous:
  assumes "assignedChain X x bs"
  shows "map (\<lambda>w. unat (wd_Index w)) (allWithdrawals bs) = [0..<length (allWithdrawals bs)]
    \<and> (requests \<noteq> [] \<longrightarrow> length (allWithdrawals bs) = 2 ^ 64
         \<longrightarrow> assignedWithdrawals X x (Some (hd bs)) requests = Inl ErrWithdrawalIndexOverflow)"
  using assignedChain_next[OF assms] by (auto simp: indexedFrom_def Let_def assignedWithdrawals_def)

definition withdrawalBlock :: block where
  "withdrawalBlock = emptyBlock\<lparr>b_Hash := 101, b_Header := zeroHeader\<lparr>h_ParentHash := 100, h_Number := 1\<rparr>,
     b_Withdrawals := [\<lparr>wd_Index = 0, wd_Validator = 5, wd_Address = 6, wd_Amount = 7\<rparr>,
                       \<lparr>wd_Index = 1, wd_Validator = 8, wd_Address = 9, wd_Amount = 10\<rparr>]\<rparr>"

theorem withdrawal_indices_contiguous_witness:
  "assignedChain memExecution genesisChain [withdrawalBlock, exampleGenesis]
   \<and> map (\<lambda>w. unat (wd_Index w)) (allWithdrawals [withdrawalBlock, exampleGenesis]) = [0, 1]"
proof -
  have assigned: "assignedWithdrawals memExecution genesisChain (Some exampleGenesis)
      [\<lparr>wr_ValidatorIndex = 5, wr_Address = 6, wr_Amount = 7\<rparr>, \<lparr>wr_ValidatorIndex = 8, wr_Address = 9, wr_Amount = 10\<rparr>]
      = Inr (Some (b_Withdrawals withdrawalBlock))"
    by (simp add: assignedWithdrawals_def nextWithdrawalIndex_def exampleGenesis_def emptyBlock_def zeroHeader_def withdrawalBlock_def)
  have chain: "assignedChain memExecution genesisChain [withdrawalBlock, exampleGenesis]"
    by (rule assignedChain.extend[OF assignedChain.genesis _ _ _ _ assigned])
       (simp_all add: memExecution_def memBlock_def genesisChain_def exampleGenesis_def emptyBlock_def zeroHeader_def withdrawalBlock_def)
  show ?thesis using withdrawal_indices_contiguous[OF chain, of "[]"] chain
    by (simp add: withdrawalBlock_def exampleGenesis_def emptyBlock_def)
qed

section \<open>What a generated block holds\<close>

abbreviation withoutSidecar :: "tx \<Rightarrow> tx" where
  "withoutSidecar t \<equiv> t\<lparr>tx_Sidecar := None\<rparr>"

abbreviation sentBy :: "(tx \<Rightarrow> error + address) \<Rightarrow> address \<Rightarrow> tx list \<Rightarrow> tx list" where
  "sentBy sender a \<equiv> filter (\<lambda>t. sender t = Inr a)"

text \<open>The state of the loop after the transactions \<open>seen\<close>.\<close>

definition genOK ::
  "(tx \<Rightarrow> error + address) \<Rightarrow> header \<Rightarrow> bool \<Rightarrow> tx list \<Rightarrow> ('s, 'g, 'al) genState \<Rightarrow> bool" where
  "genOK sender h skipInvalid seen g \<longleftrightarrow>
     length (gs_receipts g) = length (gs_accepted g) \<and> subseq (gs_accepted g) (map withoutSidecar seen)
     \<and> (\<forall>a. prefix (sentBy sender a (gs_accepted g)) (sentBy sender a (map withoutSidecar seen)))
     \<and> (\<forall>a. a \<notin> set (gs_blocked g) \<longrightarrow> sentBy sender a (gs_accepted g) = sentBy sender a (map withoutSidecar seen))
     \<and> (\<not> skipInvalid \<longrightarrow> gs_accepted g = map withoutSidecar seen \<and> gs_blocked g = [])
     \<and> (\<exists>used. gs_header g = h\<lparr>h_BlobGasUsed := used\<rparr>)"

lemma genOK_keep:
  assumes OK: "genOK sender h True seen g" and blocked: "\<And>a. sender (withoutSidecar t) = Inr a \<Longrightarrow> a \<in> set bs"
    and sub: "set (gs_blocked g) \<subseteq> set bs"
  shows "genOK sender h True (seen @ [t]) (g\<lparr>gs_blocked := bs\<rparr>)"
proof -
  have "sentBy sender a (gs_accepted g) = sentBy sender a (map withoutSidecar (seen @ [t]))" if "a \<notin> set bs" for a
    using OK blocked[of a] sub that by (auto simp: genOK_def)
  moreover have "prefix (sentBy sender a (gs_accepted g)) (sentBy sender a (map withoutSidecar (seen @ [t])))" for a
    using OK prefix_prefix[of "sentBy sender a (gs_accepted g)" "sentBy sender a (map withoutSidecar seen)"]
    by (simp add: genOK_def)
  moreover have "subseq (gs_accepted g) (map withoutSidecar (seen @ [t]))"
    using OK by (simp add: genOK_def subseq_rev_drop_many)
  ultimately show ?thesis using OK by (simp add: genOK_def)
qed

lemma genOK_accept:
  assumes OK: "genOK sender h skipInvalid seen g" and sender: "sender (withoutSidecar t) = Inr a" "a \<notin> set (gs_blocked g)"
    and g': "gs_accepted g' = gs_accepted g @ [withoutSidecar t]" "length (gs_receipts g') = Suc (length (gs_receipts g))"
      "gs_blocked g' = gs_blocked g" "\<exists>used. gs_header g' = h\<lparr>h_BlobGasUsed := used\<rparr>"
  shows "genOK sender h skipInvalid (seen @ [t]) g'"
proof -
  have all: "sentBy sender a' (gs_accepted g) = sentBy sender a' (map withoutSidecar seen)" if "a' \<notin> set (gs_blocked g)" for a'
    using OK that by (simp add: genOK_def)
  have "prefix (sentBy sender a' (gs_accepted g')) (sentBy sender a' (map withoutSidecar (seen @ [t])))" for a'
    using OK all[OF sender(2)] sender(1) by (cases "a' = a") (simp_all add: genOK_def g')
  moreover have "subseq (gs_accepted g') (map withoutSidecar (seen @ [t]))"
    using OK by (simp add: genOK_def g')
  moreover have "sentBy sender a' (gs_accepted g') = sentBy sender a' (map withoutSidecar (seen @ [t]))"
    if "a' \<notin> set (gs_blocked g')" for a'
    using all[of a'] that by (simp add: g')
  ultimately show ?thesis using OK g' by (simp add: genOK_def)
qed

lemma executeOne_OK:
  assumes OK: "genOK (t_Sender X (ch_config c) (h_Number h) (h_Time h)) h skipInvalid seen g"
    and run: "executeOne X E c skipInvalid g (i, t) = Inr g'"
  shows "genOK (t_Sender X (ch_config c) (h_Number h) (h_Time h)) h skipInvalid (seen @ [t]) g'"
proof -
  let ?send = "t_Sender X (ch_config c) (h_Number h) (h_Time h)" and ?t = "withoutSidecar t"
  obtain used where head: "gs_header g = h\<lparr>h_BlobGasUsed := used\<rparr>" using OK by (auto simp: genOK_def)
  have ctx: "e_ctxErr E i = None" using run by (auto simp: executeOne_def split: option.splits)
  have unblocked: "\<not> skipInvalid \<Longrightarrow> gs_blocked g = []" using OK by (simp add: genOK_def)
  note step = run[unfolded executeOne_def Let_def prod.case ctx option.case bindE_Inr]
  show ?thesis
  proof (cases "?send ?t")
    case (Inl e)
    with step head have "skipInvalid" "g' = g" by (simp_all split: if_splits)
    then show ?thesis using genOK_keep[OF OK[unfolded \<open>skipInvalid\<close>[THEN eqTrueI]], of t "gs_blocked g"] Inl by simp
  next
    case (Inr a)
    show ?thesis
    proof (cases "a \<in> set (gs_blocked g)")
      case True
      with step head Inr have g': "g' = g" by simp
      from True unblocked have skipInvalid by (cases skipInvalid) auto
      then show ?thesis using genOK_keep[of ?send h seen g t "gs_blocked g"] OK Inr True g' by simp
    next
      case False
      note step' = step[unfolded head, simplified, simplified Inr sum.case, simplified False if_False]
      show ?thesis
      proof (cases "v_TransactionToMessage X (ch_config c) (gs_header g) ?t")
        case (Inl e)
        with step' head have "skipInvalid" "g' = g\<lparr>gs_blocked := a # gs_blocked g\<rparr>" by (simp_all split: if_splits)
        then show ?thesis using genOK_keep[of ?send h seen g t "a # gs_blocked g"] OK Inr by auto
      next
        case message: (Inr u)
        show ?thesis
        proof (cases "v_ApplyTransaction X (ch_blockchain c) (gs_header g) (length (gs_accepted g)) ?t (gs_gas g) (gs_state g)")
          case (Inl e)
          with step' head message have "skipInvalid" "g' = g\<lparr>gs_blocked := a # gs_blocked g\<rparr>" by (simp_all split: if_splits)
          then show ?thesis using genOK_keep[of ?send h seen g t "a # gs_blocked g"] OK Inr by auto
        next
          case applied: (Inr res)
          obtain r al gas s where res: "res = (r, al, gas, s)" by (cases res) auto
          with step' head message applied have "gs_accepted g' = gs_accepted g @ [?t]"
            "length (gs_receipts g') = Suc (length (gs_receipts g))" "gs_blocked g' = gs_blocked g"
            "gs_header g' = h\<lparr>h_BlobGasUsed := map_option (\<lambda>used. used + rc_BlobGasUsed r) (h_BlobGasUsed (gs_header g))\<rparr>" by auto
          then show ?thesis using genOK_accept[OF OK Inr False] by auto
        qed
      qed
    qed
  qed
qed

lemma executeTransactions_OK:
  assumes "foldE (executeOne X E c skipInvalid) g (enumerate k txs) = Inr g'"
    and "genOK (t_Sender X (ch_config c) (h_Number h) (h_Time h)) h skipInvalid seen g"
  shows "genOK (t_Sender X (ch_config c) (h_Number h) (h_Time h)) h skipInvalid (seen @ txs) g'"
  using assms
proof (induction txs arbitrary: k g seen)
  case (Cons t txs)
  from Cons.prems(1) obtain g1 where g1: "executeOne X E c skipInvalid g (k, t) = Inr g1"
    "foldE (executeOne X E c skipInvalid) g1 (enumerate (Suc k) txs) = Inr g'"
    by (auto simp: err_simps)
  from Cons.IH[OF g1(2) executeOne_OK[OF Cons.prems(2) g1(1)]] show ?case by simp
qed simp

text \<open>
  What the builder relies on: \<open>Prepare\<close> of the Beacon engine sets the difficulty only, assembling a block keeps the
  body and fills in the roots, and deriving receipt fields keeps the receipts.
\<close>

definition lawfulEvm :: "('x, 's, 'g, 'al, 'z) evm_scheme \<Rightarrow> bool" where
  "lawfulEvm X \<longleftrightarrow>
     (\<forall>x h h'. v_Prepare X x h = Inr h' \<longrightarrow> (\<exists>d. h' = h\<lparr>h_Difficulty := d\<rparr>))
     \<and> (\<forall>x h s txs ws rs al. let b = v_AssembleBlock X x h s txs ws rs al in
          b_Transactions b = txs \<and> b_Withdrawals b = (case ws of None \<Rightarrow> [] | Some l \<Rightarrow> l)
          \<and> (\<exists>root receiptHash bloom alHash. b_Header b = h\<lparr>h_Root := root, h_ReceiptHash := receiptHash, h_Bloom := bloom,
               h_BlockAccessListHash := alHash\<rparr>))
     \<and> (\<forall>config b fee rs rs'. v_DeriveFields X config b fee rs = Inr rs' \<longrightarrow> length rs' = length rs)"

lemma lawfulEvmD:
  assumes "lawfulEvm X"
  shows "v_Prepare X x h = Inr h' \<Longrightarrow> \<exists>d. h' = h\<lparr>h_Difficulty := d\<rparr>"
    and "b_Transactions (v_AssembleBlock X x h s txs ws rs al) = txs"
    and "b_Withdrawals (v_AssembleBlock X x h s txs ws rs al) = (case ws of None \<Rightarrow> [] | Some l \<Rightarrow> l)"
    and "\<exists>root receiptHash bloom alHash. b_Header (v_AssembleBlock X x h s txs ws rs al) = h\<lparr>h_Root := root,
           h_ReceiptHash := receiptHash, h_Bloom := bloom, h_BlockAccessListHash := alHash\<rparr>"
    and "v_DeriveFields X config b fee rs = Inr rs' \<Longrightarrow> length rs' = length rs"
  using assms unfolding lawfulEvm_def Let_def by blast+

text \<open>The run of \<open>generateBlock\<close> as its intermediate results.\<close>

lemma finishBlock_run:
  assumes "finishBlock X c g withdrawals = Inr out"
  obtains requests h al s where
    "h = (case requests of None \<Rightarrow> (gs_header g)\<lparr>h_GasUsed := v_GasUsed X (gs_gas g)\<rparr>
       | Some rs \<Rightarrow> (gs_header g)\<lparr>h_GasUsed := v_GasUsed X (gs_gas g), h_RequestsHash := Some (v_CalcRequestsHash X rs)\<rparr>)"
    "ge_block out = v_AssembleBlock X (ch_blockchain c) h s (gs_accepted g)
       (if c_IsShanghai X (ch_config c) (h_Number h) (h_Time h) \<and> withdrawals = None then Some [] else withdrawals) (gs_receipts g) al"
    "deriveReceiptFields X c (ge_block out) (gs_receipts g) = Inr (ge_receipts out)"
    "verifyExecutionRequestsHash (v_CalcRequestsHash X) (ge_block out) requests = Inr ()" "ge_requests out = requests"
proof -
  let ?h0 = "(gs_header g)\<lparr>h_GasUsed := v_GasUsed X (gs_gas g)\<rparr>"
  obtain requests ra s0 where post:
    "v_PostExecution X (ch_blockchain c) ?h0 (gs_logs g) (length (gs_accepted g) + 1) (gs_state g) = Inr (requests, ra, s0)"
    using assms by (auto simp: finishBlock_def bindE_eq_Inr Let_def)
  define h where "h = (case requests of None \<Rightarrow> ?h0 | Some rs \<Rightarrow> ?h0\<lparr>h_RequestsHash := Some (v_CalcRequestsHash X rs)\<rparr>)"
  define body where "body = (if c_IsShanghai X (ch_config c) (h_Number h) (h_Time h) \<and> withdrawals = None then Some [] else withdrawals)"
  obtain s al where fin: "v_Finalize X (ch_blockchain c) h (gs_accepted g) body (length (gs_accepted g) + 1) (v_Merge X (gs_accessList g) ra) s0 = (s, al)"
    by fastforce
  define b where "b = v_AssembleBlock X (ch_blockchain c) h s (gs_accepted g) body (gs_receipts g) al"
  have "\<exists>receipts. deriveReceiptFields X c b (gs_receipts g) = Inr receipts \<and> verifyExecutionRequestsHash (v_CalcRequestsHash X) b requests = Inr ()
     \<and> out = \<lparr>ge_block = b, ge_receipts = receipts, ge_state = s, ge_requests = requests\<rparr>"
    using assms
    unfolding finishBlock_def Let_def post bindE_Inr prod.case h_def [symmetric] body_def [symmetric] fin b_def [symmetric]
    by (auto simp: bindE_eq_Inr)
  then show thesis using that[of h requests s al] by (auto simp: h_def b_def body_def split: option.splits)
qed

lemma generateBlock_run:
  assumes "generateBlock X E c parent targetTime parentBeaconRoot txs withdrawals skipInvalid extra initialState feeRecipient = Inr out"
  obtains h g s0 al0 where "b_Number parent \<noteq> MaxUint64"
    "v_Prepare X (ch_blockchain c) (newHeader X c parent targetTime parentBeaconRoot extra feeRecipient) = Inr h"
    "executeTransactions X E c skipInvalid \<lparr>gs_state = s0, gs_gas = v_NewGasPool X (h_GasLimit h), gs_header = h, gs_accepted = [],
       gs_receipts = [], gs_logs = [], gs_accessList = al0, gs_blocked = []\<rparr> txs = Inr g"
    "finishBlock X c g withdrawals = Inr out"
  using assms by (auto simp: generateBlock_def bindE_eq_Inr Let_def if_Inl_eq_Inr case_prod_beta intro: that)

lemma generated_block:
  assumes run: "generateBlock X E c parent targetTime parentBeaconRoot txs withdrawals skipInvalid extra initialState feeRecipient = Inr out"
    and X: "lawfulEvm X"
  defines "b \<equiv> ge_block out"
  shows "b_ParentHash b = b_Hash parent \<and> unat (b_Number b) = unat (b_Number parent) + 1 \<and> b_Time b = targetTime
    \<and> b_Withdrawals b = (case withdrawals of None \<Rightarrow> [] | Some l \<Rightarrow> l)
    \<and> subseq (b_Transactions b) (map withoutSidecar txs)
    \<and> (\<forall>a. prefix (sentBy (t_Sender X (ch_config c) (b_Number b) (b_Time b)) a (b_Transactions b))
         (sentBy (t_Sender X (ch_config c) (b_Number b) (b_Time b)) a (map withoutSidecar txs)))
    \<and> (skipInvalid \<or> b_Transactions b = map withoutSidecar txs)
    \<and> length (ge_receipts out) = length (b_Transactions b)
    \<and> verifyExecutionRequestsHash (v_CalcRequestsHash X) b (ge_requests out) = Inr ()"
proof -
  from run obtain h g s0 al0 where g: "b_Number parent \<noteq> MaxUint64"
    "v_Prepare X (ch_blockchain c) (newHeader X c parent targetTime parentBeaconRoot extra feeRecipient) = Inr h"
    "executeTransactions X E c skipInvalid \<lparr>gs_state = s0, gs_gas = v_NewGasPool X (h_GasLimit h), gs_header = h, gs_accepted = [],
       gs_receipts = [], gs_logs = [], gs_accessList = al0, gs_blocked = []\<rparr> txs = Inr g"
    "finishBlock X c g withdrawals = Inr out"
    by (rule generateBlock_run)
  have h: "h_ParentHash h = b_Hash parent" "h_Number h = b_Number parent + 1" "h_Time h = targetTime"
    using lawfulEvmD(1)[OF X g(2)] by (auto simp: newHeader_def Let_def)
  have OK: "genOK (t_Sender X (ch_config c) (h_Number h) (h_Time h)) h skipInvalid txs g"
    using executeTransactions_OK[OF g(3)[unfolded executeTransactions_def], of h "[]"] exI[of "\<lambda>used. h = h\<lparr>h_BlobGasUsed := used\<rparr>" "h_BlobGasUsed h"]
    by (simp add: genOK_def)
  then obtain used where head: "gs_header g = h\<lparr>h_BlobGasUsed := used\<rparr>" by (auto simp: genOK_def)
  from g(4) obtain requests h' al s where f:
    "h' = (case requests of None \<Rightarrow> (gs_header g)\<lparr>h_GasUsed := v_GasUsed X (gs_gas g)\<rparr>
       | Some rs \<Rightarrow> (gs_header g)\<lparr>h_GasUsed := v_GasUsed X (gs_gas g), h_RequestsHash := Some (v_CalcRequestsHash X rs)\<rparr>)"
    "b = v_AssembleBlock X (ch_blockchain c) h' s (gs_accepted g)
       (if c_IsShanghai X (ch_config c) (h_Number h') (h_Time h') \<and> withdrawals = None then Some [] else withdrawals) (gs_receipts g) al"
    "deriveReceiptFields X c b (gs_receipts g) = Inr (ge_receipts out)"
    "verifyExecutionRequestsHash (v_CalcRequestsHash X) b requests = Inr ()" "ge_requests out = requests"
    unfolding b_def by (rule finishBlock_run)
  have h': "h_ParentHash h' = h_ParentHash h" "h_Number h' = h_Number h" "h_Time h' = h_Time h"
    using f(1) head by (simp_all split: option.splits)
  have hb: "h_ParentHash (b_Header b) = h_ParentHash h" "h_Number (b_Header b) = h_Number h" "h_Time (b_Header b) = h_Time h"
  proof -
    obtain root receiptHash bloom alHash where "b_Header b = h'\<lparr>h_Root := root,
           h_ReceiptHash := receiptHash, h_Bloom := bloom, h_BlockAccessListHash := alHash\<rparr>"
      using lawfulEvmD(4)[OF X] unfolding f(2) by blast
    then show "h_ParentHash (b_Header b) = h_ParentHash h" "h_Number (b_Header b) = h_Number h" "h_Time (b_Header b) = h_Time h"
      using h' by simp_all
  qed
  have body: "b_Transactions b = gs_accepted g" "b_Withdrawals b = (case withdrawals of None \<Rightarrow> [] | Some l \<Rightarrow> l)"
    using lawfulEvmD(2,3)[OF X] unfolding f(2) by (simp_all split: option.splits)
  have "length (ge_receipts out) = length (gs_receipts g)"
    using f(3) lawfulEvmD(5)[OF X] by (auto simp: deriveReceiptFields_def)
  moreover have "unat (b_Number parent + 1) = unat (b_Number parent) + 1"
    using g(1) by (simp add: unat_inc)
  ultimately show ?thesis using OK f(4,5) hb h body by (simp add: genOK_def) blast
qed


text \<open>
  C8: A generated block extends its parent and includes a fair part of the candidate transactions. Its
  parent is the given one, its number is one more and has not wrapped around, its time is the target
  time, and its withdrawals are the given ones. The transactions are a subsequence of the candidates;
  of each sender they are the first ones, so no transaction is included after an earlier one of the same
  sender was left out, and with \<open>skipInvalid\<close> off all are included. There is one receipt for each,
  and the requests pass the check against the hash in the header.
\<close>

theorem generated_block_extends_parent:
  assumes run: "generateBlock X E c parent targetTime parentBeaconRoot txs withdrawals skipInvalid extra initialState feeRecipient = Inr out"
    and X: "lawfulEvm X"
  defines "b \<equiv> ge_block out"
  shows "b_ParentHash b = b_Hash parent \<and> unat (b_Number b) = unat (b_Number parent) + 1 \<and> b_Time b = targetTime
    \<and> b_Withdrawals b = (case withdrawals of None \<Rightarrow> [] | Some l \<Rightarrow> l)
    \<and> subseq (b_Transactions b) (map withoutSidecar txs)
    \<and> (\<forall>a. prefix (sentBy (t_Sender X (ch_config c) (b_Number b) (b_Time b)) a (b_Transactions b))
         (sentBy (t_Sender X (ch_config c) (b_Number b) (b_Time b)) a (map withoutSidecar txs)))
    \<and> (skipInvalid \<or> b_Transactions b = map withoutSidecar txs)
    \<and> length (ge_receipts out) = length (b_Transactions b)
    \<and> verifyExecutionRequestsHash (v_CalcRequestsHash X) b (ge_requests out) = Inr ()"
  unfolding b_def by (rule generated_block[OF run X])

section \<open>An instance\<close>

text \<open>An EVM that accepts every transaction with a positive gas limit and counts gas.\<close>

definition memEvm :: "(memChain, (address \<times> u64) list, u64, unit) evm" where
  "memEvm = execution.extend memExecution
     \<lparr>v_CalcBaseFee = (\<lambda>_ _. 7), v_ElasticityMultiplier = (\<lambda>_. 2), v_CalcGasLimit = (\<lambda>g _. g), v_CalcExcessBlobGas = (\<lambda>_ _ _. 0),
      v_CalcBlobFee = (\<lambda>_ _. 1), v_Prepare = (\<lambda>_ h. Inr (h\<lparr>h_Difficulty := 0\<rparr>)), v_OpenState = (\<lambda>_ _. Inr []),
      v_NewAccessList = (), v_Merge = (\<lambda>_ _. ()), v_PreExecution = (\<lambda>_ _ _ s. (s, ())), v_NewGasPool = id, v_GasUsed = (\<lambda>g. 100 - g),
      v_TransactionToMessage = (\<lambda>_ _ _. Inr ()),
      v_ApplyTransaction = (\<lambda>_ _ _ t g s. if tx_GasTipCap t = 0 then Inl (Err ''tip'') else
         Inr (\<lparr>rc_TxHash = tx_Hash t, rc_GasUsed = 1, rc_BlobGasUsed = 0, rc_Logs = [], rc_BlockHash = 0, rc_BlockNumber = 0\<rparr>, (), g - 1, s)),
      v_PostExecution = (\<lambda>_ _ _ _ s. Inr (None, (), s)), v_CalcRequestsHash = (\<lambda>_. 77), v_HeaderHash = (\<lambda>h. 200 + ucast (h_Number h)),
      v_Finalize = (\<lambda>_ _ _ _ _ al s. (s, al)), v_StateError = (\<lambda>_. None),
      v_AssembleBlock = (\<lambda>_ h _ txs ws _ _. emptyBlock\<lparr>b_Hash := 200 + ucast (h_Number h), b_Header := h, b_Transactions := txs,
         b_Withdrawals := (case ws of None \<Rightarrow> [] | Some l \<Rightarrow> l)\<rparr>),
      v_ValidateAccessList = (\<lambda>_ _ _. Inr ()), v_DeriveFields = (\<lambda>_ _ _ rs. Inr rs), v_Commit = (\<lambda>_ _. Inr (0, [])),
      v_TrieCommit = (\<lambda>_ _. Inr [])\<rparr>"

lemma memEvm_simps [simp]:
  "v_CalcBaseFee memEvm = (\<lambda>_ _. 7)" "v_Prepare memEvm = (\<lambda>_ h. Inr (h\<lparr>h_Difficulty := 0\<rparr>))" "v_OpenState memEvm = (\<lambda>_ _. Inr [])"
  "v_PreExecution memEvm = (\<lambda>_ _ _ s. (s, ()))" "v_NewGasPool memEvm = id"
  "v_TransactionToMessage memEvm = (\<lambda>_ _ _. Inr ())"
  "v_PostExecution memEvm = (\<lambda>_ _ _ _ s. Inr (None, (), s))" "v_CalcRequestsHash memEvm = (\<lambda>_. 77)"
  "v_Finalize memEvm = (\<lambda>_ _ _ _ _ al s. (s, al))" "v_StateError memEvm = (\<lambda>_. None)"
  "v_ValidateAccessList memEvm = (\<lambda>_ _ _. Inr ())" "v_DeriveFields memEvm = (\<lambda>_ _ _ rs. Inr rs)"
  "v_Commit memEvm = (\<lambda>_ _. Inr (0, []))" "v_TrieCommit memEvm = (\<lambda>_ _. Inr [])"
  "v_CalcExcessBlobGas memEvm = (\<lambda>_ _ _. 0)" "v_CalcBlobFee memEvm = (\<lambda>_ _. 1)"
  "x_CurrentBlock memEvm = x_CurrentBlock memExecution" "x_GetBlock memEvm = x_GetBlock memExecution"
  "x_GetBlockByHash memEvm = x_GetBlockByHash memExecution" "x_StateAt memEvm = x_StateAt memExecution"
  "c_IsLondon memEvm = c_IsLondon memExecution" "c_IsShanghai memEvm = c_IsShanghai memExecution"
  "c_IsCancun memEvm = c_IsCancun memExecution" "c_IsPrague memEvm = c_IsPrague memExecution"
  "c_IsOsaka memEvm = c_IsOsaka memExecution" "c_IsAmsterdam memEvm = c_IsAmsterdam memExecution"
  "t_Sender memEvm = t_Sender memExecution"
  by (simp_all add: memEvm_def execution.defs)

lemma memEvm_lawful: "lawfulEvm memEvm"
proof -
  have "\<exists>d. h\<lparr>h_Difficulty := 0\<rparr> = h\<lparr>h_Difficulty := d\<rparr>" for h :: header by blast
  moreover have "\<exists>root receiptHash bloom alHash. h = h\<lparr>h_Root := root, h_ReceiptHash := receiptHash, h_Bloom := bloom,
               h_BlockAccessListHash := alHash\<rparr>" for h :: header
    by (intro exI[of _ "h_Root h"] exI[of _ "h_ReceiptHash h"] exI[of _ "h_Bloom h"] exI[of _ "h_BlockAccessListHash h"]) simp
  ultimately show ?thesis by (simp add: lawfulEvm_def Let_def memEvm_def execution.defs)
qed

text \<open>Two transactions of one sender and one of another that is left out.\<close>

definition exampleTxs :: "tx list" where
  "exampleTxs = [exampleTx 11 0, (exampleTx 12 0)\<lparr>tx_Cost := 5, tx_GasTipCap := 0\<rparr>, exampleTx 13 1]"

lemma example_generated:
  "\<exists>out. generateBlock memEvm calm exampleChain exampleGenesis 1012 5 exampleTxs None True [] (Some []) None = Inr out"
  by (simp add: generateBlock_def finishBlock_def executeTransactions_def executeOne_def exampleTxs_def calm_def memExecution_def
      exampleTx_def memEvm_def execution.defs Let_def deriveReceiptFields_def verifyExecutionRequestsHash_def newHeader_def exampleGenesis_def
      emptyBlock_def zeroHeader_def exampleChain_def exampleConfig_def executionChainConfig_def)

theorem generated_block_extends_parent_witness:
  "lawfulEvm memEvm \<and> (\<exists>out. generateBlock memEvm calm exampleChain exampleGenesis 1012 5 exampleTxs None True [] (Some []) None = Inr out
     \<and> b_ParentHash (ge_block out) = 100 \<and> unat (b_Number (ge_block out)) = 1 \<and> b_Time (ge_block out) = 1012
     \<and> subseq (b_Transactions (ge_block out)) (map withoutSidecar exampleTxs)
     \<and> length (ge_receipts out) = length (b_Transactions (ge_block out)))"
proof -
  obtain out where out: "generateBlock memEvm calm exampleChain exampleGenesis 1012 5 exampleTxs None True [] (Some []) None = Inr out"
    using example_generated by blast
  show ?thesis
    using generated_block_extends_parent[OF out memEvm_lawful] out memEvm_lawful
    by (auto simp: exampleGenesis_def emptyBlock_def zeroHeader_def)
qed

end
