(* ===== verification/Mirror.thy ===== *)
theory Mirror
  imports Recovery
begin

text \<open>
  Memory and store in step: which stored value belongs to every part of the node's state, and how the
  two kinds of commit (\<open>src/commit.go\<close>) carry that from the state before to the state after.
\<close>

section \<open>What the store should hold\<close>

text \<open>
  The keys with one stored value for a part of the node: the schema version, the timeline, the session's safety, the slot
  indices, the safety of blocks, checkpoints and branches; and no journal while nothing is underway.
\<close>

fun tracked :: "dbkey \<Rightarrow> bool" where
  "tracked KSchema = True"
| "tracked KTimeline = True"
| "tracked KSession = True"
| "tracked KJournal = True"
| "tracked (KCanonicalSlot s) = True"
| "tracked (KBlockSlot h) = True"
| "tracked (KBlockSafety h) = True"
| "tracked (KCheckpoint s) = True"
| "tracked (KBranch s) = True"
| "tracked k = False"

fun expected :: "('x, 's) Node \<Rightarrow> dbkey \<Rightarrow> cell option" where
  "expected n KSchema = Some (Val (Raw (be_bytes 8 (word_of_int currentMetadataFormat :: u64))))"
| "expected n KTimeline = Some (Val (VTimeline (timeline (nd_chain n))))"
| "expected n KSession = Some (Val (VSession (sessionSafety (nd_chain n))))"
| "expected n (KCanonicalSlot s) = map_option (\<lambda>h. Val (Raw (arr_bytes h))) (map_of (ch_canonicalBlockBySlot (nd_chain n)) s)"
| "expected n (KBlockSlot h) = map_option (\<lambda>s. Val (Raw (be_bytes 8 s))) (map_of (ch_slotByHash (nd_chain n)) h)"
| "expected n (KBlockSafety h) = map_option (\<lambda>s. Val (VSafety s)) (map_of (ch_blockSafety (nd_chain n)) h)"
| "expected n (KCheckpoint s) = map_option (\<lambda>p. Val (kv_Value (checkpointPut s p))) (map_of (nd_checkpoints n) s)"
| "expected n (KBranch s) = map_option (\<lambda>b. Val (kv_Value (branchPut b))) (map_of (nd_branches n) s)"
| "expected n k = None"

definition queueStored :: "executionRequestQueue \<Rightarrow> database \<Rightarrow> bool" where
  "queueStored q db \<longleftrightarrow> validateExecutionRequestQueue q = Inr ()
     \<and> (case map_of db KQueue of None \<Rightarrow> q = newExecutionRequestQueue | Some v \<Rightarrow> v = Val (VQueue q))"

text \<open>The keys of the in-memory maps agree with the entries they lead to.\<close>

definition keyed :: "('x, 's) Node \<Rightarrow> bool" where
  "keyed n \<longleftrightarrow> (\<forall>h s. map_of (ch_blockSafety (nd_chain n)) h = Some s \<longrightarrow> bs_BlockHash s = h)
     \<and> (\<forall>name p. map_of (nd_checkpoints n) name = Some p \<longrightarrow> name \<noteq> [] \<and> \<not> cp_used p)
     \<and> (\<forall>name b. map_of (nd_branches n) name = Some b \<longrightarrow> name \<noteq> [] \<and> br_name b = name)"

definition mirror :: "('x, 's) Node \<Rightarrow> bool" where
  "mirror n \<longleftrightarrow> (\<forall>k. tracked k \<longrightarrow> map_of (ch_db (nd_chain n)) k = expected n k)
     \<and> queueStored (nd_pendingExecutionRequests n) (ch_db (nd_chain n))
     \<and> keyed n \<and> elog.consistent (nd_events n) \<and> storedLog (nd_events n) (ch_db (nd_chain n))"

text \<open>A failed write leaves the store unknown; from then on writes are disabled.\<close>

definition inStep :: "('x, 's) Node \<Rightarrow> bool" where
  "inStep n \<longleftrightarrow> nd_writeErr n \<noteq> None \<or> mirror n"

lemma expected_cong:
  assumes "timeline (nd_chain n) = timeline (nd_chain n')" "sessionSafety (nd_chain n) = sessionSafety (nd_chain n')"
    "ch_canonicalBlockBySlot (nd_chain n) = ch_canonicalBlockBySlot (nd_chain n')" "ch_slotByHash (nd_chain n) = ch_slotByHash (nd_chain n')"
    "ch_blockSafety (nd_chain n) = ch_blockSafety (nd_chain n')" "nd_checkpoints n = nd_checkpoints n'" "nd_branches n = nd_branches n'"
  shows "expected n k = expected n' k"
  using assms by (cases k) simp_all

lemma mirrorD:
  assumes "mirror n"
  shows "tracked k \<Longrightarrow> map_of (ch_db (nd_chain n)) k = expected n k"
    and "queueStored (nd_pendingExecutionRequests n) (ch_db (nd_chain n))" and "keyed n"
    and "elog.consistent (nd_events n)" and "storedLog (nd_events n) (ch_db (nd_chain n))"
    and "map_of (ch_db (nd_chain n)) KJournal = None"
  using assms by (simp_all add: mirror_def)

section \<open>Writes of the event log\<close>

lemma plan_keys:
  assumes "eventLog_plan l events = Inr plan"
  shows "kv_Key ` set (pl_puts plan) \<subseteq> insert KEventNext (range KEvent)" "set (pl_deletes plan) \<subseteq> range KEvent"
proof -
  show "set (pl_deletes plan) \<subseteq> range KEvent"
    using assms by (auto simp: eventLog_plan_eq Let_def split: if_splits)
  show "kv_Key ` set (pl_puts plan) \<subseteq> insert KEventNext (range KEvent)"
    using assms by (auto simp: eventLog_plan_eq Let_def split: if_splits)
qed

lemma storedLog_cong:
  assumes "storedLog l db" "distinct (map fst db')" "\<And>r. map_of db' (KEvent r) = map_of db (KEvent r)"
  shows "storedLog l db'"
  using assms by (simp add: storedLog_def)

lemma plan_consistent:
  assumes "elog.consistent l" "eventLog_plan l events = Inr plan"
  shows "elog.consistent (eventLog_apply l plan)"
proof (cases "pl_events plan = []")
  case True
  then show ?thesis using assms by (simp add: eventLog_apply_def)
next
  case False
  then have "eventStep l (pl_events plan) (eventLog_apply l plan)" using assms(2) by (auto simp: eventStep_def)
  then show ?thesis using elog.step_consistent[OF assms(1)] by blast
qed

section \<open>Auxiliary commits\<close>

definition auxiliaryState ::
  "journalKV list \<Rightarrow> dbkey list \<Rightarrow> eventPlan \<Rightarrow> (('x, 's) Node \<Rightarrow> ('x, 's) Node) \<Rightarrow> ('x, 's) Node \<Rightarrow> ('x, 's) Node" where
  "auxiliaryState puts dels plan f n =
     (let n = f (onChain (onDB (writeBatch (putOps (puts @ pl_puts plan) @ map BDelete (dels @ pl_deletes plan)))) n)
      in n\<lparr>nd_events := eventLog_apply (nd_events n) plan\<rparr>)"

lemma commitAuxiliary_Inr:
  "commitAuxiliary E puts dels events f n = (Inr u, n') \<longleftrightarrow> nd_writeErr n = None \<and> e_write E WriteAuxiliary = None
     \<and> (\<exists>plan. eventLog_plan (nd_events n) events = Inr plan \<and> n' = auxiliaryState puts dels plan f n)"
  by (auto simp: commitAuxiliary_def auxiliaryState_def act_inv act_run Let_def split: option.splits)

lemma commitAuxiliary_Inl:
  assumes "commitAuxiliary E puts dels events f n = (Inl e, n')"
  shows "n' = n \<or> (\<exists>e'. n' = disableWrites e' n)"
  using assms by (auto simp: commitAuxiliary_def act_inv act_run Let_def split: option.splits)

lemma disableWrites_simps [simp]:
  "nd_writeErr (disableWrites e n) \<noteq> None" "nd_events (disableWrites e n) = nd_events n"
  "nd_pendingExecutionRequests (disableWrites e n) = nd_pendingExecutionRequests n"
  "nd_branches (disableWrites e n) = nd_branches n" "nd_checkpoints (disableWrites e n) = nd_checkpoints n"
  "nd_consensus (disableWrites e n) = nd_consensus n" "nd_cfg (disableWrites e n) = nd_cfg n"
  by (simp_all add: disableWrites_def setMiningMode_def)

lemma auxiliary_lookup:
  assumes "eventLog_plan l events = Inr plan" "k \<notin> insert KEventNext (range KEvent)"
  shows "map_of (writeBatch (putOps (puts @ pl_puts plan) @ map BDelete (dels @ pl_deletes plan)) db) k
    = map_of (writeBatch (putOps puts @ map BDelete dels) db) k"
proof -
  have "k \<notin> kv_Key ` set (pl_puts plan)" "k \<notin> set (pl_deletes plan)" using plan_keys[OF assms(1)] assms(2) by auto
  then have "k \<notin> opKey ` set (putOps (pl_puts plan))" "k \<notin> opKey ` set (map BDelete (pl_deletes plan))"
    unfolding opKey_putOps opKey_deletes by simp_all
  note other = this[THEN writeBatch_other]
  show ?thesis
    unfolding putOps_append map_append writeBatch_append other(2)
    by (rule writeBatch_cong) (rule other(1))
qed

lemma mirror_auxiliary:
  assumes m: "mirror n" and plan: "eventLog_plan (nd_events n) events = Inr plan"
    and f: "\<And>n. ch_db (nd_chain (f n)) = ch_db (nd_chain n)" "\<And>n. nd_events (f n) = nd_events n"
    and k: "\<And>r. KEvent r \<notin> kv_Key ` set puts" "\<And>r. KEvent r \<notin> set dels"
    and n1: "n1 = onChain (onDB (writeBatch (putOps (puts @ pl_puts plan) @ map BDelete (dels @ pl_deletes plan)))) n"
    and tr: "\<And>k. tracked k \<Longrightarrow> map_of (writeBatch (putOps puts @ map BDelete dels) (ch_db (nd_chain n))) k = expected (f n1) k"
    and q: "queueStored (nd_pendingExecutionRequests (f n1)) (writeBatch (putOps puts @ map BDelete dels) (ch_db (nd_chain n)))"
    and key: "keyed (f n1)"
  shows "mirror (auxiliaryState puts dels plan f n)"
proof -
  let ?db = "writeBatch (putOps (puts @ pl_puts plan) @ map BDelete (dels @ pl_deletes plan)) (ch_db (nd_chain n))"
  let ?n' = "auxiliaryState puts dels plan f n"
  have n': "?n' = (f n1)\<lparr>nd_events := eventLog_apply (nd_events n) plan\<rparr>"
    by (simp add: auxiliaryState_def n1 f)
  have db: "ch_db (nd_chain ?n') = ?db" unfolding n' using f by (simp add: n1)
  have "map_of ?db k = expected ?n' k" if "tracked k" for k
  proof -
    have "k \<notin> insert KEventNext (range KEvent)" using that by (cases k) auto
    then have "map_of ?db k = expected (f n1) k" using auxiliary_lookup[OF plan] tr[OF that] by simp
    then show ?thesis unfolding n' by (subst expected_cong[of _ "f n1"]) simp_all
  qed
  moreover have "queueStored (nd_pendingExecutionRequests ?n') ?db"
  proof -
    have "map_of ?db KQueue = map_of (writeBatch (putOps puts @ map BDelete dels) (ch_db (nd_chain n))) KQueue"
      by (rule auxiliary_lookup[OF plan]) auto
    moreover have "nd_pendingExecutionRequests ?n' = nd_pendingExecutionRequests (f n1)" by (simp add: n')
    ultimately show ?thesis using q by (simp only: queueStored_def)
  qed
  moreover have "keyed ?n'" using key by (simp add: n' keyed_def)
  moreover have "elog.consistent (nd_events ?n')" "storedLog (nd_events ?n') ?db"
    using plan_consistent[OF mirrorD(4)[OF m] plan] plan_stored[OF mirrorD(4,5)[OF m] plan k] by (simp_all add: n')
  ultimately show ?thesis by (simp add: mirror_def db)
qed

section \<open>Prepared commits\<close>

definition preparedState ::
  "preparedOperation \<Rightarrow> eventPlan \<Rightarrow> ('x, 's) executionChain \<Rightarrow> (('x, 's) Node \<Rightarrow> ('x, 's) Node) \<Rightarrow> ('x, 's) Node \<Rightarrow> ('x, 's) Node" where
  "preparedState operation plan c1 f n =
     (let n = f (n\<lparr>nd_chain := onDB (writeBatch (finalOps (plannedOperation operation plan))) c1\<rparr>)
      in n\<lparr>nd_events := eventLog_apply (nd_events n) plan\<rparr>)"

lemma commitPrepared_Inr:
  assumes "commitPrepared E operation events mutate f n = (Inr u, n')"
  shows "nd_writeErr n = None \<and> map_of (ch_db (nd_chain n)) KJournal = None
    \<and> (\<exists>plan c1. eventLog_plan (nd_events n) events = Inr plan
        \<and> mutate (journalled (plannedOperation operation plan) (nd_chain n)) = (Inr (), c1)
        \<and> n' = preparedState operation plan c1 f n)"
  using assms
  unfolding commitPrepared_def Let_def plannedOperation_def [symmetric]
  by (auto simp: act_inv act_run chainA_eq write_finalize preparedState_def Let_def split: option.splits if_splits)

lemma commitPrepared_Inl:
  assumes "commitPrepared E operation events mutate f n = (Inl e, n')"
  shows "n' = n \<or> nd_writeErr n' \<noteq> None"
  using assms
  unfolding commitPrepared_def Let_def plannedOperation_def [symmetric]
  by (auto simp: act_inv act_run chainA_eq write_finalize Let_def simp del: split_paired_Ex split: option.splits if_splits)

lemma final_lookup:
  assumes "k \<noteq> KJournal"
  shows "map_of (writeBatch (finalOps (plannedOperation operation plan)) db) k
    = map_of (writeBatch (putOps ((op_ExecutionPuts operation @ op_Puts operation) @ pl_puts plan)
        @ map BDelete (op_Deletes operation @ pl_deletes plan)) db) k"
proof -
  have fin: "finalOps (plannedOperation operation plan) = (putOps ((op_ExecutionPuts operation @ op_Puts operation) @ pl_puts plan)
        @ map BDelete (op_Deletes operation @ pl_deletes plan)) @ map BDelete [KJournal]"
    by (simp add: finalOps_def plannedOperation_def putOps_append)
  have "k \<notin> opKey ` set (map BDelete [KJournal])" unfolding opKey_deletes using assms by simp
  then show ?thesis unfolding fin writeBatch_append[of _ "map BDelete [KJournal]"] by (rule writeBatch_other)
qed

lemma mirror_prepared:
  assumes m: "mirror n" and plan: "eventLog_plan (nd_events n) events = Inr plan"
    and f: "\<And>n. ch_db (nd_chain (f n)) = ch_db (nd_chain n)" "\<And>n. nd_events (f n) = nd_events n"
    and k: "\<And>r. KEvent r \<notin> kv_Key ` set (op_ExecutionPuts operation @ op_Puts operation)" "\<And>r. KEvent r \<notin> set (op_Deletes operation)"
    and c1: "ch_db c1 = ch_db (journalled (plannedOperation operation plan) (nd_chain n))
      \<or> ch_db c1 = writeBatch (putOps (op_ExecutionPuts operation)) (ch_db (journalled (plannedOperation operation plan) (nd_chain n)))"
    and n1: "n1 = n\<lparr>nd_chain := onDB (writeBatch (finalOps (plannedOperation operation plan))) c1\<rparr>"
    and tr: "\<And>k. tracked k \<Longrightarrow> k \<noteq> KJournal
      \<Longrightarrow> map_of (writeBatch (putOps (op_ExecutionPuts operation @ op_Puts operation) @ map BDelete (op_Deletes operation)) (ch_db (nd_chain n))) k
        = expected (f n1) k"
    and q: "queueStored (nd_pendingExecutionRequests (f n1))
      (writeBatch (putOps (op_ExecutionPuts operation @ op_Puts operation) @ map BDelete (op_Deletes operation)) (ch_db (nd_chain n)))"
    and key: "keyed (f n1)"
  shows "mirror (preparedState operation plan c1 f n)"
proof -
  let ?n' = "preparedState operation plan c1 f n" and ?op = "plannedOperation operation plan"
  let ?db = "writeBatch (finalOps ?op) (ch_db c1)"
    and ?aux = "writeBatch (putOps ((op_ExecutionPuts operation @ op_Puts operation) @ pl_puts plan)
        @ map BDelete (op_Deletes operation @ pl_deletes plan)) (ch_db (nd_chain n))"
  have n': "?n' = (f n1)\<lparr>nd_events := eventLog_apply (nd_events n) plan\<rparr>"
    by (simp add: preparedState_def n1 f)
  have db: "ch_db (nd_chain ?n') = ?db" unfolding n' using f by (simp add: n1)
  have absorb: "map_of ?db = map_of (writeBatch (finalOps ?op) (ch_db (nd_chain n)))"
    using final_absorbs[of "op_ExecutionPuts operation" ?op "ch_db c1" "nd_chain n"] c1 by simp
  have look: "map_of ?db k = map_of ?aux k" if "k \<noteq> KJournal" for k
    unfolding absorb using final_lookup[OF that] .
  have "map_of ?db k = expected ?n' k" if "tracked k" for k
  proof (cases "k = KJournal")
    case True
    then show ?thesis using final_no_journal[of ?op "ch_db c1"] by simp
  next
    case False
    have "k \<notin> insert KEventNext (range KEvent)" using that by (cases k) auto
    then have "map_of ?aux k = expected (f n1) k"
      unfolding tr[OF that False, symmetric] by (rule auxiliary_lookup[OF plan])
    then have "map_of ?db k = expected (f n1) k" unfolding look[OF False] .
    then show ?thesis unfolding n' by (subst expected_cong[of _ "f n1"]) simp_all
  qed
  moreover have "queueStored (nd_pendingExecutionRequests ?n') ?db"
  proof -
    have "map_of ?aux KQueue = map_of (writeBatch (putOps (op_ExecutionPuts operation @ op_Puts operation) @ map BDelete (op_Deletes operation))
        (ch_db (nd_chain n))) KQueue"
      by (rule auxiliary_lookup[OF plan]) auto
    moreover have "nd_pendingExecutionRequests ?n' = nd_pendingExecutionRequests (f n1)" by (simp add: n')
    moreover have "map_of ?db KQueue = map_of ?aux KQueue" by (rule look) simp
    ultimately show ?thesis using q by (simp only: queueStored_def)
  qed
  moreover have "keyed ?n'" using key by (simp add: n' keyed_def)
  moreover have "storedLog (nd_events ?n') ?db"
  proof (rule storedLog_cong)
    show "storedLog (nd_events ?n') ?aux"
      using plan_stored[OF mirrorD(4,5)[OF m] plan k] by (simp add: n')
    have "distinct (map fst (ch_db (nd_chain n)))" using mirrorD(5)[OF m] by (simp add: storedLog_def)
    then have "distinct (map fst (ch_db c1))" using c1 by (auto intro!: distinct_writeBatch)
    then show "distinct (map fst ?db)" by (rule distinct_writeBatch)
    show "map_of ?db (KEvent r) = map_of ?aux (KEvent r)" for r by (rule look) simp
  qed
  moreover have "elog.consistent (nd_events ?n')"
    using plan_consistent[OF mirrorD(4)[OF m] plan] by (simp add: n')
  ultimately show ?thesis by (simp add: mirror_def db)
qed

lemma inStep_refused:
  assumes "inStep n" "n' = n \<or> nd_writeErr n' \<noteq> None"
  shows "inStep n'"
  using assms by (auto simp: inStep_def)

section \<open>Actions that keep an invariant\<close>

definition keeps :: "('s \<Rightarrow> bool) \<Rightarrow> ('s, 'a) act \<Rightarrow> bool" where
  "keeps P m \<longleftrightarrow> (\<forall>s r s'. P s \<longrightarrow> m s = (r, s') \<longrightarrow> P s')"

named_theorems keeps_rules \<open>actions that keep an invariant\<close>

lemma keepsI: "(\<And>s r s'. P s \<Longrightarrow> m s = (r, s') \<Longrightarrow> P s') \<Longrightarrow> keeps P m"
  by (auto simp: keeps_def)

lemma keepsD: "keeps P m \<Longrightarrow> P s \<Longrightarrow> m s = (r, s') \<Longrightarrow> P s'"
  by (auto simp: keeps_def)

lemma keeps_pure [keeps_rules]:
  "keeps P (returnA a)" "keeps P (throwA e)" "keeps P (liftA r)" "keeps P getA" "keeps P (failWith f)"
  by (auto simp: keeps_def returnA_def throwA_def liftA_def getA_def failWith_def split: option.splits)

lemma keeps_bind [keeps_rules]: "keeps P m \<Longrightarrow> (\<And>a. keeps P (k a)) \<Longrightarrow> keeps P (bindA m k)"
proof (rule keepsI)
  fix s r s'
  assume "keeps P m" "\<And>a. keeps P (k a)" "P s" "bindA m k s = (r, s')"
  then show "P s'" by (cases r) (auto simp: bindA_Inr bindA_Inl dest: keepsD)
qed

lemma keeps_catch [keeps_rules]: "keeps P m \<Longrightarrow> (\<And>e s. P s \<Longrightarrow> P (f e s)) \<Longrightarrow> keeps P (catchA f w m)"
proof (rule keepsI)
  fix s r s'
  assume "keeps P m" "\<And>e s. P s \<Longrightarrow> P (f e s)" "P s" "catchA f w m s = (r, s')"
  then show "P s'" by (cases r) (auto simp: catchA_Inr catchA_Inl dest: keepsD)
qed

lemma keeps_modify [keeps_rules]: "(\<And>s. P s \<Longrightarrow> P (f s)) \<Longrightarrow> keeps P (modifyA f)"
  by (auto simp: keeps_def modifyA_def)

lemma keeps_if [keeps_rules]: "(c \<Longrightarrow> keeps P m) \<Longrightarrow> (\<not> c \<Longrightarrow> keeps P m') \<Longrightarrow> keeps P (if c then m else m')"
  by simp

lemma keeps_prod [keeps_rules]: "(\<And>a b. keeps P (f a b)) \<Longrightarrow> keeps P (case p of (a, b) \<Rightarrow> f a b)"
  by (cases p) simp

lemma keeps_write [keeps_rules]: "keeps P m \<Longrightarrow> keeps P (executeWrite m)"
  by (auto simp: keeps_def executeWrite_def split: option.splits)

lemma inStep_disabled [simp]: "inStep (disableWrites e n)"
  by (simp add: inStep_def)

text \<open>Writing keys that are not tracked, not the queue and not an event leaves memory and store in step.\<close>

lemma mirror_untracked:
  assumes "mirror n" "\<And>k. tracked k \<or> k = KQueue \<or> k \<in> range KEvent \<Longrightarrow> map_of db k = map_of (ch_db (nd_chain n)) k"
    "distinct (map fst db)" "nd_chain n' = (nd_chain n)\<lparr>ch_db := db, ch_pendingView := view\<rparr>"
    "nd_events n' = nd_events n" "nd_pendingExecutionRequests n' = nd_pendingExecutionRequests n"
    "nd_checkpoints n' = nd_checkpoints n" "nd_branches n' = nd_branches n"
  shows "mirror n'"
proof -
  have "expected n' k = expected n k" for k
    by (rule expected_cong) (simp_all add: assms timeline_def sessionSafety_def)
  moreover have "keyed n'" using mirrorD(3)[OF assms(1)] by (simp add: keyed_def assms)
  moreover have "storedLog (nd_events n') (ch_db (nd_chain n'))"
    using mirrorD(5)[OF assms(1)] assms(2,3) unfolding assms(4,5) by (auto intro: storedLog_cong)
  moreover have "queueStored (nd_pendingExecutionRequests n') (ch_db (nd_chain n'))"
    using mirrorD(2)[OF assms(1)] assms(2)[of KQueue] by (simp add: queueStored_def assms(4,6))
  ultimately show ?thesis using assms(1,2) mirrorD(1,4)[OF assms(1)] by (simp add: mirror_def assms(4,5))
qed

end
