(* ===== verification/Finality.thy ===== *)
theory Finality
  imports Mirror
begin

text \<open>
  Synthetic finality (\<open>src/finality.go\<close>): safe and finalized are the canonical blocks one and two
  epochs of slots behind an observer slot, which is the current slot unless finality is paused.
\<close>

section \<open>Resolution\<close>

record syntheticFinalityResolution =
  sf_HeadSlot :: u64
  sf_SafeSlot :: u64
  sf_FinalizedSlot :: u64
  sf_Safe :: block
  sf_Finalized :: block

record FinalityStatus =
  fs_Paused :: bool
  fs_CurrentSlot :: u64
  fs_FinalitySlot :: u64
  fs_SafeSlot :: u64
  fs_SafeBlockHash :: hash
  fs_SafeBlockNumber :: u64
  fs_FinalizedSlot :: u64
  fs_FinalizedBlockHash :: hash
  fs_FinalizedBlockNumber :: u64
  fs_ConsensusMode :: string

definition subtractSlots :: "u64 \<Rightarrow> u64 \<Rightarrow> u64" where
  "subtractSlots slot lag = (if slot \<le> lag then 0 else slot - lag)"

abbreviation slotsPerEpoch :: "('x, 's) Node \<Rightarrow> u64" where
  "slotsPerEpoch n \<equiv> cg_SlotsPerEpoch (cf_Chain (nd_cfg n))"

definition resolveSyntheticFinalityAt ::
  "('x, 's, 'z) execution_scheme \<Rightarrow> ('x, 's) Node \<Rightarrow> u64 \<Rightarrow> syntheticFinalityResolution" where
  "resolveSyntheticFinalityAt X n headSlot =
     (let safeSlot = subtractSlots headSlot (slotsPerEpoch n);
          finalizedSlot = subtractSlots headSlot (2 * slotsPerEpoch n) in
      \<lparr>sf_HeadSlot = headSlot, sf_SafeSlot = safeSlot, sf_FinalizedSlot = finalizedSlot,
       sf_Safe = blockAtOrBeforeSlot X (nd_chain n) safeSlot, sf_Finalized = blockAtOrBeforeSlot X (nd_chain n) finalizedSlot\<rparr>)"

definition syntheticFinalitySlot :: "('x, 's) Node \<Rightarrow> u64 \<Rightarrow> u64" where
  "syntheticFinalitySlot n headSlot =
     (if ch_finalityPaused (nd_chain n) \<and> ch_finalitySlot (nd_chain n) < headSlot then ch_finalitySlot (nd_chain n) else headSlot)"

definition resolveSyntheticFinality ::
  "('x, 's, 'z) execution_scheme \<Rightarrow> ('x, 's) Node \<Rightarrow> u64 \<Rightarrow> syntheticFinalityResolution" where
  "resolveSyntheticFinality X n headSlot = resolveSyntheticFinalityAt X n (syntheticFinalitySlot n headSlot)"

definition nodeFinalityStatus :: "('x, 's, 'z) execution_scheme \<Rightarrow> ('x, 's) Node \<Rightarrow> FinalityStatus" where
  "nodeFinalityStatus X n =
     (let paused = ch_finalityPaused (nd_chain n); currentSlot = ch_slot (nd_chain n); finalitySlot = ch_finalitySlot (nd_chain n);
          finalitySlot = (if \<not> paused \<or> currentSlot < finalitySlot then currentSlot else finalitySlot);
          resolution = resolveSyntheticFinalityAt X n finalitySlot in
      \<lparr>fs_Paused = paused, fs_CurrentSlot = currentSlot, fs_FinalitySlot = sf_HeadSlot resolution,
       fs_SafeSlot = sf_SafeSlot resolution, fs_SafeBlockHash = b_Hash (sf_Safe resolution),
       fs_SafeBlockNumber = b_Number (sf_Safe resolution), fs_FinalizedSlot = sf_FinalizedSlot resolution,
       fs_FinalizedBlockHash = b_Hash (sf_Finalized resolution), fs_FinalizedBlockNumber = b_Number (sf_Finalized resolution),
       fs_ConsensusMode = ''synthetic''\<rparr>)"

section \<open>Events\<close>

text \<open>Division by zero panics; a valid configuration has at least one slot per epoch.\<close>

definition finalizedEventForTransition ::
  "('x, 's) Node \<Rightarrow> syntheticFinalityResolution \<Rightarrow> syntheticFinalityResolution \<Rightarrow> error + Event option" where
  "finalizedEventForTransition n previous new =
     (if b_Hash (sf_Finalized previous) = b_Hash (sf_Finalized new) \<and> slotsPerEpoch n = 0 then Inl (Panic ''integer divide by zero'')
      else if b_Hash (sf_Finalized previous) = b_Hash (sf_Finalized new)
        \<and> sf_FinalizedSlot previous div slotsPerEpoch n = sf_FinalizedSlot new div slotsPerEpoch n then Inr None
      else Inr (Some (zeroEvent\<lparr>ev_Type := ''finalized_checkpoint'', ev_Slot := sf_FinalizedSlot new,
        ev_BlockHash := b_Hash (sf_Finalized new), ev_BlockNumber := b_Number (sf_Finalized new)\<rparr>)))"

definition finalizedEventBetween ::
  "('x, 's, 'z) execution_scheme \<Rightarrow> ('x, 's) Node \<Rightarrow> u64 \<Rightarrow> u64 \<Rightarrow> error + Event option" where
  "finalizedEventBetween X n fromSlot toSlot =
     finalizedEventForTransition n (resolveSyntheticFinality X n fromSlot) (resolveSyntheticFinality X n toSlot)"

section \<open>Pausing and resuming\<close>

definition PauseFinality :: "env \<Rightarrow> (('x, 's) Node, unit) act" where
  "PauseFinality E = executeWrite (
     bindA getA (\<lambda>n.
     let c = nd_chain n; currentSlot = ch_slot c in
     if ch_finalityPaused c then returnA () else
     commitAuxiliary E [timelinePut ((timeline c)\<lparr>tl_FinalityPaused := True, tl_FinalitySlot := currentSlot\<rparr>)] [] []
       (onChain (\<lambda>c. c\<lparr>ch_finalityPaused := True, ch_finalitySlot := currentSlot\<rparr>))))"

definition ResumeFinality :: "('x, 's, 'z) execution_scheme \<Rightarrow> env \<Rightarrow> (('x, 's) Node, unit) act" where
  "ResumeFinality X E = executeWrite (
     bindA getA (\<lambda>n.
     let c = nd_chain n; currentSlot = ch_slot c;
         finalitySlot = (if currentSlot < ch_finalitySlot c then currentSlot else ch_finalitySlot c) in
     if \<not> ch_finalityPaused c then returnA () else
     bindA (liftA (finalizedEventForTransition n (resolveSyntheticFinalityAt X n finalitySlot)
       (resolveSyntheticFinalityAt X n currentSlot))) (\<lambda>finalized.
     commitAuxiliary E [timelinePut ((timeline c)\<lparr>tl_FinalityPaused := False, tl_FinalitySlot := 0\<rparr>)] []
       (case finalized of None \<Rightarrow> [] | Some e \<Rightarrow> [e])
       (onChain (\<lambda>c. c\<lparr>ch_finalityPaused := False, ch_finalitySlot := 0\<rparr>)))))"

section \<open>The block at a slot\<close>

lemma subtractSlots_unat: "unat (subtractSlots slot lag) = unat slot - unat lag"
  by (simp add: subtractSlots_def word_le_nat_alt unat_sub_if')

lemma canonicalAtSlot_cong:
  assumes "map_of (ch_canonicalBlockBySlot c') s = map_of (ch_canonicalBlockBySlot c) s"
    and "\<And>h. map_of (ch_canonicalBlockBySlot c) s = Some h \<Longrightarrow> x_GetBlockByHash X (ch_blockchain c') h = x_GetBlockByHash X (ch_blockchain c) h"
    and "\<And>h b. map_of (ch_canonicalBlockBySlot c) s = Some h \<Longrightarrow> x_GetBlockByHash X (ch_blockchain c) h = Some b
      \<Longrightarrow> x_GetCanonicalHash X (ch_blockchain c') (b_Number b) = x_GetCanonicalHash X (ch_blockchain c) (b_Number b)"
  shows "canonicalAtSlot X c' s = canonicalAtSlot X c s"
  using assms by (auto simp: canonicalAtSlot_def split: option.splits)

lemma canonicalAtSlot_fields:
  "ch_canonicalBlockBySlot c' = ch_canonicalBlockBySlot c \<Longrightarrow> ch_blockchain c' = ch_blockchain c
    \<Longrightarrow> canonicalAtSlot X c' s = canonicalAtSlot X c s"
  by (simp only: canonicalAtSlot_def)

lemma le_pred:
  fixes slot :: u64
  assumes "slot \<noteq> 0"
  shows "t \<le> slot \<longleftrightarrow> t = slot \<or> t \<le> slot - 1"
proof -
  have "unat (slot - 1) = unat slot - 1" "0 < unat slot" using assms by (simp_all add: unat_minus_one unat_gt_0)
  then show ?thesis unfolding word_le_nat_alt word_unat_eq_iff by linarith
qed

lemma blockAtOrBeforeSlot_cong:
  assumes "\<And>s. s \<le> slot \<Longrightarrow> canonicalAtSlot X c' s = canonicalAtSlot X c s"
    and "x_Genesis X (ch_blockchain c') = x_Genesis X (ch_blockchain c)"
  shows "blockAtOrBeforeSlot X c' slot = blockAtOrBeforeSlot X c slot"
  using assms
proof (induction X c slot rule: blockAtOrBeforeSlot.induct)
  case (1 X c slot)
  have same: "canonicalAtSlot X c' slot = canonicalAtSlot X c slot" using 1 by simp
  have "blockAtOrBeforeSlot X c' (slot - 1) = blockAtOrBeforeSlot X c (slot - 1)"
    if step: "canonicalAtSlot X c slot = None" "slot \<noteq> 0"
  proof (rule 1(1)[OF step])
    fix s
    assume "s \<le> slot - 1"
    then show "canonicalAtSlot X c' s = canonicalAtSlot X c s" using 1(2)[of s] le_pred[OF step(2)] by blast
  qed (rule 1(3))
  then show ?case
    unfolding blockAtOrBeforeSlot.simps[of X c slot] blockAtOrBeforeSlot.simps[of X c' slot] same 1(3)
    by (cases "canonicalAtSlot X c slot") simp_all
qed

text \<open>The block is the last canonical one at or before the slot, and the genesis when there is none.\<close>

lemma blockAtOrBeforeSlot_last:
  "(\<exists>s \<le> slot. canonicalAtSlot X c s = Some (blockAtOrBeforeSlot X c slot) \<and> (\<forall>t. s < t \<and> t \<le> slot \<longrightarrow> canonicalAtSlot X c t = None))
   \<or> (\<forall>t \<le> slot. canonicalAtSlot X c t = None) \<and> blockAtOrBeforeSlot X c slot = x_Genesis X (ch_blockchain c)"
proof (induction X c slot rule: blockAtOrBeforeSlot.induct)
  case (1 X c slot)
  consider (hit) b where "canonicalAtSlot X c slot = Some b" | (zero) "canonicalAtSlot X c slot = None" "slot = 0"
    | (step) "canonicalAtSlot X c slot = None" "slot \<noteq> 0" by fastforce
  then show ?case
  proof cases
    case hit
    then show ?thesis by (auto simp: blockAtOrBeforeSlot.simps[of _ _ slot] intro!: exI[of _ slot])
  next
    case zero
    then show ?thesis by (simp add: blockAtOrBeforeSlot.simps[of _ _ 0])
  next
    case step
    then have eq: "blockAtOrBeforeSlot X c slot = blockAtOrBeforeSlot X c (slot - 1)" by (simp add: blockAtOrBeforeSlot.simps[of _ _ slot])
    from 1[OF step] show ?thesis
    proof (elim disjE exE conjE)
      fix s
      assume s: "s \<le> slot - 1" "canonicalAtSlot X c s = Some (blockAtOrBeforeSlot X c (slot - 1))"
        "\<forall>t. s < t \<and> t \<le> slot - 1 \<longrightarrow> canonicalAtSlot X c t = None"
      have "\<forall>t. s < t \<and> t \<le> slot \<longrightarrow> canonicalAtSlot X c t = None" using s(3) step(1) by (auto simp: le_pred[OF step(2)])
      then show ?thesis using s(1,2) unfolding eq le_pred[OF step(2)] by blast
    next
      assume "\<forall>t \<le> slot - 1. canonicalAtSlot X c t = None" "blockAtOrBeforeSlot X c (slot - 1) = x_Genesis X (ch_blockchain c)"
      then show ?thesis using step(1) unfolding eq le_pred[OF step(2)] by blast
    qed
  qed
qed

section \<open>The lag\<close>

lemma valid_lag:
  assumes "validateChain cfg = Inr ()"
  shows "cg_SlotsPerEpoch (cf_Chain cfg) \<noteq> 0" "unat (2 * cg_SlotsPerEpoch (cf_Chain cfg)) = 2 * unat (cg_SlotsPerEpoch (cf_Chain cfg))"
proof -
  have spe: "cg_SlotsPerEpoch (cf_Chain cfg) \<noteq> 0" "\<not> cg_SlotsPerEpoch (cf_Chain cfg) > MaxUint64 div 2"
    using assms by (auto simp: validateChain_def Let_def split: if_splits)
  have "unat (MaxUint64 div 2) = (2 ^ 64 - 1) div 2" by (simp add: unat_div unat_MaxUint64)
  then have "unat (cg_SlotsPerEpoch (cf_Chain cfg)) \<le> (2 ^ 64 - 1) div 2" using spe(2) by (simp add: word_le_nat_alt word_less_nat_alt)
  then have "2 * unat (cg_SlotsPerEpoch (cf_Chain cfg)) < 2 ^ 64" by simp
  then show "unat (2 * cg_SlotsPerEpoch (cf_Chain cfg)) = 2 * unat (cg_SlotsPerEpoch (cf_Chain cfg))"
    by (simp add: unat_word_ariths)
  show "cg_SlotsPerEpoch (cf_Chain cfg) \<noteq> 0" by (rule spe)
qed

text \<open>
  C36: Under a valid configuration finality lags exactly: seen from any slot, safe is one epoch and finalized two
  epochs behind, never below zero and without wrap-around, so finalized is never ahead of safe and neither
  moves back as the slot advances. The finalized block is the last canonical block at or before the finalized
  slot, or the genesis if there is none.
\<close>

theorem finality_lag_exact:
  assumes "validateChain (nd_cfg n) = Inr ()"
  shows "unat (sf_SafeSlot (resolveSyntheticFinalityAt X n slot)) = unat slot - unat (slotsPerEpoch n)
    \<and> unat (sf_FinalizedSlot (resolveSyntheticFinalityAt X n slot)) = unat slot - 2 * unat (slotsPerEpoch n)
    \<and> sf_FinalizedSlot (resolveSyntheticFinalityAt X n slot) \<le> sf_SafeSlot (resolveSyntheticFinalityAt X n slot)
    \<and> sf_FinalizedSlot (resolveSyntheticFinalityAt X n slot) \<le> sf_FinalizedSlot (resolveSyntheticFinalityAt X n (max slot slot'))
    \<and> sf_SafeSlot (resolveSyntheticFinalityAt X n slot) \<le> sf_SafeSlot (resolveSyntheticFinalityAt X n (max slot slot'))
    \<and> ((\<exists>s. s \<le> sf_FinalizedSlot (resolveSyntheticFinalityAt X n slot)
           \<and> canonicalAtSlot X (nd_chain n) s = Some (sf_Finalized (resolveSyntheticFinalityAt X n slot))
           \<and> (\<forall>t. s < t \<and> t \<le> sf_FinalizedSlot (resolveSyntheticFinalityAt X n slot) \<longrightarrow> canonicalAtSlot X (nd_chain n) t = None))
       \<or> (\<forall>t. t \<le> sf_FinalizedSlot (resolveSyntheticFinalityAt X n slot) \<longrightarrow> canonicalAtSlot X (nd_chain n) t = None)
           \<and> sf_Finalized (resolveSyntheticFinalityAt X n slot) = x_Genesis X (ch_blockchain (nd_chain n)))"
  (is "?safe \<and> ?fin \<and> ?order \<and> ?mono \<and> ?mono' \<and> ?block")
proof -
  note lag = valid_lag[OF assms]
  have slots: "unat (sf_SafeSlot (resolveSyntheticFinalityAt X n s)) = unat s - unat (slotsPerEpoch n)"
    "unat (sf_FinalizedSlot (resolveSyntheticFinalityAt X n s)) = unat s - 2 * unat (slotsPerEpoch n)" for s
    by (simp_all add: resolveSyntheticFinalityAt_def Let_def subtractSlots_unat lag)
  have "unat slot \<le> unat (max slot slot')" by (simp add: max_def word_le_nat_alt)
  then have "?order \<and> ?mono \<and> ?mono'" unfolding word_le_nat_alt slots by linarith
  moreover have ?block
    using blockAtOrBeforeSlot_last[of "sf_FinalizedSlot (resolveSyntheticFinalityAt X n slot)" X "nd_chain n"]
    by (simp add: resolveSyntheticFinalityAt_def Let_def)
  ultimately show ?thesis using slots by simp
qed

theorem finality_lag_exact_witness:
  "validateChain (nd_cfg exampleNode) = Inr ()
   \<and> unat (sf_FinalizedSlot (resolveSyntheticFinalityAt memExecution exampleNode 20)) = 4
   \<and> unat (sf_SafeSlot (resolveSyntheticFinalityAt memExecution exampleNode 20)) = 12"
proof -
  have valid: "validateChain (nd_cfg exampleNode) = Inr ()" unfolding exampleNode_def Node.simps by code_simp
  show ?thesis using finality_lag_exact[OF valid, of memExecution 20 20] valid by (simp add: exampleNode_def DefaultConfig_def)
qed

section \<open>Commits of the timeline\<close>

lemma putOps_lookup [simp]:
  "map_of (writeBatch (putOps []) db) k = map_of db k"
  "map_of (writeBatch (putOps [p]) db) k = (if k = kv_Key p then Some (Val (kv_Value p)) else map_of db k)"
  by (simp_all add: putOps_def writeBatch_Cons update_conv')

lemma mirror_timeline:
  assumes m: "mirror n" and plan: "eventLog_plan (nd_events n) events = Inr plan"
    and f: "\<And>n. ch_db (nd_chain (f n)) = ch_db (nd_chain n)" "\<And>n. nd_events (f n) = nd_events n"
      "\<And>n. nd_pendingExecutionRequests (f n) = nd_pendingExecutionRequests n" "\<And>n. keyed (f n) = keyed n"
    and T: "\<And>n1. nd_chain n1 = onDB g (nd_chain n) \<Longrightarrow> timeline (nd_chain (f n1)) = T"
    and rest: "\<And>n k. tracked k \<Longrightarrow> k \<noteq> KTimeline \<Longrightarrow> expected (f n) k = expected n k"
    and g: "g = writeBatch (putOps ([timelinePut T] @ pl_puts plan) @ map BDelete ([] @ pl_deletes plan))"
  shows "mirror (auxiliaryState [timelinePut T] [] plan f n)"
proof (rule mirror_auxiliary[OF m plan f(1,2) _ _ refl])
  let ?n1 = "onChain (onDB (writeBatch (putOps ([timelinePut T] @ pl_puts plan) @ map BDelete ([] @ pl_deletes plan)))) n"
  show "KEvent r \<notin> kv_Key ` set [timelinePut T]" for r by (simp add: timelinePut_def)
  have same: "expected ?n1 k = expected n k" for k by (rule expected_cong) (simp_all add: timeline_def sessionSafety_def)
  show "map_of (writeBatch (putOps [timelinePut T] @ map BDelete []) (ch_db (nd_chain n))) k = expected (f ?n1) k" if "tracked k" for k
  proof (cases "k = KTimeline")
    case True
    then show ?thesis using T[of ?n1] by (simp add: timelinePut_def g)
  next
    case False
    then show ?thesis using rest[OF that False, of ?n1] mirrorD(1)[OF m that] same[of k] by (simp add: timelinePut_def)
  qed
  show "queueStored (nd_pendingExecutionRequests (f ?n1)) (writeBatch (putOps [timelinePut T] @ map BDelete []) (ch_db (nd_chain n)))"
    using mirrorD(2)[OF m] by (simp add: queueStored_def f timelinePut_def)
  show "keyed (f ?n1)" using mirrorD(3)[OF m] unfolding f by (simp add: keyed_def)
qed simp_all

lemma PauseFinality_Inr:
  assumes "PauseFinality E n = (Inr u, n')" "\<not> ch_finalityPaused (nd_chain n)"
  obtains plan where "nd_writeErr n = None" "eventLog_plan (nd_events n) [] = Inr plan"
    "n' = auxiliaryState [timelinePut ((timeline (nd_chain n))\<lparr>tl_FinalityPaused := True, tl_FinalitySlot := ch_slot (nd_chain n)\<rparr>)] [] plan
       (onChain (\<lambda>c. c\<lparr>ch_finalityPaused := True, ch_finalitySlot := ch_slot (nd_chain n)\<rparr>)) n"
  using assms by (auto simp: PauseFinality_def executeWrite_def act_simps Let_def commitAuxiliary_Inr split: option.splits)

lemma ResumeFinality_Inr:
  assumes "ResumeFinality X E n = (Inr u, n')" "ch_finalityPaused (nd_chain n)"
  obtains plan finalized where "nd_writeErr n = None"
    "finalizedEventForTransition n (resolveSyntheticFinalityAt X n (min (ch_slot (nd_chain n)) (ch_finalitySlot (nd_chain n))))
       (resolveSyntheticFinalityAt X n (ch_slot (nd_chain n))) = Inr finalized"
    "eventLog_plan (nd_events n) (case finalized of None \<Rightarrow> [] | Some e \<Rightarrow> [e]) = Inr plan"
    "n' = auxiliaryState [timelinePut ((timeline (nd_chain n))\<lparr>tl_FinalityPaused := False, tl_FinalitySlot := 0\<rparr>)] [] plan
       (onChain (\<lambda>c. c\<lparr>ch_finalityPaused := False, ch_finalitySlot := 0\<rparr>)) n"
proof -
  have m: "(if a < b then a else b) = min a b" for a b :: u64 by (auto simp: min_def)
  have "nd_writeErr n = None" using assms(1) by (auto simp: ResumeFinality_def executeWrite_def split: option.splits)
  then show thesis
    using assms that unfolding ResumeFinality_def executeWrite_def Let_def m
    by (auto simp: act_inv act_run commitAuxiliary_Inr)
qed

lemma PauseFinality_inStep:
  assumes "inStep n" "PauseFinality E n = (r, n')"
  shows "inStep n'"
proof (cases r)
  case (Inl e)
  then have "n' = n \<or> nd_writeErr n' \<noteq> None"
    using assms(2) commitAuxiliary_Inl
    by (auto simp: PauseFinality_def executeWrite_def act_simps Let_def split: option.splits if_splits dest!: commitAuxiliary_Inl)
  then show ?thesis using inStep_refused assms(1) by blast
next
  case (Inr u)
  show ?thesis
  proof (cases "ch_finalityPaused (nd_chain n)")
    case True
    then have "n' = n" using assms(2) Inr by (auto simp: PauseFinality_def executeWrite_def act_simps Let_def split: option.splits)
    then show ?thesis using assms(1) by simp
  next
    case False
    from PauseFinality_Inr[OF assms(2)[unfolded Inr] False] obtain plan where
      p: "nd_writeErr n = None" "eventLog_plan (nd_events n) [] = Inr plan"
      "n' = auxiliaryState [timelinePut ((timeline (nd_chain n))\<lparr>tl_FinalityPaused := True, tl_FinalitySlot := ch_slot (nd_chain n)\<rparr>)] [] plan
         (onChain (\<lambda>c. c\<lparr>ch_finalityPaused := True, ch_finalitySlot := ch_slot (nd_chain n)\<rparr>)) n" .
    have "mirror n" using assms(1) p(1) by (simp add: inStep_def)
    then have "mirror n'" unfolding p(3)
    proof (rule mirror_timeline[OF _ p(2)])
      show "expected (onChain (\<lambda>c. c\<lparr>ch_finalityPaused := True, ch_finalitySlot := s\<rparr>) n) k = expected n k"
        if "tracked k" "k \<noteq> KTimeline" for k s and n :: "('a, 'b) Node"
        using that by (cases k) (simp_all add: sessionSafety_def)
    qed (simp_all add: timeline_def keyed_def)
    then show ?thesis by (simp add: inStep_def)
  qed
qed

lemma ResumeFinality_inStep:
  assumes "inStep n" "ResumeFinality X E n = (r, n')"
  shows "inStep n'"
proof (cases "nd_writeErr n = None \<and> ch_finalityPaused (nd_chain n) \<and> (\<exists>u. r = Inr u)")
  case True
  then have run: "ResumeFinality X E n = (Inr (), n')" "ch_finalityPaused (nd_chain n)" using assms(2) by auto
  obtain plan finalized where p: "eventLog_plan (nd_events n) (case finalized of None \<Rightarrow> [] | Some e \<Rightarrow> [e]) = Inr plan"
    "n' = auxiliaryState [timelinePut ((timeline (nd_chain n))\<lparr>tl_FinalityPaused := False, tl_FinalitySlot := 0\<rparr>)] [] plan
       (onChain (\<lambda>c. c\<lparr>ch_finalityPaused := False, ch_finalitySlot := 0\<rparr>)) n"
    by (rule ResumeFinality_Inr[OF run]) (rule that)
  have "mirror n" using assms(1) True by (simp add: inStep_def)
  then have "mirror n'" unfolding p(2)
  proof (rule mirror_timeline[OF _ p(1)])
    show "expected (onChain (\<lambda>c. c\<lparr>ch_finalityPaused := False, ch_finalitySlot := 0\<rparr>) n) k = expected n k"
      if "tracked k" "k \<noteq> KTimeline" for k and n :: "('a, 'b) Node"
      using that by (cases k) (simp_all add: sessionSafety_def)
  qed (simp_all add: timeline_def keyed_def)
  then show ?thesis by (simp add: inStep_def)
next
  case False
  then have "n' = n \<or> nd_writeErr n' \<noteq> None"
    using assms(2)
    by (cases r) (auto simp: ResumeFinality_def executeWrite_def act_inv act_run Let_def split: option.splits if_splits dest!: commitAuxiliary_Inl)
  then show ?thesis using inStep_refused assms(1) by blast
qed

section \<open>Pausing\<close>

text \<open>
  What a later state of the node shares with the state at the pause: the frozen slot, the configuration and
  the canonical blocks up to that slot. Slots may have been missed and blocks mined since.
\<close>

definition laterThan :: "('x, 's, 'z) execution_scheme \<Rightarrow> ('x, 's) Node \<Rightarrow> ('x, 's) Node \<Rightarrow> bool" where
  "laterThan X n n' \<longleftrightarrow> nd_cfg n' = nd_cfg n \<and> ch_finalityPaused (nd_chain n') = ch_finalityPaused (nd_chain n)
     \<and> ch_finalitySlot (nd_chain n') = ch_finalitySlot (nd_chain n)
     \<and> x_Genesis X (ch_blockchain (nd_chain n')) = x_Genesis X (ch_blockchain (nd_chain n))
     \<and> (\<forall>s \<le> ch_finalitySlot (nd_chain n). canonicalAtSlot X (nd_chain n') s = canonicalAtSlot X (nd_chain n) s)"

lemma resolve_cong:
  assumes "nd_cfg n' = nd_cfg n" "x_Genesis X (ch_blockchain (nd_chain n')) = x_Genesis X (ch_blockchain (nd_chain n))"
    and "\<And>s. s \<le> slot \<Longrightarrow> canonicalAtSlot X (nd_chain n') s = canonicalAtSlot X (nd_chain n) s"
  shows "resolveSyntheticFinalityAt X n' slot = resolveSyntheticFinalityAt X n slot"
proof -
  have "subtractSlots slot lag \<le> slot" for lag by (simp add: word_le_nat_alt subtractSlots_unat)
  then have "blockAtOrBeforeSlot X (nd_chain n') (subtractSlots slot lag) = blockAtOrBeforeSlot X (nd_chain n) (subtractSlots slot lag)" for lag
    using assms by (intro blockAtOrBeforeSlot_cong) (auto intro: order_trans)
  then show ?thesis by (simp add: resolveSyntheticFinalityAt_def Let_def assms(1))
qed


lemma commitAuxiliary_calm:
  "nd_writeErr n = None \<Longrightarrow> eventLog_plan (nd_events n) events = Inr plan
    \<Longrightarrow> commitAuxiliary calm puts dels events f n = (Inr (), auxiliaryState puts dels plan f n)"
  by (simp add: commitAuxiliary_Inr)

lemma examplePause:
  obtains n1 where "PauseFinality calm exampleNode = (Inr (), n1)" "nd_events n1 = nd_events exampleNode" "nd_writeErr n1 = None"
    "ch_finalityPaused (nd_chain n1)" "ch_blockchain (nd_chain n1) = ch_blockchain exampleChain"
    "ch_canonicalBlockBySlot (nd_chain n1) = ch_canonicalBlockBySlot exampleChain" "nd_cfg n1 = DefaultConfig"
    "ch_finalitySlot (nd_chain n1) = 0"
proof -
  obtain plan where "eventLog_plan (nd_events exampleNode) [] = Inr plan" "pl_events plan = []"
    by (simp add: eventLog_plan_def exampleNode_def Let_def)
  then show thesis
    using that[of "auxiliaryState [timelinePut ((timeline exampleChain)\<lparr>tl_FinalityPaused := True, tl_FinalitySlot := 0\<rparr>)] [] plan
       (onChain (\<lambda>c. c\<lparr>ch_finalityPaused := True, ch_finalitySlot := 0\<rparr>)) exampleNode"]
    by (simp add: PauseFinality_def executeWrite_def act_simps commitAuxiliary_calm exampleNode_def exampleChain_def Let_def
        auxiliaryState_def eventLog_apply_def)
qed


end
