(* ===== verification/Mining.thy ===== *)
theory Mining
  imports Builder Finality
begin

text \<open>
  The commands that grow the canonical chain (\<open>src/node.go\<close>): mining, missed slots, transactions,
  withdrawals (\<open>src/withdrawal.go\<close>), controlled execution requests and the pending candidate
  (\<open>src/execution_requests.go\<close>), snapshots and checkpoints.

  \<^item> A command runs on the node alone: the controller executes one at a time.
  \<^item> The context, the store and the hooks may fail differently while a block is built and while the pending view is
    rebuilt afterwards, so these take an environment each.
\<close>

section \<open>Running parts of the node\<close>

definition projectionA :: "(('x, 's) executionChain \<times> consensusModel, 'a) act \<Rightarrow> (('x, 's) Node, 'a) act" where
  "projectionA m n = (case m (nd_chain n, nd_consensus n) of (r, (c, cm)) \<Rightarrow> (r, n\<lparr>nd_chain := c, nd_consensus := cm\<rparr>))"

definition consensusA :: "(consensusModel, 'a) act \<Rightarrow> (('x, 's) Node, 'a) act" where
  "consensusA m n = (case m (nd_consensus n) of (r, cm) \<Rightarrow> (r, n\<lparr>nd_consensus := cm\<rparr>))"

text \<open>The head block: \<open>GetBlock\<close> of the current header; a missing block is dereferenced.\<close>

definition headBlock :: "('x, 's, 'z) execution_scheme \<Rightarrow> ('x, 's) executionChain \<Rightarrow> error + block" where
  "headBlock X c = deref (x_GetBlock X (ch_blockchain c) (fst (x_CurrentBlock X (ch_blockchain c))) (h_Number (snd (x_CurrentBlock X (ch_blockchain c)))))"

section \<open>The pending candidate\<close>

definition pendingCandidateAtSlot ::
  "('x, 's, 'g, 'al, 'z) evm_scheme \<Rightarrow> ('x, 'y) codecs_scheme \<Rightarrow> env \<Rightarrow> executionRequestQueue \<Rightarrow> u64 \<Rightarrow> (('x, 's) Node, 's pendingView) act" where
  "pendingCandidateAtSlot X Z E queue targetSlot =
     bindA getA (\<lambda>n.
     bindA (liftA (headBlock X (nd_chain n))) (\<lambda>parent.
     bindA (projectionA (ensureProjection X Z E parent)) (\<lambda>projection.
     bindA getA (\<lambda>n.
     bindA (liftA (buildBlockAtSlot X E (nd_chain n) (slotSeconds (nd_cfg n)) False (pj_Root projection) (nd_pendingWithdrawals n) targetSlot)) (\<lambda>out.
     bindA (liftA (prepareExecutionRequestBlock (v_CalcRequestsHash X) (v_HeaderHash X) (ge_block out) (ge_requests out) queue)) (\<lambda>prepared.
     bindA (liftA (deriveReceiptFields X (nd_chain n) (pb_Block prepared) (ge_receipts out))) (\<lambda>receipts.
     bindA (liftA (candidate_commit X (ch_db (nd_chain n)) (ge_state out) (b_Header (pb_Block prepared)))) (\<lambda>(stableState, root, _).
     if root \<noteq> b_Root (pb_Block prepared)
     then throwA (Errf ''pending state root %s does not match block %s'' [ArgN (unat root), ArgN (unat (b_Root (pb_Block prepared)))])
     else returnA \<lparr>pv_block = pb_Block prepared, pv_state = stableState, pv_receipts = receipts, pv_executable = [], pv_queued = [],
       pv_referenced = (if root \<noteq> h_Root (snd (x_CurrentBlock X (ch_blockchain (nd_chain n)))) then Some root else None)\<rparr>))))))))"

definition pendingCandidate ::
  "('x, 's, 'g, 'al, 'z) evm_scheme \<Rightarrow> ('x, 'y) codecs_scheme \<Rightarrow> env \<Rightarrow> executionRequestQueue \<Rightarrow> (('x, 's) Node, 's pendingView) act" where
  "pendingCandidate X Z E queue =
     bindA getA (\<lambda>n.
     let targetSlot = ch_slot (nd_chain n) + 1 in
     if targetSlot = 0 then throwA (Err ''pending block slot overflows uint64'')
     else pendingCandidateAtSlot X Z E queue targetSlot)"

definition rebuildPendingView ::
  "('x, 's, 'g, 'al, 'z) evm_scheme \<Rightarrow> ('x, 'y) codecs_scheme \<Rightarrow> env \<Rightarrow> (('x, 's) Node, unit) act" where
  "rebuildPendingView X Z E =
     bindA getA (\<lambda>n.
     bindA (pendingCandidate X Z E (nd_pendingExecutionRequests n)) (\<lambda>candidate.
     modifyA (onChain (setPendingView candidate))))"

section \<open>Mining\<close>

record mined =
  mi_parent :: block
  mi_block :: block
  mi_receipts :: "receipt list"
  mi_slot :: u64
  mi_prepared :: preparedExecutionRequestBlock
  mi_safety :: BlockSafety
  mi_session :: storedSessionSafety
  mi_projection :: journalKV
  mi_operation :: preparedOperation
  mi_events :: "Event list"

text \<open>The part of \<open>mineExecutionBlock\<close> before the commit.\<close>

definition buildMined ::
  "('x, 's, 'g, 'al, 'z) evm_scheme \<Rightarrow> ('x, 'y) codecs_scheme \<Rightarrow> env \<Rightarrow> bool \<Rightarrow> (('x, 's) Node, mined) act" where
  "buildMined X Z E noTxs =
     bindA getA (\<lambda>n.
     bindA (liftA (headBlock X (nd_chain n))) (\<lambda>parent.
     bindA (projectionA (ensureProjection X Z E parent)) (\<lambda>projection.
     bindA getA (\<lambda>n.
     bindA (liftA (buildBlock X E (nd_chain n) (slotSeconds (nd_cfg n)) noTxs (pj_Root projection) (nd_pendingWithdrawals n))) (\<lambda>(targetSlot, out).
     bindA (liftA (prepareExecutionRequestBlock (v_CalcRequestsHash X) (v_HeaderHash X) (ge_block out) (ge_requests out)
       (nd_pendingExecutionRequests n))) (\<lambda>prepared.
     let c = nd_chain n; b = pb_Block prepared in
     bindA (liftA (deriveReceiptFields X c b (ge_receipts out))) (\<lambda>receipts.
     bindA (consensusA (projectionPut X Z E c b (pb_Requests prepared))) (\<lambda>projectionMutation.
     bindA (liftA (executionRequestRecordPut (b_Hash b) (pb_Record prepared))) (\<lambda>recordMutation.
     let unsafeReasons = (if pb_Controlled prepared then [taintExecutionRequestControl] else []);
         safety = blockSafetyForChild (getOr zeroBlockSafety (ch_blockSafety c) (b_Hash parent)) (b_Hash b) unsafeReasons;
         session = (if pb_Controlled prepared then taintStoredSession (sessionSafety c) safety unsafeReasons else sessionSafety c) in
     bindA (liftA (candidate_commit X (ch_db c) (ge_state out) (b_Header b))) (\<lambda>(_, root, overlay).
     if root \<noteq> b_Root b
     then throwA (Errf ''candidate state root %s does not match block %s'' [ArgN (unat root), ArgN (unat (b_Root b))]) else
     bindA (planExecutionPuts E (candidate_puts overlay)) (\<lambda>(executionPuts, rollback).
     bindA (liftA (if pb_Controlled prepared
         then bindE (executionRequestQueuePut (pb_Remaining prepared)) (\<lambda>queueMutation. Inr [queueMutation, sessionSafetyPut session])
         else Inr [])) (\<lambda>controlMutations.
     bindA (liftA (finalizedEventBetween X n (targetSlot - 1) targetSlot)) (\<lambda>finalized.
     returnA \<lparr>mi_parent = parent, mi_block = b, mi_receipts = receipts, mi_slot = targetSlot, mi_prepared = prepared,
       mi_safety = safety, mi_session = session, mi_projection = projectionMutation,
       mi_operation = zeroOperation\<lparr>op_Kind := ''head'', op_OldHead := b_Hash parent, op_NewHead := b_Hash b,
         op_TargetNumber := b_Number b, op_DiscardTargetOnCancel := True,
         op_ExecutionPuts := executionPuts, op_RollbackDeletes := rollback,
         op_Puts := [timelinePut ((timeline c)\<lparr>tl_CurrentSlot := targetSlot, tl_LastProcessedSlot := targetSlot\<rparr>),
             blockSlotPut (b_Hash b) targetSlot, canonicalSlotPut targetSlot (b_Hash b), blockSafetyPut (b_Hash b) safety,
             projectionMutation, recordMutation] @ blobPuts c b @ controlMutations\<rparr>,
       mi_events = zeroEvent\<lparr>ev_Type := ''block'', ev_Slot := targetSlot, ev_BlockHash := b_Hash b, ev_BlockNumber := b_Number b\<rparr>
         # (case finalized of None \<Rightarrow> [] | Some e \<Rightarrow> [e])\<rparr>)))))))))))))"

text \<open>The in-memory changes of the commit. The reasons of the session are a set; its order is that of insertion.\<close>

definition applyMined :: "('x, 's, 'z) execution_scheme \<Rightarrow> mined \<Rightarrow> ('x, 's) Node \<Rightarrow> ('x, 's) Node" where
  "applyMined X mined n =
     (let b = mi_block mined;
          c = applyCanonicalBlock X b (mi_slot mined) (nd_chain n);
          c = c\<lparr>ch_blockSafety := AList.update (b_Hash b) (mi_safety mined) (ch_blockSafety c)\<rparr>;
          c = (if pb_Controlled (mi_prepared mined)
               then c\<lparr>ch_sessionTainted := ss_Tainted (mi_session mined), ch_firstUnsafeBlock := ss_FirstUnsafeBlock (mi_session mined),
                 ch_taintReasons := ch_taintReasons c @ filter (\<lambda>r. r \<notin> set (ch_taintReasons c)) (ss_Reasons (mi_session mined))\<rparr>
               else c);
          c = applyProjectionIndex (b_Hash b) (mi_projection mined) c
      in n\<lparr>nd_chain := c, nd_pendingExecutionRequests := pb_Remaining (mi_prepared mined)\<rparr>)"

definition mineExecutionBlock ::
  "('x, 's, 'g, 'al, 'z) evm_scheme \<Rightarrow> ('x, 'y) codecs_scheme \<Rightarrow> env \<Rightarrow> env \<Rightarrow> bool \<Rightarrow> (('x, 's) Node, block \<times> receipt list) act" where
  "mineExecutionBlock X Z E E' noTxs =
     bindA (buildMined X Z E noTxs) (\<lambda>mined.
     bindA (commitPrepared E (mi_operation mined) (mi_events mined)
       (publishBlock X E (op_ExecutionPuts (mi_operation mined)) (mi_block mined) (mi_receipts mined)) (applyMined X mined)) (\<lambda>_.
     bindA (modifyA (nd_pendingWithdrawals_update (\<lambda>_. []))) (\<lambda>_.
     bindA (catchA disableWrites (wrapFmt ''block committed but pending view rebuild failed: %w'') (rebuildPendingView X Z E')) (\<lambda>_.
     returnA (mi_block mined, mi_receipts mined)))))"

text \<open>
  The environments of the rounds are those of the list, and \<open>ctx\<close> is the context's error before each round.
\<close>

fun mineBlocks ::
  "('x, 's, 'g, 'al, 'z) evm_scheme \<Rightarrow> ('x, 'y) codecs_scheme \<Rightarrow> (nat \<Rightarrow> error option) \<Rightarrow> (nat \<Rightarrow> env \<times> env) \<Rightarrow> bool \<Rightarrow> nat \<Rightarrow> nat
   \<Rightarrow> (('x, 's) Node, hash list) act" where
  "mineBlocks X Z ctx Es noTxs i 0 = returnA []"
| "mineBlocks X Z ctx Es noTxs i (Suc rounds) =
     bindA (failWith (ctx i)) (\<lambda>_.
     bindA (mineExecutionBlock X Z (fst (Es i)) (snd (Es i)) noTxs) (\<lambda>(b, _).
     bindA (mineBlocks X Z ctx Es noTxs (Suc i) rounds) (\<lambda>hashes.
     returnA (b_Hash b # hashes))))"

definition Mine ::
  "('x, 's, 'g, 'al, 'z) evm_scheme \<Rightarrow> ('x, 'y) codecs_scheme \<Rightarrow> (nat \<Rightarrow> error option) \<Rightarrow> (nat \<Rightarrow> env \<times> env) \<Rightarrow> u64 \<Rightarrow> bool
   \<Rightarrow> (('x, 's) Node, hash list) act" where
  "Mine X Z ctx Es rounds noTxs =
     bindA getA (\<lambda>n.
     if rounds > lm_MaxControlOperations (cf_Limits (nd_cfg n))
     then throwA (ResourceLimit ''block count'' (unat rounds) (unat (lm_MaxControlOperations (cf_Limits (nd_cfg n))))) else
     bindA (liftA (checkFixedListResponse (nd_cfg n) ''mine'' rounds 68)) (\<lambda>_.
     executeWrite (mineBlocks X Z ctx Es noTxs 0 (unat rounds))))"

section \<open>Missed slots\<close>

definition missedResponse :: "Config \<Rightarrow> (nat \<Rightarrow> error option) \<Rightarrow> u64 \<Rightarrow> nat \<Rightarrow> error + u64" where
  "missedResponse cfg ctx start rounds =
     foldE (\<lambda>responseSize offset.
       bindE (case ctx offset of Some e \<Rightarrow> Inl e | None \<Rightarrow> Inr ()) (\<lambda>_.
       let responseSize = (if offset \<noteq> 1 then responseSize + 1 else responseSize) + of_nat (length (decimal (unat (start + of_nat offset)))) in
       if responseSize > word_of_int (lm_MaxResponseBytes (cf_Limits cfg))
       then Inl (ResourceLimit ''missed slot response bytes'' (unat responseSize) (unat (word_of_int (lm_MaxResponseBytes (cf_Limits cfg)) :: u64)))
       else Inr responseSize)) 2 [1..<Suc rounds]"

definition missedEvents :: "(nat \<Rightarrow> error option) \<Rightarrow> u64 \<Rightarrow> nat \<Rightarrow> error + u64 list" where
  "missedEvents ctx start rounds =
     mapE (\<lambda>offset. bindE (case ctx (rounds + offset) of Some e \<Rightarrow> Inl e | None \<Rightarrow> Inr ()) (\<lambda>_. Inr (start + of_nat offset))) [1..<Suc rounds]"

definition MissSlots ::
  "('x, 's, 'g, 'al, 'z) evm_scheme \<Rightarrow> ('x, 'y) codecs_scheme \<Rightarrow> (nat \<Rightarrow> error option) \<Rightarrow> env \<Rightarrow> u64 \<Rightarrow> (('x, 's) Node, u64 list) act" where
  "MissSlots X Z ctx E rounds =
     bindA getA (\<lambda>n.
     if rounds > lm_MaxControlOperations (cf_Limits (nd_cfg n))
     then throwA (ResourceLimit ''missed slot count'' (unat rounds) (unat (lm_MaxControlOperations (cf_Limits (nd_cfg n))))) else
     bindA (liftA (checkFixedListResponse (nd_cfg n) ''missed slot'' rounds 1)) (\<lambda>_.
     executeWrite (
       bindA getA (\<lambda>n.
       let start = ch_slot (nd_chain n) in
       if rounds > MaxUint64 - start then throwA (Err ''missed slot range overflows uint64'') else
       bindA (liftA (missedResponse (nd_cfg n) ctx start (unat rounds))) (\<lambda>_.
       bindA (liftA (missedEvents ctx start (unat rounds))) (\<lambda>slots.
       if rounds = 0 then returnA slots else
       bindA (pendingCandidateAtSlot X Z E (nd_pendingExecutionRequests n) (start + rounds + 1)) (\<lambda>pending.
       bindA getA (\<lambda>n.
       bindA (liftA (finalizedEventBetween X n start (start + rounds))) (\<lambda>finalized.
       bindA (commitAuxiliary E
         [timelinePut ((timeline (nd_chain n))\<lparr>tl_CurrentSlot := start + rounds, tl_LastProcessedSlot := start + rounds\<rparr>)] []
         (map (\<lambda>slot. zeroEvent\<lparr>ev_Type := ''missed_slot'', ev_Slot := slot\<rparr>) slots @ (case finalized of None \<Rightarrow> [] | Some e \<Rightarrow> [e]))
         (onChain (\<lambda>c. setPendingView pending (c\<lparr>ch_slot := start + rounds, ch_lastProcessedSlot := start + rounds\<rparr>)))) (\<lambda>_.
       returnA slots))))))))))"

section \<open>Transactions, withdrawals and requests\<close>

text \<open>
  \<open>notification\<close> is the encoded transaction of the RPC layer. Copying the sidecar keeps its value.
\<close>

definition SendTransaction ::
  "('x, 's, 'g, 'al, 'z) evm_scheme \<Rightarrow> ('x, 'y) codecs_scheme \<Rightarrow> env \<Rightarrow> env \<Rightarrow> (tx \<Rightarrow> header \<Rightarrow> paramsConfig \<Rightarrow> error + bytes) \<Rightarrow> tx option
   \<Rightarrow> (('x, 's) Node, hash) act" where
  "SendTransaction X Z E E' marshal maybeTx =
     (case maybeTx of
        None \<Rightarrow> throwA (Err ''transaction is required'')
      | Some tx \<Rightarrow> executeWrite (
          bindA getA (\<lambda>n.
          let c = nd_chain n; snapshot = snapshotTransactionPool c; oldHead = fst (x_CurrentBlock X (ch_blockchain c)) in
          bindA (liftA (marshal tx (validationHeader X c) (ch_config c))) (\<lambda>notification.
          bindA (liftA (addTransaction X tx c)) (\<lambda>c'.
          bindA (modifyA (nd_chain_update (\<lambda>_. c'))) (\<lambda>_.
          bindA (if nd_miningMode n = ''transaction''
                 then bindA (catchA (\<lambda>_ m. if fst (x_CurrentBlock X (ch_blockchain (nd_chain m))) = oldHead
                        then onChain (restoreTransactionPool snapshot) m else m) id (mineExecutionBlock X Z E E' False)) (\<lambda>_. returnA ())
                 else bindA (catchA (\<lambda>_. onChain (restoreTransactionPool snapshot)) id
                        (pendingCandidate X Z E (nd_pendingExecutionRequests n))) (\<lambda>candidate.
                      modifyA (onChain (setPendingView candidate)))) (\<lambda>_.
          bindA (modifyA (\<lambda>n. n\<lparr>nd_pendingEvents := pendingHashLog_record (nd_pendingEvents n) (tx_Hash tx) notification\<rparr>)) (\<lambda>_.
          returnA (tx_Hash tx)))))))))"

definition AddWithdrawal ::
  "('x, 's, 'g, 'al, 'z) evm_scheme \<Rightarrow> ('x, 'y) codecs_scheme \<Rightarrow> env \<Rightarrow> WithdrawalRequest \<Rightarrow> (('x, 's) Node, unit) act" where
  "AddWithdrawal X Z E request =
     (if wr_Amount request = 0 then throwA ErrWithdrawalAmountZero
      else executeWrite (
        bindA getA (\<lambda>n.
        if length (nd_pendingWithdrawals n) \<ge> maxWithdrawalsPerBlock then throwA ErrWithdrawalQueueFull else
        bindA (modifyA (\<lambda>n. n\<lparr>nd_pendingWithdrawals := nd_pendingWithdrawals n @ [request]\<rparr>)) (\<lambda>_.
        catchA (\<lambda>_ n. n\<lparr>nd_pendingWithdrawals := butlast (nd_pendingWithdrawals n)\<rparr>) id (rebuildPendingView X Z E)))))"

definition addExecutionRequest ::
  "('x, 's, 'g, 'al, 'z) evm_scheme \<Rightarrow> ('x, 'y) codecs_scheme \<Rightarrow> env \<Rightarrow> byte \<Rightarrow> bytes \<Rightarrow> (('x, 's) Node, unit) act" where
  "addExecutionRequest X Z E requestType data = executeWrite (
     bindA getA (\<lambda>n.
     bindA (liftA (enqueue (nd_pendingExecutionRequests n) requestType data)) (\<lambda>proposed.
     bindA (pendingCandidate X Z E proposed) (\<lambda>candidate.
     bindA (liftA (executionRequestQueuePut proposed)) (\<lambda>queueMutation.
     commitAuxiliary E [queueMutation] [] []
       (\<lambda>n. (onChain (setPendingView candidate) n)\<lparr>nd_pendingExecutionRequests := proposed\<rparr>))))))"

section \<open>Snapshots and checkpoints\<close>

definition currentPoint :: "('x, 's, 'z) execution_scheme \<Rightarrow> ('x, 's) executionChain \<Rightarrow> chainPoint" where
  "currentPoint X c =
     (let (hash, head) = x_CurrentBlock X (ch_blockchain c) in
      \<lparr>cp_hash = hash, cp_number = h_Number head, cp_slot = ch_slot c,
       cp_tainted = bs_Tainted (getOr zeroBlockSafety (ch_blockSafety c) hash), cp_used = False\<rparr>)"

definition Snapshot :: "('x, 's, 'z) execution_scheme \<Rightarrow> (('x, 's) Node, u64) act" where
  "Snapshot X = executeWrite (
     bindA getA (\<lambda>n.
     if nd_nextSnapshot n = MaxUint64 then throwA (Err ''snapshot ID overflows uint64'') else
     let id = nd_nextSnapshot n + 1 in
     bindA (modifyA (\<lambda>n. n\<lparr>nd_nextSnapshot := id, nd_snapshots := AList.update id (currentPoint X (nd_chain n)) (nd_snapshots n)\<rparr>)) (\<lambda>_.
     returnA id)))"

definition Checkpoint :: "('x, 's, 'z) execution_scheme \<Rightarrow> env \<Rightarrow> string \<Rightarrow> (('x, 's) Node, unit) act" where
  "Checkpoint X E name =
     (if name = [] then throwA (Err ''checkpoint name is required'')
      else executeWrite (
        bindA getA (\<lambda>n.
        let point = currentPoint X (nd_chain n) in
        commitAuxiliary E [checkpointPut name point] [] []
          (\<lambda>n. n\<lparr>nd_checkpoints := AList.update name point (nd_checkpoints n)\<rparr>))))"

section \<open>What leaves memory and store in step\<close>

lemma ensureProjection_chain:
  assumes "ensureProjection X Z E b (c, m) = (r, (c', m'))"
  shows "c' = c \<or> (\<exists>p. c' = c\<lparr>ch_db := writeBatch [BPut (KProjection (b_Hash b)) (Val (VProjection p))] (ch_db c)\<rparr>)"
  using assms by (auto simp: ensureProjection_def split: sum.splits option.splits prod.splits if_splits)

text \<open>The node after a projection may have been written: only the store and the cache of Beacon blocks differ.\<close>

definition projected :: "('x, 's) Node \<Rightarrow> ('x, 's) Node \<Rightarrow> bool" where
  "projected n n' \<longleftrightarrow> (\<exists>db cm. n' = n\<lparr>nd_chain := (nd_chain n)\<lparr>ch_db := db\<rparr>, nd_consensus := cm\<rparr>
     \<and> (db = ch_db (nd_chain n) \<or> (\<exists>h p. db = writeBatch [BPut (KProjection h) (Val (VProjection p))] (ch_db (nd_chain n)))))"

lemma projectedI: "projected n (n\<lparr>nd_consensus := cm\<rparr>)" "projected n n"
proof -
  show "projected n (n\<lparr>nd_consensus := cm\<rparr>)" for cm
    unfolding projected_def by (rule exI[of _ "ch_db (nd_chain n)"], rule exI[of _ cm]) simp
  from this[of "nd_consensus n"] show "projected n n" by simp
qed

lemma projectionA_projected: "projectionA (ensureProjection X Z E b) n = (r, n') \<Longrightarrow> projected n n'"
  unfolding projectionA_def projected_def
  by (auto split: prod.splits dest!: ensureProjection_chain) force+

lemma projected_mirror:
  assumes "projected n n'" "mirror n"
  shows "mirror n'"
proof -
  from assms(1) obtain db cm where n': "n' = n\<lparr>nd_chain := (nd_chain n)\<lparr>ch_db := db\<rparr>, nd_consensus := cm\<rparr>"
    and db: "db = ch_db (nd_chain n) \<or> (\<exists>h p. db = writeBatch [BPut (KProjection h) (Val (VProjection p))] (ch_db (nd_chain n)))"
    by (auto simp: projected_def)
  show ?thesis
  proof (rule mirror_untracked[OF assms(2), of db])
    show "map_of db k = map_of (ch_db (nd_chain n)) k" if "tracked k \<or> k = KQueue \<or> k \<in> range KEvent" for k
      using db that by (auto simp: writeBatch_Cons update_conv')
    have "distinct (map fst (ch_db (nd_chain n)))" using mirrorD(5)[OF assms(2)] by (simp add: storedLog_def)
    then show "distinct (map fst db)" using db by (auto intro!: distinct_writeBatch)
    show "nd_chain n' = (nd_chain n)\<lparr>ch_db := db, ch_pendingView := ch_pendingView (nd_chain n)\<rparr>" by (simp add: n')
  qed (simp_all add: n')
qed

lemma projected_inStep: "projected n n' \<Longrightarrow> inStep n \<Longrightarrow> inStep n'"
  using projected_mirror by (fastforce simp: inStep_def projected_def)

lemma inStep_fields:
  assumes "inStep n" "nd_writeErr n' = nd_writeErr n"
    "nd_chain n' = (nd_chain n)\<lparr>ch_pendingView := view\<rparr>"
    "nd_events n' = nd_events n" "nd_pendingExecutionRequests n' = nd_pendingExecutionRequests n"
    "nd_checkpoints n' = nd_checkpoints n" "nd_branches n' = nd_branches n"
  shows "inStep n'"
proof (cases "nd_writeErr n")
  case None
  then have m: "mirror n" using assms(1) by (simp add: inStep_def)
  have "mirror n'"
    by (rule mirror_untracked[OF m, of "ch_db (nd_chain n)" _ view]) (use mirrorD(5)[OF m] in \<open>simp_all add: assms storedLog_def\<close>)
  then show ?thesis by (simp add: inStep_def)
qed (simp add: inStep_def assms)

lemma keeps_projectionA [keeps_rules]: "keeps inStep (projectionA (ensureProjection X Z E b))"
  by (rule keepsI) (blast intro: projected_inStep projectionA_projected)

lemma keeps_consensusA [keeps_rules]: "keeps inStep (consensusA m)"
  by (rule keepsI) (auto simp: consensusA_def split: prod.splits intro: projected_inStep projectedI)

lemma keeps_plan [keeps_rules]: "keeps inStep (planExecutionPuts E puts)"
  unfolding planExecutionPuts_def by (intro keeps_rules inStep_disabled)

lemma keeps_candidate [keeps_rules]: "keeps inStep (pendingCandidateAtSlot X Z E q s)"
  unfolding pendingCandidateAtSlot_def by (intro keeps_rules)

lemma keeps_pending [keeps_rules]: "keeps inStep (pendingCandidate X Z E q)"
  unfolding pendingCandidate_def Let_def by (intro keeps_rules)

lemma inStep_view: "inStep n \<Longrightarrow> inStep (onChain (setPendingView view) n)"
  by (rule inStep_fields) (simp_all add: setPendingView_def Let_def)

lemma keeps_rebuild [keeps_rules]: "keeps inStep (rebuildPendingView X Z E)"
  unfolding rebuildPendingView_def by (intro keeps_rules inStep_view)

lemma keeps_buildMined [keeps_rules]: "keeps inStep (buildMined X Z E noTxs)"
  unfolding buildMined_def Let_def by (intro keeps_rules)

section \<open>What is committed\<close>

lemma consensusA_eq: "consensusA m n = (r, n') \<longleftrightarrow> (\<exists>cm. m (nd_consensus n) = (r, cm) \<and> n' = n\<lparr>nd_consensus := cm\<rparr>)"
  by (auto simp: consensusA_def split: prod.splits)

lemma projectionPut_key: "projectionPut X Z E c b rs m = (Inr kv, m') \<Longrightarrow> kv_Key kv = KProjection (b_Hash b)"
  by (auto simp: projectionPut_def act_inv act_run split: option.splits if_splits)

lemma planExecutionPuts_Inr:
  "planExecutionPuts E puts n = (Inr (executionPuts, rollback), n') \<longleftrightarrow>
     n' = n \<and> executionPutsForJournal E (ch_db (nd_chain n)) puts = Inr (executionPuts, rollback)"
  by (auto simp: planExecutionPuts_def act_inv act_run)

text \<open>A successful build, told from the state after it.\<close>

definition minedFrom ::
  "('x, 's, 'g, 'al, 'z) evm_scheme \<Rightarrow> env \<Rightarrow> bool \<Rightarrow> ('x, 's) Node \<Rightarrow> mined \<Rightarrow> hash \<Rightarrow> 's generated \<Rightarrow> journalKV \<Rightarrow> journalKV list
   \<Rightarrow> (bytes \<times> bytes) list \<Rightarrow> bool" where
  "minedFrom X E noTxs n mi root out recordMutation controls overlay \<longleftrightarrow>
     headBlock X (nd_chain n) = Inr (mi_parent mi)
     \<and> buildBlock X E (nd_chain n) (slotSeconds (nd_cfg n)) noTxs root (nd_pendingWithdrawals n) = Inr (mi_slot mi, out)
     \<and> prepareExecutionRequestBlock (v_CalcRequestsHash X) (v_HeaderHash X) (ge_block out) (ge_requests out)
         (nd_pendingExecutionRequests n) = Inr (mi_prepared mi)
     \<and> mi_block mi = pb_Block (mi_prepared mi) \<and> kv_Key (mi_projection mi) = KProjection (b_Hash (mi_block mi))
     \<and> executionRequestRecordPut (b_Hash (mi_block mi)) (pb_Record (mi_prepared mi)) = Inr recordMutation
     \<and> mi_safety mi = blockSafetyForChild (getOr zeroBlockSafety (ch_blockSafety (nd_chain n)) (b_Hash (mi_parent mi))) (b_Hash (mi_block mi))
         (if pb_Controlled (mi_prepared mi) then [taintExecutionRequestControl] else [])
     \<and> mi_session mi = (if pb_Controlled (mi_prepared mi)
         then taintStoredSession (sessionSafety (nd_chain n)) (mi_safety mi) [taintExecutionRequestControl] else sessionSafety (nd_chain n))
     \<and> (if pb_Controlled (mi_prepared mi)
         then bindE (executionRequestQueuePut (pb_Remaining (mi_prepared mi))) (\<lambda>queueMutation. Inr [queueMutation, sessionSafetyPut (mi_session mi)])
         else Inr []) = Inr controls
     \<and> op_ExecutionPuts (mi_operation mi) = candidate_puts overlay
     \<and> op_RollbackDeletes (mi_operation mi) = rollbackKeys (ch_db (nd_chain n)) (candidate_puts overlay)
     \<and> op_Puts (mi_operation mi) = [timelinePut ((timeline (nd_chain n))\<lparr>tl_CurrentSlot := mi_slot mi, tl_LastProcessedSlot := mi_slot mi\<rparr>),
             blockSlotPut (b_Hash (mi_block mi)) (mi_slot mi), canonicalSlotPut (mi_slot mi) (b_Hash (mi_block mi)),
             blockSafetyPut (b_Hash (mi_block mi)) (mi_safety mi), mi_projection mi, recordMutation]
           @ blobPuts (nd_chain n) (mi_block mi) @ controls
     \<and> op_Deletes (mi_operation mi) = [] \<and> op_Kind (mi_operation mi) = ''head'' \<and> op_DiscardTargetOnCancel (mi_operation mi)
     \<and> op_OldHead (mi_operation mi) = b_Hash (mi_parent mi) \<and> op_NewHead (mi_operation mi) = b_Hash (mi_block mi)
     \<and> ev_Type (hd (mi_events mi)) = ''block''"

lemma headBlock_cong: "ch_blockchain c' = ch_blockchain c \<Longrightarrow> headBlock X c' = headBlock X c"
  by (simp add: headBlock_def)

lemma projected_chain: "projected n n' \<Longrightarrow> ch_blockchain (nd_chain n') = ch_blockchain (nd_chain n)"
  by (auto simp: projected_def)

lemma if_throw_Inr: "(if c then throwA e else m) s = (Inr a, t) \<longleftrightarrow> \<not> c \<and> m s = (Inr a, t)"
  by (simp add: act_run)

lemma buildMined_Inr:
  assumes "buildMined X Z E noTxs n = (Inr mi, n1)"
  obtains n' root out recordMutation controls overlay cm where "projected n n'" "n1 = n'\<lparr>nd_consensus := cm\<rparr>"
    "minedFrom X E noTxs n1 mi root out recordMutation controls overlay"
proof -
  from assms obtain parent projection n' where a: "headBlock X (nd_chain n) = Inr parent"
    "projectionA (ensureProjection X Z E parent) n = (Inr projection, n')"
    unfolding buildMined_def Let_def by (auto simp: bindA_Inr act_run liftA_eq)
  have pr: "projected n n'" by (rule projectionA_projected[OF a(2)])
  have run: "bindA getA (\<lambda>n. bindA (liftA (headBlock X (nd_chain n))) (\<lambda>parent. bindA (projectionA (ensureProjection X Z E parent)) (k parent))) n
    = k parent projection n'" for k :: "block \<Rightarrow> storedProjection \<Rightarrow> (('a, 'b) Node, mined) act"
    using a by (simp add: act_simps)
  note rest = assms[unfolded buildMined_def Let_def run]
  let ?reasons = "\<lambda>prepared. if pb_Controlled prepared then [taintExecutionRequestControl] else []"
  let ?safety = "\<lambda>prepared. blockSafetyForChild (getOr zeroBlockSafety (ch_blockSafety (nd_chain n')) (b_Hash parent)) (b_Hash (pb_Block prepared)) (?reasons prepared)"
  let ?session = "\<lambda>prepared. if pb_Controlled prepared then taintStoredSession (sessionSafety (nd_chain n')) (?safety prepared) (?reasons prepared) else sessionSafety (nd_chain n')"
  from rest obtain targetSlot out prepared receipts pm recordMutation cm overlay executionPuts rollback controls finalized where
    b: "buildBlock X E (nd_chain n') (slotSeconds (nd_cfg n')) noTxs (pj_Root projection) (nd_pendingWithdrawals n') = Inr (targetSlot, out)"
    "prepareExecutionRequestBlock (v_CalcRequestsHash X) (v_HeaderHash X) (ge_block out) (ge_requests out) (nd_pendingExecutionRequests n') = Inr prepared"
    "projectionPut X Z E (nd_chain n') (pb_Block prepared) (pb_Requests prepared) (nd_consensus n') = (Inr pm, cm)"
    "executionRequestRecordPut (b_Hash (pb_Block prepared)) (pb_Record prepared) = Inr recordMutation"
    "executionPutsForJournal E (ch_db (nd_chain n')) (candidate_puts overlay) = Inr (executionPuts, rollback)"
    "(if pb_Controlled prepared
         then bindE (executionRequestQueuePut (pb_Remaining prepared)) (\<lambda>queueMutation. Inr [queueMutation, sessionSafetyPut (?session prepared)])
         else Inr []) = Inr controls"
    and n1: "n1 = n'\<lparr>nd_consensus := cm\<rparr>"
    and mi: "mi = \<lparr>mi_parent = parent, mi_block = pb_Block prepared, mi_receipts = receipts, mi_slot = targetSlot, mi_prepared = prepared,
       mi_safety = ?safety prepared, mi_session = ?session prepared, mi_projection = pm,
       mi_operation = zeroOperation\<lparr>op_Kind := ''head'', op_OldHead := b_Hash parent, op_NewHead := b_Hash (pb_Block prepared),
         op_TargetNumber := b_Number (pb_Block prepared), op_DiscardTargetOnCancel := True,
         op_ExecutionPuts := executionPuts, op_RollbackDeletes := rollback,
         op_Puts := [timelinePut ((timeline (nd_chain n'))\<lparr>tl_CurrentSlot := targetSlot, tl_LastProcessedSlot := targetSlot\<rparr>),
             blockSlotPut (b_Hash (pb_Block prepared)) targetSlot, canonicalSlotPut targetSlot (b_Hash (pb_Block prepared)),
             blockSafetyPut (b_Hash (pb_Block prepared)) (?safety prepared),
             pm, recordMutation] @ blobPuts (nd_chain n') (pb_Block prepared) @ controls\<rparr>,
       mi_events = zeroEvent\<lparr>ev_Type := ''block'', ev_Slot := targetSlot, ev_BlockHash := b_Hash (pb_Block prepared), ev_BlockNumber := b_Number (pb_Block prepared)\<rparr>
         # (case finalized of None \<Rightarrow> [] | Some e \<Rightarrow> [e])\<rparr>"
    by (clarsimp simp: bindA_Inr act_run liftA_eq consensusA_eq planExecutionPuts_Inr if_throw_Inr split_beta split del: if_split)
  have "minedFrom X E noTxs n1 mi (pj_Root projection) out recordMutation controls overlay"
    unfolding minedFrom_def n1 mi
    using b a(1) headBlock_cong[OF projected_chain[OF pr], of X] projectionPut_key[OF b(3)] executionPutsForJournal_ok[OF b(5)]
    by (cases "pb_Controlled prepared") (simp_all add: zeroOperation_def)
  then show thesis using that[OF pr n1] by blast
qed

lemma putOps_filter:
  "P k \<Longrightarrow> map_of (writeBatch (putOps ps) db) k = map_of (writeBatch (putOps (filter (\<lambda>p. P (kv_Key p)) ps)) db) k"
proof (induction ps arbitrary: db)
  case (Cons p ps)
  have "map_of (writeBatch (putOps ps) (AList.update (kv_Key p) (Val (kv_Value p)) db)) k = map_of (writeBatch (putOps ps) db) k" if "\<not> P (kv_Key p)"
    using that Cons.prems by (intro writeBatch_cong) (auto simp: update_conv')
  then show ?case using Cons by (auto simp: putOps_def writeBatch_Cons)
qed simp

lemma publishBlock_Inr:
  assumes "lawfulExecution X" "publishBlock X E puts b rs c = (Inr u, c')"
  shows "\<exists>x. c' = c\<lparr>ch_db := writeBatch (putOps puts) (ch_db c), ch_blockchain := x\<rparr> \<and> x_CurrentBlock X x = (b_Hash b, b_Header b)
    \<and> x_GetBlockByHash X x (b_Hash b) = Some b"
proof -
  let ?w = "x_WriteBlock X b rs (ch_blockchain c)"
  have w: "x_GetBlockByHash X ?w (b_Hash b) = Some b" by (simp add: lawfulD(4)[OF assms(1)])
  obtain x where x: "x_SetCanonical X b ?w = (x, None)"
    "c' = c\<lparr>ch_db := writeBatch (putOps puts) (ch_db c), ch_blockchain := x\<rparr>"
    using assms(2) by (auto simp: publishBlock_def writeJournalPuts_def persistBuiltBlock_def act_inv act_run setCanonical_eq split: option.splits)
  have "x_GetBlockByHash X x (b_Hash b) = Some b" using lawfulD(3)[OF assms(1), of b ?w "b_Hash b"] w x(1) by simp
  then show ?thesis using lawfulD(1)[OF assms(1) w x(1)] x(2) by auto
qed

lemma applyTransactions_fields:
  "\<exists>a bl p. fold (applyTransaction X b) txs c = c\<lparr>ch_arrival := a, ch_blobs := bl, ch_pending := p\<rparr>"
proof (induction txs arbitrary: c)
  case Nil
  show ?case by (rule exI[of _ "ch_arrival c"], rule exI[of _ "ch_blobs c"], rule exI[of _ "ch_pending c"]) simp
next
  case (Cons t txs)
  have "\<exists>a bl p. applyTransaction X b t c = c\<lparr>ch_arrival := a, ch_blobs := bl, ch_pending := p\<rparr>"
  proof (cases "t_Sender X (ch_config c) (b_Number b) (b_Time b) t")
    case (Inl e)
    then show ?thesis by (intro exI[of _ "ch_arrival c"] exI[of _ "ch_blobs c"] exI[of _ "ch_pending c"]) (simp add: applyTransaction_def)
  next
    case (Inr a)
    then show ?thesis unfolding applyTransaction_def Inr sum.case Let_def by blast
  qed
  then obtain a bl p where t: "applyTransaction X b t c = c\<lparr>ch_arrival := a, ch_blobs := bl, ch_pending := p\<rparr>" by blast
  obtain a' bl' p' where "fold (applyTransaction X b) txs (applyTransaction X b t c)
      = (applyTransaction X b t c)\<lparr>ch_arrival := a', ch_blobs := bl', ch_pending := p'\<rparr>" using Cons by blast
  then show ?case unfolding t by (intro exI[of _ a'] exI[of _ bl'] exI[of _ p']) (simp add: t)
qed

lemma applyMined_fields:
  obtains a bl p idx where "applyMined X mi n = n\<lparr>nd_chain := (nd_chain n)
     \<lparr>ch_arrival := a, ch_blobs := bl, ch_pending := p, ch_slot := mi_slot mi, ch_lastProcessedSlot := mi_slot mi,
      ch_slotByHash := AList.update (b_Hash (mi_block mi)) (mi_slot mi) (ch_slotByHash (nd_chain n)),
      ch_canonicalBlockBySlot := AList.update (mi_slot mi) (b_Hash (mi_block mi)) (ch_canonicalBlockBySlot (nd_chain n)),
      ch_blockSafety := AList.update (b_Hash (mi_block mi)) (mi_safety mi) (ch_blockSafety (nd_chain n)),
      ch_sessionTainted := (if pb_Controlled (mi_prepared mi) then ss_Tainted (mi_session mi) else ch_sessionTainted (nd_chain n)),
      ch_firstUnsafeBlock := (if pb_Controlled (mi_prepared mi) then ss_FirstUnsafeBlock (mi_session mi) else ch_firstUnsafeBlock (nd_chain n)),
      ch_taintReasons := (if pb_Controlled (mi_prepared mi)
        then ch_taintReasons (nd_chain n) @ filter (\<lambda>r. r \<notin> set (ch_taintReasons (nd_chain n))) (ss_Reasons (mi_session mi))
        else ch_taintReasons (nd_chain n)),
      ch_beaconBlockByRoot := idx\<rparr>, nd_pendingExecutionRequests := pb_Remaining (mi_prepared mi)\<rparr>"
proof -
  obtain a bl p where t: "fold (applyTransaction X (mi_block mi)) (b_Transactions (mi_block mi)) (nd_chain n)
      = (nd_chain n)\<lparr>ch_arrival := a, ch_blobs := bl, ch_pending := p\<rparr>"
    using applyTransactions_fields by blast
  have idx: "\<exists>idx. applyProjectionIndex h m c = c\<lparr>ch_beaconBlockByRoot := idx\<rparr>" for h m and c :: "('a, 'b) executionChain"
  proof (cases "kv_Value m")
    case (VProjection r)
    then show ?thesis by (auto simp: applyProjectionIndex_def)
  qed (auto simp: applyProjectionIndex_def intro!: exI[of _ "ch_beaconBlockByRoot c"])
  let ?c = "(nd_chain n)
     \<lparr>ch_arrival := a, ch_blobs := bl, ch_pending := p, ch_slot := mi_slot mi, ch_lastProcessedSlot := mi_slot mi,
      ch_slotByHash := AList.update (b_Hash (mi_block mi)) (mi_slot mi) (ch_slotByHash (nd_chain n)),
      ch_canonicalBlockBySlot := AList.update (mi_slot mi) (b_Hash (mi_block mi)) (ch_canonicalBlockBySlot (nd_chain n)),
      ch_blockSafety := AList.update (b_Hash (mi_block mi)) (mi_safety mi) (ch_blockSafety (nd_chain n)),
      ch_sessionTainted := (if pb_Controlled (mi_prepared mi) then ss_Tainted (mi_session mi) else ch_sessionTainted (nd_chain n)),
      ch_firstUnsafeBlock := (if pb_Controlled (mi_prepared mi) then ss_FirstUnsafeBlock (mi_session mi) else ch_firstUnsafeBlock (nd_chain n)),
      ch_taintReasons := (if pb_Controlled (mi_prepared mi)
        then ch_taintReasons (nd_chain n) @ filter (\<lambda>r. r \<notin> set (ch_taintReasons (nd_chain n))) (ss_Reasons (mi_session mi))
        else ch_taintReasons (nd_chain n))\<rparr>"
  have "applyMined X mi n = n\<lparr>nd_chain := applyProjectionIndex (b_Hash (mi_block mi)) (mi_projection mi) ?c,
     nd_pendingExecutionRequests := pb_Remaining (mi_prepared mi)\<rparr>"
    by (simp add: applyMined_def Let_def applyCanonicalBlock_def t)
  then show thesis using idx[of "b_Hash (mi_block mi)" "mi_projection mi" ?c] that by auto
qed

lemma session_stored:
  assumes "s = taintStoredSession (sessionSafety c) safety [r]" "r \<noteq> []"
  shows "sortedReasonSet (ch_taintReasons c @ filter (\<lambda>r. r \<notin> set (ch_taintReasons c)) (ss_Reasons s)) = ss_Reasons s"
proof -
  let ?old = "sortedReasonSet (ch_taintReasons c)"
  have s: "ss_Reasons s = sort (if r \<in> set ?old then ?old else ?old @ [r])"
    using assms by (simp add: taintStoredSession_def addReasons_def sessionSafety_def)
  have old: "distinct ?old" "set ?old = set (ch_taintReasons c)" by (simp_all add: sortedReasonSet_def)
  then have d: "distinct (ss_Reasons s)" "set (ss_Reasons s) = insert r (set (ch_taintReasons c))" "sorted (ss_Reasons s)"
    unfolding s by (auto split: if_splits)
  show ?thesis unfolding sortedReasonSet_def
    by (rule sorted_distinct_set_unique) (use d in auto)
qed

lemma prepare_cases:
  assumes "prepareExecutionRequestBlock calc hh b native q = Inr p"
  shows "if pb_Controlled p then \<exists>h. pb_Block p = WithSeal hh b ((b_Header b)\<lparr>h_RequestsHash := h\<rparr>) else pb_Block p = b \<and> pb_Remaining p = q"
proof -
  obtain parsed where parsed: "parseExecutionRequests native = Inr parsed"
    using assms by (auto simp: prepareExecutionRequestBlock_def bindE_eq_Inr)
  have clone: "queue_clone q = q" by simp
  show ?thesis
  proof (cases "native = None \<or> parsed = None")
    case True
    then show ?thesis using assms parsed
      by (auto simp: prepareExecutionRequestBlock_def bindE_eq_Inr Let_def clone split: if_splits)
  next
    case False
    then show ?thesis using assms parsed
      by (auto simp: prepareExecutionRequestBlock_def bindE_eq_Inr Let_def clone split: if_splits)
  qed
qed

lemma recordPut_key: "executionRequestRecordPut h r = Inr kv \<Longrightarrow> kv_Key kv = KRequestRecord h"
  by (auto simp: executionRequestRecordPut_def bindE_eq_Inr)

lemma blobPuts_keys: "kv \<in> set (blobPuts c b) \<Longrightarrow> kv_Key kv \<in> range KBlob"
  by (auto simp: blobPuts_def split: option.splits)

lemma candidate_puts_keys: "kv \<in> set (candidate_puts overlay) \<Longrightarrow> kv_Key kv \<in> range KState"
  by (auto simp: candidate_puts_def)

text \<open>The tracked keys a mined block writes.\<close>

lemma minedPuts_tracked:
  assumes "minedFrom X E noTxs n mi root out recordMutation controls overlay"
  defines "puts \<equiv> op_ExecutionPuts (mi_operation mi) @ op_Puts (mi_operation mi)"
  shows "filter (\<lambda>p. tracked (kv_Key p)) puts = [timelinePut ((timeline (nd_chain n))\<lparr>tl_CurrentSlot := mi_slot mi, tl_LastProcessedSlot := mi_slot mi\<rparr>),
             blockSlotPut (b_Hash (mi_block mi)) (mi_slot mi), canonicalSlotPut (mi_slot mi) (b_Hash (mi_block mi)),
             blockSafetyPut (b_Hash (mi_block mi)) (mi_safety mi)] @ (if pb_Controlled (mi_prepared mi) then [sessionSafetyPut (mi_session mi)] else [])"
    and "filter (\<lambda>p. kv_Key p = KQueue) puts
      = (if pb_Controlled (mi_prepared mi) then [\<lparr>kv_Key = KQueue, kv_Value = VQueue (pb_Remaining (mi_prepared mi))\<rparr>] else [])"
    and "\<And>r. KEvent r \<notin> kv_Key ` set puts"
proof -
  have none: "filter (\<lambda>p. tracked (kv_Key p)) (candidate_puts overlay) = []" "filter (\<lambda>p. kv_Key p = KQueue) (candidate_puts overlay) = []"
    "filter (\<lambda>p. tracked (kv_Key p)) (blobPuts (nd_chain n) (mi_block mi)) = []" "filter (\<lambda>p. kv_Key p = KQueue) (blobPuts (nd_chain n) (mi_block mi)) = []"
    by (auto simp: filter_empty_conv dest!: candidate_puts_keys blobPuts_keys)
  have ctl: "controls = (if pb_Controlled (mi_prepared mi)
      then [\<lparr>kv_Key = KQueue, kv_Value = VQueue (pb_Remaining (mi_prepared mi))\<rparr>, sessionSafetyPut (mi_session mi)] else [])"
    using assms(1) by (auto simp: minedFrom_def executionRequestQueuePut_def bindE_eq_Inr split: if_splits)
  have puts: "puts = candidate_puts overlay @ [timelinePut ((timeline (nd_chain n))\<lparr>tl_CurrentSlot := mi_slot mi, tl_LastProcessedSlot := mi_slot mi\<rparr>),
             blockSlotPut (b_Hash (mi_block mi)) (mi_slot mi), canonicalSlotPut (mi_slot mi) (b_Hash (mi_block mi)),
             blockSafetyPut (b_Hash (mi_block mi)) (mi_safety mi), mi_projection mi, recordMutation]
           @ blobPuts (nd_chain n) (mi_block mi) @ controls"
    using assms(1) by (simp add: puts_def minedFrom_def)
  have keys: "kv_Key (mi_projection mi) = KProjection (b_Hash (mi_block mi))" "kv_Key recordMutation = KRequestRecord (b_Hash (mi_block mi))"
    using assms(1) by (auto simp: minedFrom_def dest: recordPut_key)
  note kv = timelinePut_def blockSlotPut_def canonicalSlotPut_def blockSafetyPut_def sessionSafetyPut_def
  show "filter (\<lambda>p. tracked (kv_Key p)) puts = [timelinePut ((timeline (nd_chain n))\<lparr>tl_CurrentSlot := mi_slot mi, tl_LastProcessedSlot := mi_slot mi\<rparr>),
             blockSlotPut (b_Hash (mi_block mi)) (mi_slot mi), canonicalSlotPut (mi_slot mi) (b_Hash (mi_block mi)),
             blockSafetyPut (b_Hash (mi_block mi)) (mi_safety mi)] @ (if pb_Controlled (mi_prepared mi) then [sessionSafetyPut (mi_session mi)] else [])"
    unfolding puts ctl by (simp add: none keys kv)
  show "filter (\<lambda>p. kv_Key p = KQueue) puts
      = (if pb_Controlled (mi_prepared mi) then [\<lparr>kv_Key = KQueue, kv_Value = VQueue (pb_Remaining (mi_prepared mi))\<rparr>] else [])"
    unfolding puts ctl by (simp add: none keys kv)
  show "KEvent r \<notin> kv_Key ` set puts" for r
    unfolding puts ctl by (auto simp: keys kv dest!: candidate_puts_keys blobPuts_keys)
qed

lemma queueStored_iff:
  "queueStored q db \<longleftrightarrow> validateExecutionRequestQueue q = Inr ()
     \<and> (map_of db KQueue = None \<and> q = newExecutionRequestQueue \<or> map_of db KQueue = Some (Val (VQueue q)))"
  by (auto simp: queueStored_def split: option.splits)

lemma taint_reason: "taintExecutionRequestControl \<noteq> []"
  by (simp add: taintExecutionRequestControl_def)

lemma mined_mirror:
  assumes m: "mirror n" and X: "lawfulExecution X" and mi: "minedFrom X E noTxs n mi root out recordMutation controls overlay"
    and run: "commitPrepared E (mi_operation mi) events
       (publishBlock X E (op_ExecutionPuts (mi_operation mi)) (mi_block mi) (mi_receipts mi)) (applyMined X mi) n = (Inr u, n')"
  shows "mirror n'"
proof -
  from commitPrepared_Inr[OF run] obtain plan c1 where p: "eventLog_plan (nd_events n) events = Inr plan"
    "publishBlock X E (op_ExecutionPuts (mi_operation mi)) (mi_block mi) (mi_receipts mi) (journalled (plannedOperation (mi_operation mi) plan) (nd_chain n)) = (Inr (), c1)"
    "n' = preparedState (mi_operation mi) plan c1 (applyMined X mi) n" by blast
  obtain x where c1: "c1 = (journalled (plannedOperation (mi_operation mi) plan) (nd_chain n))
      \<lparr>ch_db := writeBatch (putOps (op_ExecutionPuts (mi_operation mi))) (ch_db (journalled (plannedOperation (mi_operation mi) plan) (nd_chain n))), ch_blockchain := x\<rparr>"
    using publishBlock_Inr[OF X p(2)] by blast
  let ?puts = "op_ExecutionPuts (mi_operation mi) @ op_Puts (mi_operation mi)"
  note tr = minedPuts_tracked[OF mi]
  have dels: "op_Deletes (mi_operation mi) = []" using mi by (simp add: minedFrom_def)
  define n1 where "n1 = n\<lparr>nd_chain := onDB (writeBatch (finalOps (plannedOperation (mi_operation mi) plan))) c1\<rparr>"
  obtain a bl q idx where ap: "applyMined X mi n1 = n1\<lparr>nd_chain := (nd_chain n1)
     \<lparr>ch_arrival := a, ch_blobs := bl, ch_pending := q, ch_slot := mi_slot mi, ch_lastProcessedSlot := mi_slot mi,
      ch_slotByHash := AList.update (b_Hash (mi_block mi)) (mi_slot mi) (ch_slotByHash (nd_chain n1)),
      ch_canonicalBlockBySlot := AList.update (mi_slot mi) (b_Hash (mi_block mi)) (ch_canonicalBlockBySlot (nd_chain n1)),
      ch_blockSafety := AList.update (b_Hash (mi_block mi)) (mi_safety mi) (ch_blockSafety (nd_chain n1)),
      ch_sessionTainted := (if pb_Controlled (mi_prepared mi) then ss_Tainted (mi_session mi) else ch_sessionTainted (nd_chain n1)),
      ch_firstUnsafeBlock := (if pb_Controlled (mi_prepared mi) then ss_FirstUnsafeBlock (mi_session mi) else ch_firstUnsafeBlock (nd_chain n1)),
      ch_taintReasons := (if pb_Controlled (mi_prepared mi)
        then ch_taintReasons (nd_chain n1) @ filter (\<lambda>r. r \<notin> set (ch_taintReasons (nd_chain n1))) (ss_Reasons (mi_session mi))
        else ch_taintReasons (nd_chain n1)),
      ch_beaconBlockByRoot := idx\<rparr>, nd_pendingExecutionRequests := pb_Remaining (mi_prepared mi)\<rparr>"
    by (rule applyMined_fields)
  have n1: "nd_chain n1 = (nd_chain n)\<lparr>ch_db := ch_db (nd_chain n1), ch_blockchain := x\<rparr>" "nd_checkpoints n1 = nd_checkpoints n"
    "nd_branches n1 = nd_branches n" by (simp_all add: n1_def c1)
  have frame: "ch_db (nd_chain (applyMined X mi m)) = ch_db (nd_chain m) \<and> nd_events (applyMined X mi m) = nd_events m" for m
    by (rule applyMined_fields[of X mi m]) simp
  have session: "pb_Controlled (mi_prepared mi) \<Longrightarrow> sortedReasonSet (ch_taintReasons (nd_chain n)
      @ filter (\<lambda>r. r \<notin> set (ch_taintReasons (nd_chain n))) (ss_Reasons (mi_session mi))) = ss_Reasons (mi_session mi)"
    by (rule session_stored[where r = taintExecutionRequestControl and safety = "mi_safety mi"]) (use mi in \<open>simp_all add: minedFrom_def taint_reason\<close>)
  have chain: "ch_slotByHash (nd_chain n1) = ch_slotByHash (nd_chain n)" "ch_canonicalBlockBySlot (nd_chain n1) = ch_canonicalBlockBySlot (nd_chain n)"
    "ch_blockSafety (nd_chain n1) = ch_blockSafety (nd_chain n)" "ch_taintReasons (nd_chain n1) = ch_taintReasons (nd_chain n)"
    "ch_sessionTainted (nd_chain n1) = ch_sessionTainted (nd_chain n)" "ch_firstUnsafeBlock (nd_chain n1) = ch_firstUnsafeBlock (nd_chain n)"
    "ch_genesisTime (nd_chain n1) = ch_genesisTime (nd_chain n)" "ch_genesisHash (nd_chain n1) = ch_genesisHash (nd_chain n)"
    "ch_externalGenesis (nd_chain n1) = ch_externalGenesis (nd_chain n)" "ch_timelineComplete (nd_chain n1) = ch_timelineComplete (nd_chain n)"
    "ch_finalityPaused (nd_chain n1) = ch_finalityPaused (nd_chain n)" "ch_finalitySlot (nd_chain n1) = ch_finalitySlot (nd_chain n)"
    by (simp_all add: n1_def c1)
  show ?thesis unfolding p(3)
  proof (rule mirror_prepared[OF m p(1) _ _ _ _ _ n1_def])
    show "KEvent r \<notin> kv_Key ` set ?puts" for r by (rule tr(3))
    show "map_of (writeBatch (putOps ?puts @ map BDelete (op_Deletes (mi_operation mi))) (ch_db (nd_chain n))) k = expected (applyMined X mi n1) k"
      if k: "tracked k" "k \<noteq> KJournal" for k
    proof -
      have "map_of (writeBatch (putOps ?puts @ map BDelete (op_Deletes (mi_operation mi))) (ch_db (nd_chain n))) k
        = map_of (writeBatch (putOps (filter (\<lambda>p. tracked (kv_Key p)) ?puts)) (ch_db (nd_chain n))) k"
        unfolding dels list.map(1) append_Nil2 by (rule putOps_filter[where P = tracked]) (rule k(1))
      also have "\<dots> = expected (applyMined X mi n1) k"
        unfolding tr(1) ap using k mirrorD(1)[OF m k(1)] session
        by (cases k) (simp_all add: putOps_def writeBatch_Cons update_conv' timelinePut_def blockSlotPut_def canonicalSlotPut_def blockSafetyPut_def
            sessionSafetyPut_def chain timeline_def sessionSafety_def n1(2,3))
      finally show ?thesis .
    qed
    show "queueStored (nd_pendingExecutionRequests (applyMined X mi n1))
       (writeBatch (putOps ?puts @ map BDelete (op_Deletes (mi_operation mi))) (ch_db (nd_chain n)))"
    proof -
      have "map_of (writeBatch (putOps ?puts @ map BDelete (op_Deletes (mi_operation mi))) (ch_db (nd_chain n))) KQueue
        = map_of (writeBatch (putOps (filter (\<lambda>p. kv_Key p = KQueue) ?puts)) (ch_db (nd_chain n))) KQueue"
        unfolding dels list.map(1) append_Nil2 by (rule putOps_filter[where P = "\<lambda>k. k = KQueue"]) simp
      moreover have "nd_pendingExecutionRequests (applyMined X mi n1) = pb_Remaining (mi_prepared mi)" by (simp add: ap)
      moreover have "\<not> pb_Controlled (mi_prepared mi) \<Longrightarrow> pb_Remaining (mi_prepared mi) = nd_pendingExecutionRequests n"
        using mi prepare_cases by (fastforce simp: minedFrom_def)
      moreover have "pb_Controlled (mi_prepared mi) \<Longrightarrow> validateExecutionRequestQueue (pb_Remaining (mi_prepared mi)) = Inr ()"
        using mi by (auto simp: minedFrom_def executionRequestQueuePut_def bindE_eq_Inr)
      ultimately show ?thesis using mirrorD(2)[OF m] unfolding queueStored_iff tr(2)
        by (cases "pb_Controlled (mi_prepared mi)") simp_all
    qed
    show "keyed (applyMined X mi n1)"
      using mirrorD(3)[OF m] mi
      by (auto simp: keyed_def ap chain n1(2,3) update_conv' minedFrom_def blockSafetyForChild_def zeroBlockSafety_def)
  qed (use frame c1 dels in simp_all)
qed

end
