(* ===== verification/Commands.thy ===== *)
theory Commands
  imports Mining
begin

text \<open>
  What the commands of the single writer guarantee: a mined block extends the head by one block and one
  slot, and every command leaves memory and store in step, whatever fails on the way.
\<close>

section \<open>Commands keep memory and store in step\<close>

lemma inStep_meta:
  assumes "inStep n" "nd_writeErr n' = nd_writeErr n" "ch_db (nd_chain n') = ch_db (nd_chain n)"
    "timeline (nd_chain n') = timeline (nd_chain n)" "sessionSafety (nd_chain n') = sessionSafety (nd_chain n)"
    "ch_canonicalBlockBySlot (nd_chain n') = ch_canonicalBlockBySlot (nd_chain n)" "ch_slotByHash (nd_chain n') = ch_slotByHash (nd_chain n)"
    "ch_blockSafety (nd_chain n') = ch_blockSafety (nd_chain n)"
    "nd_events n' = nd_events n" "nd_pendingExecutionRequests n' = nd_pendingExecutionRequests n"
    "nd_checkpoints n' = nd_checkpoints n" "nd_branches n' = nd_branches n"
  shows "inStep n'"
proof -
  have "expected n' k = expected n k" for k by (rule expected_cong) (simp_all add: assms)
  then show ?thesis using assms(1) by (simp add: inStep_def mirror_def keyed_def assms(2-))
qed

lemma keeps_mine [keeps_rules]:
  assumes X: "lawfulExecution X"
  shows "keeps inStep (mineExecutionBlock X Z E E' noTxs)"
proof (rule keepsI)
  fix n r n'
  assume n: "inStep n" and run: "mineExecutionBlock X Z E E' noTxs n = (r, n')"
  let ?commit = "\<lambda>mi. commitPrepared E (mi_operation mi) (mi_events mi)
       (publishBlock X E (op_ExecutionPuts (mi_operation mi)) (mi_block mi) (mi_receipts mi)) (applyMined X mi)"
  let ?rest = "\<lambda>mi. bindA (modifyA (nd_pendingWithdrawals_update (\<lambda>_. []))) (\<lambda>_.
     bindA (catchA disableWrites (wrapFmt ''block committed but pending view rebuild failed: %w'') (rebuildPendingView X Z E')) (\<lambda>_.
     returnA (mi_block mi, mi_receipts mi)))"
  have clear: "inStep (nd_pendingWithdrawals_update (\<lambda>_. []) m)" if "inStep m" for m :: "('a, 'b) Node"
    by (rule inStep_meta[OF that]) simp_all
  have rest: "keeps inStep (?rest mi)" for mi
    by (intro keeps_rules clear inStep_disabled)
  obtain r1 n1 where b: "buildMined X Z E noTxs n = (r1, n1)" by (cases "buildMined X Z E noTxs n")
  have n1: "inStep n1" by (rule keepsD[OF keeps_buildMined n b])
  show "inStep n'"
  proof (cases r1)
    case (Inl e)
    then have "n' = n1" using run b by (simp add: mineExecutionBlock_def act_simps)
    then show ?thesis using n1 by simp
  next
    case (Inr mi)
    obtain r2 n2 where c: "?commit mi n1 = (r2, n2)" by (cases "?commit mi n1")
    have n2: "inStep n2"
    proof (cases r2)
      case (Inl e)
      then show ?thesis using commitPrepared_Inl c inStep_refused[OF n1] by blast
    next
      case inr: (Inr u)
      from b[unfolded Inr] obtain root out recordMutation controls overlay where
        mi: "minedFrom X E noTxs n1 mi root out recordMutation controls overlay" by (rule buildMined_Inr)
      have "mirror n1" using commitPrepared_Inr[OF c[unfolded inr]] n1 by (simp add: inStep_def)
      then show ?thesis using mined_mirror[OF _ X mi c[unfolded inr]] by (simp add: inStep_def)
    qed
    show ?thesis
    proof (cases r2)
      case (Inl e)
      then have "n' = n2" using run b Inr c by (simp add: mineExecutionBlock_def act_simps)
      then show ?thesis using n2 by simp
    next
      case inr: (Inr u)
      have "?rest mi n2 = (r, n')" using run b Inr c inr unfolding mineExecutionBlock_def by (simp add: bindA_def)
      then show ?thesis by (rule keepsD[OF rest n2])
    qed
  qed
qed

lemma keeps_mineBlocks [keeps_rules]:
  "lawfulExecution X \<Longrightarrow> keeps inStep (mineBlocks X Z ctx Es noTxs i rounds)"
  by (induction rounds arbitrary: i) (auto intro!: keeps_rules)

lemma keeps_Mine [keeps_rules]: "lawfulExecution X \<Longrightarrow> keeps inStep (Mine X Z ctx Es rounds noTxs)"
  unfolding Mine_def by (intro keeps_rules)

lemma keeps_PauseFinality [keeps_rules]: "keeps inStep (PauseFinality E)"
  by (rule keepsI) (rule PauseFinality_inStep)

lemma keeps_ResumeFinality [keeps_rules]: "keeps inStep (ResumeFinality X E)"
  by (rule keepsI) (rule ResumeFinality_inStep)

text \<open>An auxiliary commit keeps memory and store in step when its success does.\<close>

lemma auxiliary_inStep:
  assumes "inStep n" "commitAuxiliary E puts dels events f n = (r, n')"
    and "\<And>plan. mirror n \<Longrightarrow> eventLog_plan (nd_events n) events = Inr plan \<Longrightarrow> mirror (auxiliaryState puts dels plan f n)"
  shows "inStep n'"
proof (cases r)
  case (Inl e)
  then have "n' = n \<or> (\<exists>e'. n' = disableWrites e' n)" using commitAuxiliary_Inl assms(2) by blast
  then show ?thesis using assms(1) inStep_disabled by auto
next
  case (Inr u)
  then show ?thesis using assms by (auto simp: commitAuxiliary_Inr inStep_def)
qed

lemma keeps_get: "(\<And>s r s'. P s \<Longrightarrow> m s s = (r, s') \<Longrightarrow> P s') \<Longrightarrow> keeps P (bindA getA m)"
  by (rule keepsI) (simp add: act_simps)

lemma missed_inStep:
  assumes n: "inStep n"
    and run: "commitAuxiliary E [timelinePut ((timeline (nd_chain n))\<lparr>tl_CurrentSlot := s, tl_LastProcessedSlot := s\<rparr>)] [] events
         (onChain (\<lambda>c. setPendingView pending (c\<lparr>ch_slot := s, ch_lastProcessedSlot := s\<rparr>))) n = (r, n')"
  shows "inStep n'"
proof (rule auxiliary_inStep[OF n run])
  fix plan
  assume m: "mirror n" and plan: "eventLog_plan (nd_events n) events = Inr plan"
  show "mirror (auxiliaryState [timelinePut ((timeline (nd_chain n))\<lparr>tl_CurrentSlot := s, tl_LastProcessedSlot := s\<rparr>)] [] plan
       (onChain (\<lambda>c. setPendingView pending (c\<lparr>ch_slot := s, ch_lastProcessedSlot := s\<rparr>))) n)"
  proof (rule mirror_timeline[OF m plan])
    show "expected (onChain (\<lambda>c. setPendingView pending (c\<lparr>ch_slot := s, ch_lastProcessedSlot := s\<rparr>)) n) k = expected n k"
      if "tracked k" "k \<noteq> KTimeline" for k and n :: "('a, 'b) Node"
      using that by (cases k) (simp_all add: sessionSafety_def setPendingView_def Let_def)
  qed (simp_all add: timeline_def keyed_def setPendingView_def Let_def)
qed

lemma keeps_MissSlots [keeps_rules]: "keeps inStep (MissSlots X Z ctx E rounds)"
proof -
  have commit: "keeps inStep (bindA getA (\<lambda>n. bindA (liftA (f n)) (\<lambda>finalized.
       bindA (commitAuxiliary E
         [timelinePut ((timeline (nd_chain n))\<lparr>tl_CurrentSlot := s, tl_LastProcessedSlot := s\<rparr>)] [] (g finalized)
         (onChain (\<lambda>c. setPendingView pending (c\<lparr>ch_slot := s, ch_lastProcessedSlot := s\<rparr>)))) (\<lambda>_. returnA slots))))"
    for f :: "('a, 'b) Node \<Rightarrow> error + 'm" and g s pending and slots :: "u64 list"
  proof (rule keeps_get)
    fix n r n'
    assume "inStep n" and run: "bindA (liftA (f n)) (\<lambda>finalized.
       bindA (commitAuxiliary E
         [timelinePut ((timeline (nd_chain n))\<lparr>tl_CurrentSlot := s, tl_LastProcessedSlot := s\<rparr>)] [] (g finalized)
         (onChain (\<lambda>c. setPendingView pending (c\<lparr>ch_slot := s, ch_lastProcessedSlot := s\<rparr>)))) (\<lambda>_. returnA slots)) n = (r, n')"
    then show "inStep n'"
      by (cases r) (auto simp: act_inv act_run intro: missed_inStep)
  qed
  show ?thesis unfolding MissSlots_def Let_def by (intro keeps_rules commit)
qed

lemma keeps_checkpoint [keeps_rules]: "keeps inStep (Checkpoint X E name)"
proof -
  have "keeps inStep (bindA getA (\<lambda>n. commitAuxiliary E [checkpointPut name (currentPoint X (nd_chain n))] [] []
          (\<lambda>m. m\<lparr>nd_checkpoints := AList.update name (currentPoint X (nd_chain n)) (nd_checkpoints m)\<rparr>)))" if name: "name \<noteq> []"
  proof (rule keeps_get, erule auxiliary_inStep, assumption)
    fix n :: "('a, 'b) Node" and plan
    let ?p = "currentPoint X (nd_chain n)" and ?f = "\<lambda>m :: ('a, 'b) Node. m\<lparr>nd_checkpoints := AList.update name (currentPoint X (nd_chain n)) (nd_checkpoints m)\<rparr>"
    assume m: "mirror n" and plan: "eventLog_plan (nd_events n) [] = Inr plan"
    show "mirror (auxiliaryState [checkpointPut name ?p] [] plan ?f n)"
    proof (rule mirror_auxiliary[OF m plan _ _ _ _ refl])
      show "map_of (writeBatch (putOps [checkpointPut name ?p] @ map BDelete []) (ch_db (nd_chain n))) k
        = expected (?f (onChain (onDB (writeBatch (putOps ([checkpointPut name ?p] @ pl_puts plan) @ map BDelete ([] @ pl_deletes plan)))) n)) k"
        if "tracked k" for k
        using mirrorD(1)[OF m that] that by (cases k) (simp_all add: checkpointPut_def timeline_def sessionSafety_def update_conv')
      show "keyed (?f (onChain (onDB (writeBatch (putOps ([checkpointPut name ?p] @ pl_puts plan) @ map BDelete ([] @ pl_deletes plan)))) n))"
        using mirrorD(3)[OF m] name by (auto simp: keyed_def update_conv' currentPoint_def split: prod.splits if_splits)
    qed (use mirrorD(2)[OF m] in \<open>simp_all add: queueStored_iff checkpointPut_def\<close>)
  qed
  then show ?thesis unfolding Checkpoint_def Let_def by (cases "name = []") (simp_all add: keeps_pure keeps_write)
qed

lemma keeps_snapshot [keeps_rules]: "keeps inStep (Snapshot X)"
  unfolding Snapshot_def Let_def
  by (intro keeps_rules) (rule inStep_meta, simp_all)

lemma keeps_withdrawal [keeps_rules]: "keeps inStep (AddWithdrawal X Z E request)"
  unfolding AddWithdrawal_def by (intro keeps_rules) (rule inStep_meta, simp_all)+

lemma keeps_request [keeps_rules]: "keeps inStep (addExecutionRequest X Z E requestType payload)"
proof -
  have commit: "keeps inStep (bindA (liftA (executionRequestQueuePut q)) (\<lambda>queueMutation.
     commitAuxiliary E [queueMutation] [] [] (\<lambda>n :: ('a, 'b) Node. (onChain (setPendingView candidate) n)\<lparr>nd_pendingExecutionRequests := q\<rparr>)))"
    for q and candidate :: "'b pendingView"
  proof (rule keepsI)
    fix n n' :: "('a, 'b) Node" and r
    let ?f = "\<lambda>n :: ('a, 'b) Node. (onChain (setPendingView candidate) n)\<lparr>nd_pendingExecutionRequests := q\<rparr>"
      and ?put = "\<lparr>kv_Key = KQueue, kv_Value = VQueue q\<rparr>"
    assume n: "inStep n" and run: "bindA (liftA (executionRequestQueuePut q)) (\<lambda>queueMutation. commitAuxiliary E [queueMutation] [] [] ?f) n = (r, n')"
    show "inStep n'"
    proof (cases "validateExecutionRequestQueue q")
      case (Inl e)
      then have "n' = n" using run by (simp add: executionRequestQueuePut_def act_simps)
      then show ?thesis using n by simp
    next
      case (Inr u)
      then have run': "commitAuxiliary E [?put] [] [] ?f n = (r, n')" using run by (simp add: executionRequestQueuePut_def act_simps)
      show ?thesis
      proof (rule auxiliary_inStep[OF n run'])
        fix plan
        assume m: "mirror n" and plan: "eventLog_plan (nd_events n) [] = Inr plan"
        show "mirror (auxiliaryState [?put] [] plan ?f n)"
        proof (rule mirror_auxiliary[OF m plan _ _ _ _ refl])
          show "map_of (writeBatch (putOps [?put] @ map BDelete []) (ch_db (nd_chain n))) k
            = expected (?f (onChain (onDB (writeBatch (putOps ([?put] @ pl_puts plan) @ map BDelete ([] @ pl_deletes plan)))) n)) k"
            if "tracked k" for k
            using mirrorD(1)[OF m that] that by (cases k) (simp_all add: timeline_def sessionSafety_def setPendingView_def Let_def)
        qed (use mirrorD(3)[OF m] Inr in \<open>simp_all add: queueStored_iff keyed_def setPendingView_def Let_def\<close>)
      qed
    qed
  qed
  show ?thesis unfolding addExecutionRequest_def by (intro keeps_rules commit)
qed

lemma addTransaction_fields:
  assumes "addTransaction X tx c = Inr c'"
  shows "\<exists>a na bl p. c' = c\<lparr>ch_arrival := a, ch_nextArrival := na, ch_blobs := bl, ch_pending := p\<rparr>"
proof -
  let ?d = "case map_of (getOr [] (ch_pending c) (poolSender X c tx)) (tx_Nonce tx) of
                 Some previous \<Rightarrow>
                   c\<lparr>ch_arrival := AList.delete (tx_Hash previous)
                       (AList.update (tx_Hash tx) (getOr 0 (ch_arrival c) (tx_Hash previous)) (ch_arrival c)),
                     ch_blobs := AList.delete (tx_Hash previous) (ch_blobs c)\<rparr>
               | None \<Rightarrow>
                   c\<lparr>ch_nextArrival := ch_nextArrival c + 1,
                     ch_arrival := AList.update (tx_Hash tx) (ch_nextArrival c + 1) (ch_arrival c)\<rparr>"
  from assms have "\<exists>retained p. (case retained of None \<Rightarrow> ?d\<lparr>ch_pending := p\<rparr>
      | Some b \<Rightarrow> ?d\<lparr>ch_pending := p\<rparr>\<lparr>ch_blobs := AList.update (tx_Hash tx) b (ch_blobs (?d\<lparr>ch_pending := p\<rparr>))\<rparr>) = c'"
    unfolding addTransaction_def Let_def bindE_eq_Inr by (elim exE conjE) (intro exI, erule sum.inject(2)[THEN iffD1])
  then obtain retained p where c': "c' = (case retained of None \<Rightarrow> ?d\<lparr>ch_pending := p\<rparr>
      | Some b \<Rightarrow> ?d\<lparr>ch_pending := p\<rparr>\<lparr>ch_blobs := AList.update (tx_Hash tx) b (ch_blobs (?d\<lparr>ch_pending := p\<rparr>))\<rparr>)"
    by blast
  have "\<exists>a na bl. ?d = c\<lparr>ch_arrival := a, ch_nextArrival := na, ch_blobs := bl\<rparr>"
  proof (cases "map_of (getOr [] (ch_pending c) (poolSender X c tx)) (tx_Nonce tx)")
    case None
    then show ?thesis by (intro exI[of _ "AList.update (tx_Hash tx) (ch_nextArrival c + 1) (ch_arrival c)"] exI[of _ "ch_nextArrival c + 1"] exI[of _ "ch_blobs c"]) simp
  next
    case (Some previous)
    then show ?thesis
      by (intro exI[of _ "AList.delete (tx_Hash previous) (AList.update (tx_Hash tx) (getOr 0 (ch_arrival c) (tx_Hash previous)) (ch_arrival c))"]
          exI[of _ "ch_nextArrival c"] exI[of _ "AList.delete (tx_Hash previous) (ch_blobs c)"]) simp
  qed
  then obtain a na bl where d: "?d = c\<lparr>ch_arrival := a, ch_nextArrival := na, ch_blobs := bl\<rparr>" by blast
  show ?thesis
  proof (cases retained)
    case None
    then have "c' = c\<lparr>ch_arrival := a, ch_nextArrival := na, ch_blobs := bl, ch_pending := p\<rparr>" using c' d by simp
    then show ?thesis by blast
  next
    case (Some b)
    then have "c' = c\<lparr>ch_arrival := a, ch_nextArrival := na, ch_blobs := AList.update (tx_Hash tx) b bl, ch_pending := p\<rparr>" using c' d by simp
    then show ?thesis by blast
  qed
qed

lemma pool_inStep:
  assumes "inStep n" "nd_chain n' = (nd_chain n)\<lparr>ch_arrival := a, ch_nextArrival := na, ch_blobs := bl, ch_pending := p\<rparr>"
    "nd_writeErr n' = nd_writeErr n" "nd_events n' = nd_events n" "nd_pendingExecutionRequests n' = nd_pendingExecutionRequests n"
    "nd_checkpoints n' = nd_checkpoints n" "nd_branches n' = nd_branches n"
  shows "inStep n'"
  by (rule inStep_meta[OF assms(1)]) (simp_all add: assms timeline_def sessionSafety_def)

lemma restore_inStep: "inStep n \<Longrightarrow> inStep (onChain (restoreTransactionPool snapshot) n)"
  by (erule pool_inStep[where a = "sn_arrival snapshot" and na = "sn_nextArrival snapshot" and bl = "sn_blobs snapshot" and p = "sn_pending snapshot"])
     (simp_all add: restoreTransactionPool_def)

lemma keeps_SendTransaction [keeps_rules]:
  assumes X: "lawfulExecution X"
  shows "keeps inStep (SendTransaction X Z E E' marshal maybeTx)"
proof (cases maybeTx)
  case None
  then show ?thesis by (simp add: SendTransaction_def keeps_pure)
next
  case (Some tx)
  show ?thesis unfolding SendTransaction_def Some option.case Let_def
  proof (rule keeps_write, rule keeps_get)
    fix n n' :: "('a, 'b) Node" and r
    let ?c = "nd_chain n"
    let ?rest = "\<lambda>notification. bindA (if nd_miningMode n = ''transaction''
                 then bindA (catchA (\<lambda>_ m. if fst (x_CurrentBlock X (ch_blockchain (nd_chain m))) = fst (x_CurrentBlock X (ch_blockchain ?c))
                        then onChain (restoreTransactionPool (snapshotTransactionPool ?c)) m else m) id (mineExecutionBlock X Z E E' False)) (\<lambda>_. returnA ())
                 else bindA (catchA (\<lambda>_. onChain (restoreTransactionPool (snapshotTransactionPool ?c))) id
                        (pendingCandidate X Z E (nd_pendingExecutionRequests n))) (\<lambda>candidate.
                      modifyA (onChain (setPendingView candidate)))) (\<lambda>_.
          bindA (modifyA (\<lambda>n. n\<lparr>nd_pendingEvents := pendingHashLog_record (nd_pendingEvents n) (tx_Hash tx) notification\<rparr>)) (\<lambda>_.
          returnA (tx_Hash tx)))"
    assume n: "inStep n" and run: "bindA (liftA (marshal tx (validationHeader X ?c) (ch_config ?c))) (\<lambda>notification.
          bindA (liftA (addTransaction X tx ?c)) (\<lambda>c'.
          bindA (modifyA (nd_chain_update (\<lambda>_. c'))) (\<lambda>_. ?rest notification))) n = (r, n')"
    have recorded: "inStep (m\<lparr>nd_pendingEvents := l\<rparr>)" if "inStep m" for m :: "('a, 'b) Node" and l by (rule inStep_meta[OF that]) simp_all
    have rest: "keeps inStep (?rest notification)" for notification
      by (intro keeps_rules restore_inStep inStep_view recorded X) (simp add: restore_inStep)
    show "inStep n'"
    proof (cases "\<exists>notification c'. marshal tx (validationHeader X ?c) (ch_config ?c) = Inr notification \<and> addTransaction X tx ?c = Inr c'")
      case False
      then have "n' = n" using run
        by (cases "marshal tx (validationHeader X ?c) (ch_config ?c)"; cases "addTransaction X tx ?c") (simp_all add: act_simps)
      then show ?thesis using n by simp
    next
      case True
      then obtain notification c' where c': "marshal tx (validationHeader X ?c) (ch_config ?c) = Inr notification" "addTransaction X tx ?c = Inr c'" by blast
      from addTransaction_fields[OF c'(2)] have "inStep (n\<lparr>nd_chain := c'\<rparr>)" by (auto intro!: pool_inStep[OF n])
      moreover have "?rest notification (n\<lparr>nd_chain := c'\<rparr>) = (r, n')" using run c' by (simp only: act_simps)
      ultimately show ?thesis by (rule keepsD[OF rest])
    qed
  qed
qed

end
