(* ===== verification/Projection.thy ===== *)
theory Projection
  imports Consensus
begin

text \<open>
  The projection across a restart: what is stored when a block is built passes the checks of the
  next start, and a start that succeeds has an index that mirrors the execution chain.
\<close>

section \<open>Laws of the codecs\<close>

text \<open>
  Encoding is undone by decoding and never empty, and a block that can be hashed has a body that
  can be hashed.
\<close>

definition lawfulCodecs :: "('x, 'y) codecs_scheme \<Rightarrow> bool" where
  "lawfulCodecs Z \<longleftrightarrow>
     (\<forall>s e. z_MarshalDeneb Z s = Inr e \<longrightarrow> z_UnmarshalDeneb Z e = Inr s)
     \<and> (\<forall>s e. z_MarshalElectra Z s = Inr e \<longrightarrow> z_UnmarshalElectra Z e = Inr s)
     \<and> (\<forall>s e. z_MarshalGloas Z s = Inr e \<longrightarrow> z_UnmarshalGloas Z e = Inr s)
     \<and> (\<forall>s e. z_MarshalEnvelope Z s = Inr e \<longrightarrow> e \<noteq> [] \<and> z_UnmarshalEnvelope Z e = Inr s)
     \<and> (\<forall>message body root. bm_Body message = Some body \<longrightarrow> z_DenebRoot Z message = Inr root \<longrightarrow> (\<exists>r. z_DenebBodyRoot Z body = Inr r))
     \<and> (\<forall>message body root. bm_Body message = Some body \<longrightarrow> z_ElectraRoot Z message = Inr root \<longrightarrow> (\<exists>r. z_ElectraBodyRoot Z body = Inr r))"

lemma lawfulCodecsD:
  assumes "lawfulCodecs Z"
  shows "z_MarshalDeneb Z s = Inr e \<Longrightarrow> z_UnmarshalDeneb Z e = Inr s"
    and "z_MarshalElectra Z s = Inr e \<Longrightarrow> z_UnmarshalElectra Z e = Inr s"
    and "z_MarshalGloas Z g = Inr e \<Longrightarrow> z_UnmarshalGloas Z e = Inr g"
    and "z_MarshalEnvelope Z v = Inr e \<Longrightarrow> e \<noteq> [] \<and> z_UnmarshalEnvelope Z e = Inr v"
    and "bm_Body message = Some body \<Longrightarrow> z_DenebRoot Z message = Inr root \<Longrightarrow> \<exists>r. z_DenebBodyRoot Z body = Inr r"
    and "bm_Body message = Some body \<Longrightarrow> z_ElectraRoot Z message = Inr root \<Longrightarrow> \<exists>r. z_ElectraBodyRoot Z body = Inr r"
  using assms unfolding lawfulCodecs_def by blast+

section \<open>Agreement of the chain before and after a restart\<close>

definition sameBeacon :: "consensusModel \<Rightarrow> consensusModel \<Rightarrow> bool" where
  "sameBeacon m m' \<longleftrightarrow> cm_keys m' = cm_keys m \<and> cm_genesisValidatorsRoot m' = cm_genesisValidatorsRoot m
     \<and> cm_forks m' = cm_forks m \<and> cm_slotsPerEpoch m' = cm_slotsPerEpoch m"

text \<open>What the projection of a block is computed from.\<close>

definition sameInputs ::
  "('x, 's, 'w) execution_scheme \<Rightarrow> ('x, 'y) codecs_scheme \<Rightarrow> env \<Rightarrow> ('x, 's) executionChain \<Rightarrow> ('x, 's) executionChain
   \<Rightarrow> block \<Rightarrow> bool" where
  "sameInputs X Z E c c' b \<longleftrightarrow> slotOf c' b = slotOf c b
     \<and> (\<forall>t \<in> set (b_Transactions b). blobSidecarForVersion X c' (tx_Hash t) 1 = blobSidecarForVersion X c (tx_Hash t) 1)
     \<and> parentRequests X calm c' b = parentRequests X E c b
     \<and> blockAccessListBytes Z c' b = blockAccessListBytes Z c b"

lemma sameBeacon_sign: "sameBeacon m m' \<Longrightarrow> consensus_sign Z m' = consensus_sign Z m"
  by (simp add: sameBeacon_def consensus_sign_def consensus_domain_def forkVersion_def fun_eq_iff cong: if_cong)

lemma sameBeacon_simps:
  "sameBeacon m m' \<Longrightarrow> syntheticProposer m' = syntheticProposer m" "sameBeacon m m' \<Longrightarrow> forkName m' = forkName m"
  "sameBeacon m m' \<Longrightarrow> cm_slotsPerEpoch m' = cm_slotsPerEpoch m" "sameBeacon m m' \<Longrightarrow> cm_forks m' = cm_forks m"
  by (simp_all add: sameBeacon_def syntheticProposer_def forkName_def forkVersion_def fun_eq_iff)

lemma foldE_cong: "(\<And>s x. x \<in> set xs \<Longrightarrow> f s x = g s x) \<Longrightarrow> foldE f s xs = foldE g s xs"
proof (induction xs arbitrary: s)
  case (Cons x xs)
  then show ?case by (cases "g s x") auto
qed simp

lemma body_agrees:
  assumes "sameBeacon m m'" "sameInputs X Z E c c' b"
  shows "consensus_body X Z m' c' b slot requests = consensus_body X Z m c b slot requests"
proof -
  have same: "foldE (bodyTransaction X Z c') ([], []) (b_Transactions b) = foldE (bodyTransaction X Z c) ([], []) (b_Transactions b)"
    using assms(2) by (intro foldE_cong) (auto simp: bodyTransaction_def sameInputs_def split: prod.splits)
  show ?thesis unfolding consensus_body_def same sameBeacon_sign[OF assms(1)] sameBeacon_simps[OF assms(1)] ..
qed

lemma gloas_agrees:
  assumes "sameBeacon m m'" "sameInputs X Z E c c' b"
  shows "buildGloas X Z calm m' c' b body requests parent stateRoot proposer = buildGloas X Z E m c b body requests parent stateRoot proposer"
proof -
  have same: "slotOf c' b = slotOf c b" "parentRequests X calm c' b = parentRequests X E c b"
    "gloasPayload Z c' b = gloasPayload Z c b"
    using assms(2) by (simp_all add: sameInputs_def gloasPayload_def fun_eq_iff)
  show ?thesis unfolding buildGloas_def same sameBeacon_sign[OF assms(1)] ..
qed

lemma build_agrees:
  assumes "sameBeacon m m'" "sameInputs X Z E c c' b"
  shows "buildSigned X Z calm m' c' b requests parent = buildSigned X Z E m c b requests parent"
proof -
  have "slotOf c' b = slotOf c b" using assms(2) by (simp add: sameInputs_def)
  then show ?thesis
    unfolding buildSigned_def body_agrees[OF assms] gloas_agrees[OF assms] sameBeacon_sign[OF assms(1)] sameBeacon_simps[OF assms(1)]
    by simp
qed

section \<open>A built block validates\<close>

lemma forkName_cases:
  assumes "fk_PragueEpoch (cm_forks m) \<le> fk_OsakaEpoch (cm_forks m)"
    "fk_AmsterdamEpoch (cm_forks m) \<ge> 0 \<longrightarrow> fk_OsakaEpoch (cm_forks m) \<le> word_of_int (fk_AmsterdamEpoch (cm_forks m))"
  shows "forkName m slot = ''gloas'' \<or> (if slot div cm_slotsPerEpoch m < fk_PragueEpoch (cm_forks m)
    then forkName m slot = ''deneb'' else forkName m slot \<in> {''electra'', ''fulu''})"
  using assms by (auto simp: forkName_def forkVersion_def Let_def)

text \<open>The three shapes of a built block.\<close>

lemma buildSigned_cases:
  assumes built: "buildSigned X Z E m c b requests parent = Inr sealed"
  obtains (gloas) body where "forkName m (slotOf c b) = ''gloas''" "consensus_body X Z m c b (slotOf c b) requests = Inr body"
      "buildGloas X Z E m c b body requests parent (syntheticStateRoot b (slotOf c b)) (syntheticProposer m (slotOf c b)) = Inr sealed"
    | (deneb) body message root sig where "forkName m (slotOf c b) \<noteq> ''gloas''"
      "slotOf c b div cm_slotsPerEpoch m < fk_PragueEpoch (cm_forks m)"
      "consensus_body X Z m c b (slotOf c b) requests = Inr body"
      "message = \<lparr>bm_Slot = slotOf c b, bm_ProposerIndex = syntheticProposer m (slotOf c b), bm_ParentRoot = parent,
         bm_StateRoot = syntheticStateRoot b (slotOf c b), bm_Body = Some (denebBodyFromElectra body)\<rparr>"
      "z_DenebRoot Z message = Inr root"
      "consensus_sign Z m root [0, 0, 0, 0] (syntheticProposer m (slotOf c b)) (slotOf c b) = Inr sig"
      "sealed = zeroConsensusBlock\<lparr>cb_deneb := Some \<lparr>sk_Message = Some message, sk_Signature = sig\<rparr>\<rparr>"
    | (electra) body message root sig where "forkName m (slotOf c b) \<noteq> ''gloas''"
      "\<not> slotOf c b div cm_slotsPerEpoch m < fk_PragueEpoch (cm_forks m)"
      "consensus_body X Z m c b (slotOf c b) requests = Inr body"
      "message = \<lparr>bm_Slot = slotOf c b, bm_ProposerIndex = syntheticProposer m (slotOf c b), bm_ParentRoot = parent,
         bm_StateRoot = syntheticStateRoot b (slotOf c b), bm_Body = Some body\<rparr>"
      "z_ElectraRoot Z message = Inr root"
      "consensus_sign Z m root [0, 0, 0, 0] (syntheticProposer m (slotOf c b)) (slotOf c b) = Inr sig"
      "sealed = zeroConsensusBlock\<lparr>cb_electra := Some \<lparr>sk_Message = Some message, sk_Signature = sig\<rparr>\<rparr>"
proof -
  let ?slot = "slotOf c b"
  obtain body where body: "consensus_body X Z m c b ?slot requests = Inr body"
    using built by (auto simp: buildSigned_def Let_def err_simps)
  show thesis
  proof (cases "forkName m ?slot = ''gloas''")
    case True
    with built body show thesis by (intro gloas) (auto simp: buildSigned_def Let_def)
  next
    case False
    show thesis
    proof (cases "?slot div cm_slotsPerEpoch m < fk_PragueEpoch (cm_forks m)")
      case True
      with built body False show thesis
        by (auto simp: buildSigned_def Let_def err_simps intro: deneb[OF False True body refl])
    next
      case late: False
      with built body False show thesis
        by (auto simp: buildSigned_def Let_def err_simps intro: electra[OF False late body refl])
    qed
  qed
qed

lemma buildGloas_shape:
  assumes built: "buildGloas X Z E m c b body requests parent stateRoot proposer = Inr sealed"
    and parents: "parentRequests X E c b \<noteq> Inr None" and payload: "bd_ExecutionPayload body = Some p"
  shows "sealed = zeroConsensusBlock\<lparr>cb_gloas := cb_gloas sealed, cb_envelope := cb_envelope sealed\<rparr>"
    and "cb_gloas sealed \<noteq> None" "cb_envelope sealed \<noteq> None" "validateGloasStructure sealed = Inr ()"
    and "consensusBlock_parentRoot sealed = Inr parent" "consensusBlock_slot sealed = Inr (slotOf c b)"
    and "executionHash sealed = Inr (ep_BlockHash p)"
proof -
  obtain message sig envelope esig where
    sealed: "sealed = zeroConsensusBlock\<lparr>cb_gloas := Some \<lparr>gm_Message = Some message, gm_Signature = sig\<rparr>,
      cb_envelope := Some \<lparr>gv_Message = Some envelope, gv_Signature = esig\<rparr>\<rparr>"
    and message: "gk_ParentRoot message = parent" "gk_Slot message = slotOf c b" "gloasComplete \<lparr>gm_Message = Some message, gm_Signature = sig\<rparr>"
    and envelope: "\<exists>payload. ge_Payload envelope = Some payload \<and> ep_BlockHash payload = ep_BlockHash p" "ge_ExecutionRequests envelope \<noteq> None"
    using built payload parents unfolding buildGloas_def Let_def if_Inl_eq_Inr bindE_eq_Inr deref_def sum.inject
    apply (elim exE conjE)
    apply (rule that)
        apply (erule sym)
       apply (simp_all add: gloasComplete_def gloasPayload_def err_simps deref_def ExecutionPayload.defs)
    apply (auto split: option.splits)
    done
  show "sealed = zeroConsensusBlock\<lparr>cb_gloas := cb_gloas sealed, cb_envelope := cb_envelope sealed\<rparr>"
    "cb_gloas sealed \<noteq> None" "cb_envelope sealed \<noteq> None"
    "consensusBlock_parentRoot sealed = Inr parent" "consensusBlock_slot sealed = Inr (slotOf c b)"
    using message by (simp_all add: sealed consensusBlock_parentRoot_def consensusBlock_slot_def deref_def)
  show "validateGloasStructure sealed = Inr ()" "executionHash sealed = Inr (ep_BlockHash p)"
    using message(3) envelope by (auto simp: sealed validateGloasStructure_def executionHash_def)
qed

lemma signedPayload_None [simp]: "signedPayload None = None"
  by (simp add: signedPayload_def)

lemma body_payload:
  "consensus_body X Z m c b slot requests = Inr body \<Longrightarrow> \<exists>p. bd_ExecutionPayload body = Some p \<and> ep_BlockHash p = b_Hash b"
  by (auto simp: consensus_body_def err_simps executionPayload_def Let_def split: if_splits prod.splits)

text \<open>The record that \<open>projectionRecord\<close> makes of a signed block.\<close>

definition recordOf ::
  "('x, 'y) codecs_scheme \<Rightarrow> consensusModel \<Rightarrow> ('x, 's) executionChain \<Rightarrow> block \<Rightarrow> consensusBlock \<Rightarrow> storedProjection \<Rightarrow> bool" where
  "recordOf Z m c b sealed r \<longleftrightarrow> pj_Format r = projectionFormat \<and> pj_Fork r = forkName m (slotOf c b) \<and> pj_Slot r = slotOf c b
     \<and> messageRoot Z sealed = Inr (pj_Root r) \<and> consensusBlock_parentRoot sealed = Inr (pj_ParentRoot r)
     \<and> marshalSSZ Z sealed = Inr (pj_SignedSSZ r)
     \<and> (case cb_envelope sealed of None \<Rightarrow> Inr [] | Some e \<Rightarrow> z_MarshalEnvelope Z e) = Inr (pj_EnvelopeSSZ r)"

lemma validate_built:
  assumes built: "buildSigned X Z E m c b requests parent = Inr sealed" and Z: "lawfulCodecs Z"
    and requests: "projectionRequests E c b = Inr requests" and parents: "parentRequests X E c b \<noteq> Inr None"
    and r: "recordOf Z m c b sealed r"
  shows "validateProjectionObject X Z E m c b sealed = Inr ()"
  using built
proof (cases rule: buildSigned_cases)
  case (gloas body)
  obtain p where p: "bd_ExecutionPayload body = Some p" using body_payload[OF gloas(2)] by blast
  note shape = buildGloas_shape[OF gloas(3) parents p]
  from shape(1,2,3) r obtain g e where g: "cb_gloas sealed = Some g" "cb_envelope sealed = Some e"
    "z_MarshalGloas Z g = Inr (pj_SignedSSZ r)" "z_MarshalEnvelope Z e = Inr (pj_EnvelopeSSZ r)"
    by (auto simp: recordOf_def marshalSSZ_def)
  then show ?thesis using gloas shape requests
    by (simp add: validateProjectionObject_def validateGloas_def Let_def deref_def)
next
  case (deneb body message root sig)
  then obtain bodyRoot where "z_DenebBodyRoot Z (denebBodyFromElectra body) = Inr bodyRoot"
    using lawfulCodecsD(5)[OF Z, of message "denebBodyFromElectra body" root] by auto
  then show ?thesis using deneb requests
    by (simp add: validateProjectionObject_def Let_def deref_def beaconMessage_def zeroConsensusBlock_def)
next
  case (electra body message root sig)
  then obtain bodyRoot where "z_ElectraBodyRoot Z body = Inr bodyRoot"
    using lawfulCodecsD(6)[OF Z, of message body root] by auto
  then show ?thesis using electra requests
    by (simp add: validateProjectionObject_def Let_def deref_def beaconMessage_def zeroConsensusBlock_def)
qed

lemma decode_built:
  assumes built: "buildSigned X Z E m c b requests parent = Inr sealed" and Z: "lawfulCodecs Z"
    and parents: "parentRequests X E c b \<noteq> Inr None" and r: "recordOf Z m c b sealed r"
    and forks: "fk_PragueEpoch (cm_forks m) \<le> fk_OsakaEpoch (cm_forks m)"
      "fk_AmsterdamEpoch (cm_forks m) \<ge> 0 \<longrightarrow> fk_OsakaEpoch (cm_forks m) \<le> word_of_int (fk_AmsterdamEpoch (cm_forks m))"
  shows "decodeProjection Z (b_Hash b) r = Inr sealed \<and> consensusBlock_slot sealed = Inr (slotOf c b)
    \<and> consensusBlock_parentRoot sealed = Inr parent \<and> executionHash sealed = Inr (b_Hash b)"
  using built
proof (cases rule: buildSigned_cases)
  case (gloas body)
  obtain p where p: "bd_ExecutionPayload body = Some p" "ep_BlockHash p = b_Hash b" using body_payload[OF gloas(2)] by blast
  note shape = buildGloas_shape[OF gloas(3) parents p(1)]
  from shape(1,2,3) r obtain g e where g: "cb_gloas sealed = Some g" "cb_envelope sealed = Some e"
    "z_MarshalGloas Z g = Inr (pj_SignedSSZ r)" "z_MarshalEnvelope Z e = Inr (pj_EnvelopeSSZ r)"
    by (auto simp: recordOf_def marshalSSZ_def)
  with shape(1) have sealed: "sealed = zeroConsensusBlock\<lparr>cb_gloas := Some g, cb_envelope := Some e\<rparr>" by simp
  have "pj_Fork r = ''gloas''" using r gloas(1) by (simp add: recordOf_def)
  then have "decodeProjection Z (b_Hash b) r = Inr sealed"
    using lawfulCodecsD(3)[OF Z g(3)] lawfulCodecsD(4)[OF Z g(4)] shape(4)
    by (simp add: decodeProjection_def Let_def flip: sealed)
  then show ?thesis using shape p(2) by simp
next
  case (deneb body message root sig)
  obtain p where p: "bd_ExecutionPayload body = Some p" "ep_BlockHash p = b_Hash b" using body_payload[OF deneb(3)] by blast
  have "pj_Fork r = ''deneb''" using r deneb(1,2) forkName_cases[OF forks, of "slotOf c b"] by (simp add: recordOf_def)
  moreover have "z_MarshalDeneb Z \<lparr>sk_Message = Some message, sk_Signature = sig\<rparr> = Inr (pj_SignedSSZ r)"
    using r deneb(7) by (simp add: recordOf_def marshalSSZ_def zeroConsensusBlock_def deref_def)
  then have "z_UnmarshalDeneb Z (pj_SignedSSZ r) = Inr \<lparr>sk_Message = Some message, sk_Signature = sig\<rparr>"
    by (rule lawfulCodecsD(1)[OF Z])
  moreover have "signedPayload (Some \<lparr>sk_Message = Some message, sk_Signature = sig\<rparr>) = Some p"
    using deneb(4) p(1) by (simp add: signedPayload_def denebBodyFromElectra_def)
  ultimately show ?thesis using deneb(4,7) p(2)
    by (auto simp: decodeProjection_def consensusBlock_slot_def consensusBlock_parentRoot_def beaconMessage_def deref_def
        executionHash_def zeroConsensusBlock_def)
next
  case (electra body message root sig)
  obtain p where p: "bd_ExecutionPayload body = Some p" "ep_BlockHash p = b_Hash b" using body_payload[OF electra(3)] by blast
  have "pj_Fork r \<in> {''electra'', ''fulu''}" using r electra(1,2) forkName_cases[OF forks, of "slotOf c b"] by (simp add: recordOf_def)
  moreover have "z_MarshalElectra Z \<lparr>sk_Message = Some message, sk_Signature = sig\<rparr> = Inr (pj_SignedSSZ r)"
    using r electra(7) by (simp add: recordOf_def marshalSSZ_def zeroConsensusBlock_def deref_def)
  then have "z_UnmarshalElectra Z (pj_SignedSSZ r) = Inr \<lparr>sk_Message = Some message, sk_Signature = sig\<rparr>"
    by (rule lawfulCodecsD(2)[OF Z])
  moreover have "signedPayload (Some \<lparr>sk_Message = Some message, sk_Signature = sig\<rparr>) = Some p"
    using electra(4) p(1) by (simp add: signedPayload_def )
  ultimately show ?thesis using electra(4,7) p(2)
    by (auto simp: decodeProjection_def consensusBlock_slot_def consensusBlock_parentRoot_def beaconMessage_def deref_def
        executionHash_def zeroConsensusBlock_def)
qed

text \<open>A record made for a block that is new to the cache and to the store.\<close>

lemma signedBlock_sameBeacon:
  "signedBlockLocked X Z E fuel c b requests m = (r, m') \<Longrightarrow> sameBeacon m m'"
proof (induction fuel arbitrary: b requests m m' r)
  case (Suc fuel)
  have refl: "sameBeacon m m" for m by (simp add: sameBeacon_def)
  have trans: "sameBeacon m1 m2 \<Longrightarrow> sameBeacon m1 (cm_blocks_update f m2)" for m1 m2 f by (simp add: sameBeacon_def)
  from Suc show ?case
    by (auto simp: bindA_def act_run split: if_splits option.splits prod.splits sum.splits intro: refl trans)
qed (simp add: act_run sameBeacon_def)

lemma loadProjection_absent:
  "loadProjection Z E c h = Inr found \<Longrightarrow> map_of (ch_db c) (KProjection h) = None \<Longrightarrow> found = None"
  by (auto simp: loadProjection_def dbGet_def err_simps split: option.splits)

lemma projectionRecord_fresh:
  assumes run: "projectionRecord X Z E c b requests m = (Inr r, m')"
    and fresh: "map_of (cm_blocks m) (b_Hash b) = None" "map_of (ch_db c) (KProjection (b_Hash b)) = None"
  shows "\<exists>sealed parent m1. buildSigned X Z E m1 c b requests parent = Inr sealed \<and> sameBeacon m m1 \<and> recordOf Z m c b sealed r"
proof -
  obtain sealed where sealed: "signedBlockLocked X Z E (Suc (unat (b_Number b))) c b requests m = (Inr sealed, m')"
    and r: "recordOf Z m' c b sealed r"
    using run by (auto simp: projectionRecord_def signedBlockWithRequests_def bindA_Inr act_run liftA_eq recordOf_def
        simp del: signedBlockLocked.simps)
  have same: "sameBeacon m m'" by (rule signedBlock_sameBeacon[OF sealed])
  obtain m1 parent where "buildSigned X Z E m1 c b requests parent = Inr sealed" "sameBeacon m m1"
    using sealed fresh by (auto simp: bindA_Inr act_run liftA_eq sameBeacon_def dest: loadProjection_absent
        dest!: signedBlock_sameBeacon split: option.splits if_splits)
  moreover have "recordOf Z m c b sealed r" using r same by (simp add: recordOf_def sameBeacon_simps)
  ultimately show ?thesis by blast
qed

lemma restart_checks:
  assumes Z: "lawfulCodecs Z"
    and run: "projectionRecord X Z E c b requests m = (Inr r, m1)"
    and fresh: "map_of (cm_blocks m) (b_Hash b) = None" "map_of (ch_db c) (KProjection (b_Hash b)) = None"
    and forks: "fk_PragueEpoch (cm_forks m) \<le> fk_OsakaEpoch (cm_forks m)"
      "fk_AmsterdamEpoch (cm_forks m) \<ge> 0 \<longrightarrow> fk_OsakaEpoch (cm_forks m) \<le> word_of_int (fk_AmsterdamEpoch (cm_forks m))"
    and parents: "parentRequests X E c b \<noteq> Inr None"
    and restart: "sameBeacon m m'" "sameInputs X Z E c c' b" "map_of (ch_db c') (KProjection (b_Hash b)) = Some (Val (VProjection r))"
      "projectionRequests calm c' b = Inr requests"
  shows "\<exists>sealed. loadProjection Z calm c' (b_Hash b) = Inr (Some (sealed, r)) \<and> pj_Slot r = slotOf c' b
    \<and> pj_Fork r = forkName m' (slotOf c' b) \<and> executionHash sealed = Inr (b_Hash b)
    \<and> validateProjectionObject X Z calm m' c' b sealed = Inr ()"
proof -
  obtain sealed parent m2 where built: "buildSigned X Z E m2 c b requests parent = Inr sealed"
    and same: "sameBeacon m m2" and r: "recordOf Z m c b sealed r"
    using projectionRecord_fresh[OF run fresh] by blast
  have both: "sameBeacon m2 m'" using same restart(1) by (simp add: sameBeacon_def)
  have built': "buildSigned X Z calm m' c' b requests parent = Inr sealed"
    using build_agrees[OF both restart(2)] built by simp
  have slot: "slotOf c' b = slotOf c b" and parents': "parentRequests X calm c' b \<noteq> Inr None"
    using restart(2) parents by (simp_all add: sameInputs_def)
  have r': "recordOf Z m' c' b sealed r" using r slot by (simp add: recordOf_def sameBeacon_simps[OF restart(1)])
  have forks': "fk_PragueEpoch (cm_forks m') \<le> fk_OsakaEpoch (cm_forks m')"
      "fk_AmsterdamEpoch (cm_forks m') \<ge> 0 \<longrightarrow> fk_OsakaEpoch (cm_forks m') \<le> word_of_int (fk_AmsterdamEpoch (cm_forks m'))"
    using forks by (simp_all add: sameBeacon_simps[OF restart(1)])
  note decoded = decode_built[OF built' Z parents' r' forks']
  have "loadProjection Z calm c' (b_Hash b) = Inr (Some (sealed, r))"
    using decoded r' restart(3) by (simp add: loadProjection_Some recordOf_def calm_def)
  then show ?thesis
    using decoded validate_built[OF built' Z restart(4) parents' r'] r' by (auto simp: recordOf_def)
qed


section \<open>An instance\<close>

definition genesisSigned :: SignedBeaconBlock where
  "genesisSigned = \<lparr>sk_Message = Some \<lparr>bm_Slot = 0, bm_ProposerIndex = 0, bm_ParentRoot = 0,
     bm_StateRoot = syntheticStateRoot exampleGenesis 0, bm_Body = Some \<lparr>bd_RANDAOReveal = 15,
       bd_ETH1Data = \<lparr>e1_DepositRoot = 0, e1_DepositCount = 0, e1_BlockHash = arr_bytes (b_Hash exampleGenesis)\<rparr>,
       bd_Graffiti = 0, bd_ProposerSlashings = [], bd_AttesterSlashings = [], bd_Attestations = [], bd_Deposits = [],
       bd_VoluntaryExits = [], bd_SyncAggregate = \<lparr>sa_SyncCommitteeBits = replicate 64 0, sa_SyncCommitteeSignature = 0\<rparr>,
       bd_ExecutionPayload = Some (executionPayload exampleGenesis []), bd_BLSToExecutionChanges = [],
       bd_BlobKZGCommitments = [],
       bd_ExecutionRequests = Some \<lparr>Deposits = [], Withdrawals = [], Consolidations = [], BuilderDeposits = [], BuilderExits = []\<rparr>\<rparr>\<rparr>,
     sk_Signature = 15\<rparr>"

definition storeCodecs :: "memChain codecs" where
  "storeCodecs = plainCodecs\<lparr>z_MarshalElectra := (\<lambda>s. if s = genesisSigned then Inr [1] else Inl (Err ''size'')),
     z_UnmarshalElectra := (\<lambda>e. if e = [1] then Inr genesisSigned else Inl (Err ''size''))\<rparr>"

definition genesisRecord :: storedProjection where
  "genesisRecord = \<lparr>pj_Format = 2, pj_Fork = ''fulu'', pj_Slot = 0, pj_Root = 8, pj_ParentRoot = 0, pj_EnvelopeSSZ = [], pj_SignedSSZ = [1]\<rparr>"

lemma storeCodecs_lawful: "lawfulCodecs storeCodecs"
  by (simp add: lawfulCodecs_def storeCodecs_def plainCodecs_def)

lemma genesis_sealed:
  "buildSigned memExecution storeCodecs calm exampleModel exampleChain exampleGenesis None 0
   = Inr (zeroConsensusBlock\<lparr>cb_electra := Some genesisSigned\<rparr>)"
proof -
  have slot: "slotOf exampleChain exampleGenesis = 0"
    by (simp add: slotOf_def exampleChain_def exampleGenesis_def)
  have fork: "forkName exampleModel 0 = ''fulu''"
    by (simp add: forkName_def forkVersion_def exampleModel_def)
  have sign: "consensus_sign storeCodecs exampleModel root domainType 0 0 = Inr 15" for root domainType
    by (simp add: consensus_sign_def consensus_domain_def storeCodecs_def plainCodecs_def exampleModel_def)
  have body: "b_Transactions exampleGenesis = []" "h_BaseFee (b_Header exampleGenesis) = None"
    by (simp_all add: exampleGenesis_def emptyBlock_def zeroHeader_def)
  have proposer: "syntheticProposer exampleModel 0 = 0" by (simp add: syntheticProposer_def)
  show ?thesis
    by (simp add: buildSigned_def consensus_body_def slot fork sign body proposer Let_def cloneElectraExecutionRequests_def genesisSigned_def)
       (simp add: exampleModel_def storeCodecs_def plainCodecs_def emptyRequests_def)
qed

lemma genesis_record:
  "projectionRecord memExecution storeCodecs calm exampleChain exampleGenesis None exampleModel
   = (Inr genesisRecord, exampleModel\<lparr>cm_blocks := [(100, zeroConsensusBlock\<lparr>cb_electra := Some genesisSigned\<rparr>)]\<rparr>)"
proof -
  let ?sealed = "zeroConsensusBlock\<lparr>cb_electra := Some genesisSigned\<rparr>"
  have genesis: "b_Hash exampleGenesis = 100" "b_Number exampleGenesis = 0"
    by (simp_all add: exampleGenesis_def zeroHeader_def)
  have load: "loadProjection storeCodecs calm exampleChain 100 = Inr None"
    by (simp add: loadProjection_def exampleChain_def)
  have cache: "cm_blocks exampleModel = []"
    "cm_blocks_update (AList.update 100 s) exampleModel = exampleModel\<lparr>cm_blocks := [(100, s)]\<rparr>" for s
    by (simp_all add: exampleModel_def)
  have sealed: "signedBlockWithRequests memExecution storeCodecs calm exampleChain exampleGenesis None exampleModel
      = (Inr ?sealed, exampleModel\<lparr>cm_blocks := [(100, ?sealed)]\<rparr>)"
    using genesis_sealed load genesis cache by (simp add: signedBlockWithRequests_def act_simps)
  have parts: "messageRoot storeCodecs ?sealed = Inr 8" "marshalSSZ storeCodecs ?sealed = Inr [1]"
    "consensusBlock_parentRoot ?sealed = Inr 0" "cb_envelope ?sealed = None"
    by (simp_all add: messageRoot_def marshalSSZ_def consensusBlock_parentRoot_def beaconMessage_def deref_def zeroConsensusBlock_def
        storeCodecs_def plainCodecs_def) (simp_all add: genesisSigned_def)
  have slot: "slotOf exampleChain exampleGenesis = 0" by (simp add: slotOf_def exampleChain_def exampleGenesis_def)
  have fork: "forkName (exampleModel\<lparr>cm_blocks := bs\<rparr>) 0 = ''fulu''" for bs
    by (simp add: forkName_def forkVersion_def exampleModel_def)
  show ?thesis using sealed parts slot fork
    by (simp add: projectionRecord_def act_simps genesisRecord_def projectionFormat_def)
qed

definition storedGenesis :: "(memChain, (address \<times> u64) list) executionChain" where
  "storedGenesis = exampleChain\<lparr>ch_db := [(KProjection 100, Val (VProjection genesisRecord))],
     ch_config := exampleConfig\<lparr>cc_OsakaTime := Some 0\<rparr>\<rparr>"

lemma genesis_simps:
  "b_Hash exampleGenesis = 100" "b_Number exampleGenesis = 0" "b_Transactions exampleGenesis = []"
  "h_BlockAccessListHash (b_Header exampleGenesis) = None"
  by (simp_all add: exampleGenesis_def emptyBlock_def zeroHeader_def)

lemma genesis_parents: "parentRequests memExecution E c exampleGenesis = Inr (Some emptyRequests)"
  by (simp add: parentRequests_def cloneElectraExecutionRequests_def genesis_simps)

lemma genesis_inputs: "sameInputs memExecution storeCodecs calm exampleChain storedGenesis exampleGenesis"
proof -
  have "slotOf storedGenesis exampleGenesis = slotOf exampleChain exampleGenesis"
    by (simp add: slotOf_def storedGenesis_def exampleChain_def genesis_simps)
  then show ?thesis by (simp add: sameInputs_def genesis_parents blockAccessListBytes_def genesis_simps)
qed

lemma genesis_restart:
  "map_of (cm_blocks exampleModel) (b_Hash exampleGenesis) = None"
  "map_of (ch_db exampleChain) (KProjection (b_Hash exampleGenesis)) = None"
  "map_of (ch_db storedGenesis) (KProjection (b_Hash exampleGenesis)) = Some (Val (VProjection genesisRecord))"
  "sameBeacon exampleModel exampleModel" "projectionRequests calm storedGenesis exampleGenesis = Inr None"
  "parentRequests memExecution calm exampleChain exampleGenesis \<noteq> Inr None"
  "fk_PragueEpoch (cm_forks exampleModel) \<le> fk_OsakaEpoch (cm_forks exampleModel)"
  "fk_AmsterdamEpoch (cm_forks exampleModel) \<ge> 0
    \<longrightarrow> fk_OsakaEpoch (cm_forks exampleModel) \<le> word_of_int (fk_AmsterdamEpoch (cm_forks exampleModel))"
  by (simp_all add: genesis_parents projectionRequests_def sameBeacon_def genesis_simps storedGenesis_def exampleModel_def exampleChain_def)


section \<open>The index at the start\<close>

text \<open>What the start has checked of a block and its projection.\<close>

definition checkedProjection ::
  "('x, 's, 'w) execution_scheme \<Rightarrow> ('x, 'y) codecs_scheme \<Rightarrow> env \<Rightarrow> consensusModel \<Rightarrow> ('x, 's) executionChain
   \<Rightarrow> hash \<Rightarrow> storedProjection \<Rightarrow> block \<Rightarrow> bool" where
  "checkedProjection X Z E m c h r b \<longleftrightarrow> x_GetBlockByHash X (ch_blockchain c) h = Some b
     \<and> pj_Slot r = slotOf c b \<and> pj_Fork r = expectedFork X c b
     \<and> (\<exists>sealed. loadProjection Z E c h = Inr (Some (sealed, r)) \<and> executionHash sealed = Inr h
          \<and> validateProjectionObject X Z E m c b sealed = Inr ())"

lemma indexProjection_step:
  assumes "indexProjection X Z E m c (index, records) h = Inr (index', records')"
  shows "\<exists>r b. checkedProjection X Z E m c h r b \<and> index' = AList.update (pj_Root r) h index
    \<and> records' = AList.update h r records \<and> map_of index (pj_Root r) \<in> {None, Some h}"
proof -
  obtain sealed r where load: "loadProjection Z E c h = Inr (Some (sealed, r))"
    using assms by (cases "loadProjection Z E c h") (auto simp: indexProjection_def split: option.splits)
  obtain b where b: "x_GetBlockByHash X (ch_blockchain c) h = Some b"
    using assms load by (cases "x_GetBlockByHash X (ch_blockchain c) h") (simp_all add: indexProjection_def)
  have checks: "pj_Slot r = slotOf c b" "pj_Fork r = expectedFork X c b" "executionHash sealed = Inr h"
    "validateProjectionObject X Z E m c b sealed = Inr ()"
    using assms load b by (simp_all add: indexProjection_def err_simps split: if_splits)
  then have "checkedProjection X Z E m c h r b" using load b unfolding checkedProjection_def by blast
  moreover have "index' = AList.update (pj_Root r) h index" "records' = AList.update h r records"
      "map_of index (pj_Root r) \<in> {None, Some h}"
    using assms load b checks by (auto simp: indexProjection_def split: option.splits if_splits)
  ultimately show ?thesis by blast
qed

lemma checkedProjection_unique:
  "checkedProjection X Z E m c h r b \<Longrightarrow> checkedProjection X Z E m c h r' b' \<Longrightarrow> r = r' \<and> b = b'"
  by (auto simp: checkedProjection_def)

definition indexOK ::
  "('x, 's, 'w) execution_scheme \<Rightarrow> ('x, 'y) codecs_scheme \<Rightarrow> env \<Rightarrow> consensusModel \<Rightarrow> ('x, 's) executionChain
   \<Rightarrow> (hash \<times> hash) list \<times> (hash \<times> storedProjection) list \<Rightarrow> bool" where
  "indexOK X Z E m c = (\<lambda>(index, records).
     (\<forall>h r. map_of records h = Some r \<longrightarrow> (\<exists>b. checkedProjection X Z E m c h r b) \<and> map_of index (pj_Root r) = Some h)
     \<and> (\<forall>root h. map_of index root = Some h \<longrightarrow> (\<exists>r. map_of records h = Some r \<and> pj_Root r = root)))"

lemma indexOKD:
  assumes "indexOK X Z E m c (index, records)"
  shows "map_of records h = Some r \<Longrightarrow> \<exists>b. checkedProjection X Z E m c h r b"
    and "map_of records h = Some r \<Longrightarrow> map_of index (pj_Root r) = Some h"
    and "map_of index root = Some h \<Longrightarrow> \<exists>r. map_of records h = Some r \<and> pj_Root r = root"
  using assms unfolding indexOK_def prod.case by blast+

lemma indexProjection_OK:
  assumes "indexOK X Z E m c s" "indexProjection X Z E m c s h = Inr s'"
  shows "indexOK X Z E m c s' \<and> dom (map_of (snd s')) = insert h (dom (map_of (snd s)))"
proof -
  obtain index records index' records' where s: "s = (index, records)" "s' = (index', records')" by (cases s; cases s')
  obtain r b where r: "checkedProjection X Z E m c h r b" "index' = AList.update (pj_Root r) h index"
    "records' = AList.update h r records" "map_of index (pj_Root r) \<in> {None, Some h}"
    using indexProjection_step assms(2) s by blast
  note OK = assms(1)[unfolded s]
  have unique: "map_of records h = Some r' \<Longrightarrow> r' = r" for r'
    using indexOKD(1)[OF OK] checkedProjection_unique[OF r(1)] by blast
  have "(\<exists>b. checkedProjection X Z E m c h' r' b) \<and> map_of index' (pj_Root r') = Some h'" if "map_of records' h' = Some r'" for h' r'
  proof (cases "h' = h")
    case True
    then show ?thesis using that r by (auto simp: update_conv')
  next
    case False
    then have old: "map_of records h' = Some r'" using that r(3) by (simp add: update_conv')
    then have "pj_Root r' \<noteq> pj_Root r" using indexOKD(2)[OF OK old] r(4) False by auto
    then show ?thesis using indexOKD(1,2)[OF OK old] r(2) by (simp add: update_conv')
  qed
  moreover have "\<exists>r'. map_of records' h' = Some r' \<and> pj_Root r' = root" if here: "map_of index' root = Some h'" for root h'
  proof (cases "root = pj_Root r")
    case True
    then show ?thesis using here r by (auto simp: update_conv')
  next
    case False
    then obtain r' where old: "map_of records h' = Some r'" "pj_Root r' = root"
      using here r(2) indexOKD(3)[OF OK, of root h'] by (auto simp: update_conv')
    then have "h' \<noteq> h" using unique False by auto
    then show ?thesis using old r(3) by (simp add: update_conv')
  qed
  ultimately have "indexOK X Z E m c s'" unfolding indexOK_def s prod.case by blast
  moreover have "dom (map_of (snd s')) = insert h (dom (map_of (snd s)))" by (simp add: s r(3) update_conv')
  ultimately show ?thesis by blast
qed

lemma foldE_dom:
  assumes "foldE f s xs = Inr t" "P s" "\<And>s x s'. P s \<Longrightarrow> f s x = Inr s' \<Longrightarrow> P s' \<and> D s' = insert x (D s)"
  shows "P t \<and> D t = set xs \<union> D s"
  using assms
proof (induction xs arbitrary: s)
  case (Cons x xs)
  from Cons.prems(1) obtain s1 where s1: "f s x = Inr s1" "foldE f s1 xs = Inr t" by (auto simp: err_simps)
  have step: "P s1" "D s1 = insert x (D s)" using Cons.prems(3)[OF Cons.prems(2) s1(1)] by simp_all
  from Cons.IH[OF s1(2) step(1) Cons.prems(3)] show ?case by (simp add: step(2))
qed simp

lemma foldE_all: "foldE (\<lambda>_. f) () xs = Inr () \<Longrightarrow> x \<in> set xs \<Longrightarrow> f x = Inr ()"
  by (induction xs) (auto simp: err_simps)

text \<open>
  C4: A start that succeeds has a Beacon chain that mirrors the execution chain: every block with a
  recorded slot has a projection that decodes, is of the right slot and fork, carries that block as payload and
  matches it; different blocks have different Beacon roots and the index maps exactly these roots to
  their blocks; and the Beacon parent of a block is the projection of its execution parent, which is
  itself indexed, down to the genesis whose parent root is zero.
\<close>

theorem startup_index_mirrors_chain:
  assumes start: "initializeBeaconRootIndex X Z E m c = Inr c'"
  shows "(\<forall>root h. map_of (ch_beaconBlockByRoot c') root = Some h \<longleftrightarrow>
        h \<in> fst ` set (ch_slotByHash c) \<and> (\<exists>r b. checkedProjection X Z E m c h r b \<and> pj_Root r = root))
    \<and> (\<forall>h. h \<in> fst ` set (ch_slotByHash c) \<longrightarrow> (\<exists>r b. checkedProjection X Z E m c h r b
        \<and> (if b_Number b = 0 then pj_ParentRoot r = 0
           else map_of (ch_beaconBlockByRoot c') (pj_ParentRoot r) = Some (b_ParentHash b))))"
proof -
  obtain index records where fold: "foldE (indexProjection X Z E m c) ([], []) (map fst (ch_slotByHash c)) = Inr (index, records)"
    and links: "foldE (\<lambda>_. linkProjection X c records) () records = Inr ()" and c': "c' = c\<lparr>ch_beaconBlockByRoot := index\<rparr>"
    using start by (auto simp: initializeBeaconRootIndex_def err_simps)
  have "indexOK X Z E m c ([], [])" by (simp add: indexOK_def)
  from foldE_dom[where P = "indexOK X Z E m c" and D = "\<lambda>s. dom (map_of (snd s))", OF fold this indexProjection_OK]
  have OK: "indexOK X Z E m c (index, records)" and dom: "dom (map_of records) = fst ` set (ch_slotByHash c)"
    by simp_all
  have known: "\<exists>r b. map_of records h = Some r \<and> checkedProjection X Z E m c h r b \<and> map_of index (pj_Root r) = Some h"
    if "h \<in> fst ` set (ch_slotByHash c)" for h
  proof -
    from that dom obtain r where "map_of records h = Some r" by blast
    then show ?thesis using indexOKD(1,2)[OF OK] by blast
  qed
  have link: "if b_Number b = 0 then pj_ParentRoot r = 0 else map_of index (pj_ParentRoot r) = Some (b_ParentHash b)"
    if r: "map_of records h = Some r" and b: "checkedProjection X Z E m c h r b" for h r b
  proof -
    have "linkProjection X c records (h, r) = Inr ()" using foldE_all[OF links] map_of_SomeD[OF r] by blast
    then show ?thesis using b
      by (auto simp: linkProjection_def checkedProjection_def deref_def dest: indexOKD(2)[OF OK] split: if_splits option.splits)
  qed
  have roots: "map_of index root = Some h \<longleftrightarrow> h \<in> fst ` set (ch_slotByHash c) \<and> (\<exists>r b. checkedProjection X Z E m c h r b \<and> pj_Root r = root)"
    for root h
  proof
    assume "map_of index root = Some h"
    then obtain r where r: "map_of records h = Some r" "pj_Root r = root" using indexOKD(3)[OF OK] by blast
    then obtain b where "checkedProjection X Z E m c h r b" using indexOKD(1)[OF OK] by blast
    then show "h \<in> fst ` set (ch_slotByHash c) \<and> (\<exists>r b. checkedProjection X Z E m c h r b \<and> pj_Root r = root)"
      using r dom by blast
  next
    assume "h \<in> fst ` set (ch_slotByHash c) \<and> (\<exists>r b. checkedProjection X Z E m c h r b \<and> pj_Root r = root)"
    then show "map_of index root = Some h" using known[of h] checkedProjection_unique by blast
  qed
  have idx: "ch_beaconBlockByRoot c' = index" by (simp add: c')
  show ?thesis unfolding idx
  proof (intro conjI allI impI)
    show "map_of index root = Some h \<longleftrightarrow> h \<in> fst ` set (ch_slotByHash c) \<and> (\<exists>r b. checkedProjection X Z E m c h r b \<and> pj_Root r = root)"
      for root h by (rule roots)
  next
    fix h
    assume "h \<in> fst ` set (ch_slotByHash c)"
    from known[OF this] link show "\<exists>r b. checkedProjection X Z E m c h r b \<and> (if b_Number b = 0 then pj_ParentRoot r = 0
        else map_of index (pj_ParentRoot r) = Some (b_ParentHash b))" by blast
  qed
qed

theorem startup_index_mirrors_chain_witness:
  "\<exists>c'. initializeBeaconRootIndex memExecution storeCodecs calm exampleModel storedGenesis = Inr c'
     \<and> map_of (ch_beaconBlockByRoot c') 8 = Some 100
     \<and> (\<exists>r b. checkedProjection memExecution storeCodecs calm exampleModel storedGenesis 100 r b \<and> pj_Root r = 8)"
proof -
  have block: "x_GetBlockByHash memExecution (ch_blockchain storedGenesis) 100 = Some exampleGenesis"
    by (simp add: exampleGenesis_def memExecution_def memBlock_def storedGenesis_def exampleChain_def genesisChain_def)
  obtain sealed where sealed: "loadProjection storeCodecs calm storedGenesis 100 = Inr (Some (sealed, genesisRecord))"
    "pj_Slot genesisRecord = slotOf storedGenesis exampleGenesis" "executionHash sealed = Inr 100"
    "validateProjectionObject memExecution storeCodecs calm exampleModel storedGenesis exampleGenesis sealed = Inr ()"
    using restart_checks[OF storeCodecs_lawful genesis_record genesis_restart(1,2,7,8,6,4) genesis_inputs genesis_restart(3,5)]
    by (auto simp: genesis_simps)
  have fork: "expectedFork memExecution storedGenesis exampleGenesis = ''fulu''"
    by (simp add: expectedFork_def memExecution_def storedGenesis_def exampleChain_def exampleConfig_def exampleGenesis_def)
  have rest: "pj_Fork genesisRecord = ''fulu''" "pj_Root genesisRecord = 8" "pj_ParentRoot genesisRecord = 0"
    "map fst (ch_slotByHash storedGenesis) = [100]"
    by (simp_all add: genesisRecord_def storedGenesis_def exampleChain_def)
  have start: "initializeBeaconRootIndex memExecution storeCodecs calm exampleModel storedGenesis
      = Inr (storedGenesis\<lparr>ch_beaconBlockByRoot := [(8, 100)]\<rparr>)"
    unfolding initializeBeaconRootIndex_def rest(4)
    by (simp add: indexProjection_def linkProjection_def deref_def sealed block genesis_simps fork rest)
  have "map_of (ch_beaconBlockByRoot (storedGenesis\<lparr>ch_beaconBlockByRoot := [(8, 100)]\<rparr>)) 8 = Some 100" by simp
  with startup_index_mirrors_chain[OF start] start show ?thesis by blast
qed

end
