(* ===== verification/Spec2Isabelle.thy ===== *)
theory Spec2Isabelle
  imports Commands Projection
begin

text \<open>
  A verification library for \<open>ethertest\<close>, a deterministic Ethereum execution and consensus
  test node written in Go.
\<close>

end
